(* ===== verification/Prelude.thy ===== *)
theory Prelude
  imports Complex_Main "HOL-Library.AList" "HOL-Library.Char_ord" "HOL-Library.List_Lexorder"
    "HOL-Library.Multiset"
begin

text \<open>
  What every component of the development shares: the dynamically typed values the program
  passes around (\<open>any\<close> in Go), its property maps, error results, and generic facts on
  association lists, sorting and options.

  Conventions of the model.
  \<^item> A Go string is an Isabelle \<^typ>\<open>string\<close>, one character per byte; the order on strings
    is the byte-wise lexicographic one Go's \<open><\<close> uses.
  \<^item> A property map (\<open>map[string]any\<close>) is an association list kept strictly sorted by key.
    Sorted lists are canonical, so \<open>reflect.DeepEqual\<close> on maps is a structural comparison.
  \<^item> Other Go maps are association lists with distinct keys whose list order is the order
    in which a \<open>range\<close> loop visits them. Go leaves that order open, so the theorems
    quantify over every list.
  \<^item> Reading a missing key of a \<open>map[string]any\<close> gives \<open>nil\<close>, here \<open>VNil\<close>.
\<close>

section \<open>Fact collections\<close>

named_theorems propmap \<open>reading and writing property maps\<close>
named_theorems storemap \<open>reading and writing keyed stores\<close>
named_theorems preserves \<open>operations that keep an invariant\<close>

section \<open>Values\<close>

text \<open>
  A \<open>float64\<close>: a finite double is the rational number it denotes; the modelled code only
  stores and compares doubles.
\<close>

datatype f64 = Fin rat | PosInf | NegInf | NaN

fun f64_less :: "f64 \<Rightarrow> f64 \<Rightarrow> bool" where
  "f64_less NaN _ = False"
| "f64_less _ NaN = False"
| "f64_less (Fin a) (Fin b) = (a < b)"
| "f64_less NegInf y = (y \<noteq> NegInf)"
| "f64_less _ NegInf = False"
| "f64_less PosInf _ = False"
| "f64_less _ PosInf = True"

fun f64_eq :: "f64 \<Rightarrow> f64 \<Rightarrow> bool" where
  "f64_eq NaN _ = False"
| "f64_eq x y = (x = y)"

text \<open>The dynamic values the program stores in property maps.\<close>

datatype val =
    VNil
  | VStr string
  | VBool bool
  | VInt int
  | VFlt f64
  | VArr "val list"
  | VStrs "string list"
  | VFlts "f64 list"
  | VObj "(string \<times> val) list"

type_synonym props = "(string \<times> val) list"

text \<open>
  \<open>reflect.DeepEqual\<close>: dynamic types and contents agree; \<open>NaN\<close> differs from itself.
\<close>

fun deep_eq :: "val \<Rightarrow> val \<Rightarrow> bool"
and deep_eqs :: "val list \<Rightarrow> val list \<Rightarrow> bool"
and deep_eqm :: "props \<Rightarrow> props \<Rightarrow> bool" where
  "deep_eq (VFlt a) (VFlt b) = f64_eq a b"
| "deep_eq (VFlts as) (VFlts bs) = list_all2 f64_eq as bs"
| "deep_eq (VArr as) (VArr bs) = deep_eqs as bs"
| "deep_eq (VObj m) (VObj m') = deep_eqm m m'"
| "deep_eq a b = (a = b)"
| "deep_eqs [] [] = True"
| "deep_eqs (a # as) (b # bs) = (deep_eq a b \<and> deep_eqs as bs)"
| "deep_eqs _ _ = False"
| "deep_eqm [] [] = True"
| "deep_eqm ((k, a) # m) ((k', b) # m') = (k = k' \<and> deep_eq a b \<and> deep_eqm m m')"
| "deep_eqm _ _ = False"

text \<open>\<open>DeepEqual\<close> on two possibly nil maps: a nil map differs from an empty one.\<close>

fun deep_eq_map :: "props option \<Rightarrow> props option \<Rightarrow> bool" where
  "deep_eq_map None None = True"
| "deep_eq_map (Some m) (Some m') = deep_eqm m m'"
| "deep_eq_map _ _ = False"

text \<open>Comma-ok type assertions, \<open>s, _ := v.(T)\<close>: the zero value when the type differs.\<close>

fun as_str :: "val \<Rightarrow> string" where
  "as_str (VStr s) = s"
| "as_str _ = []"

fun as_bool :: "val \<Rightarrow> bool" where
  "as_bool (VBool b) = b"
| "as_bool _ = False"

fun is_str :: "val \<Rightarrow> bool" where
  "is_str (VStr _) = True"
| "is_str _ = False"

text \<open>Values with no \<open>NaN\<close> inside: there \<^const>\<open>deep_eq\<close> is equality.\<close>

fun nan_free :: "val \<Rightarrow> bool"
and nan_frees :: "val list \<Rightarrow> bool"
and nan_freem :: "props \<Rightarrow> bool" where
  "nan_free (VFlt a) = (a \<noteq> NaN)"
| "nan_free (VFlts as) = (NaN \<notin> set as)"
| "nan_free (VArr as) = nan_frees as"
| "nan_free (VObj m) = nan_freem m"
| "nan_free _ = True"
| "nan_frees [] = True"
| "nan_frees (a # as) = (nan_free a \<and> nan_frees as)"
| "nan_freem [] = True"
| "nan_freem ((k, a) # m) = (nan_free a \<and> nan_freem m)"

lemma f64_eq_imp_eq: "f64_eq a b \<Longrightarrow> a = b"
  by (cases a) auto

lemma f64_eq_refl [simp]: "f64_eq a a \<longleftrightarrow> a \<noteq> NaN"
  by (cases a) auto

lemma list_all2_f64_eq_imp_eq: "list_all2 f64_eq as bs \<Longrightarrow> as = bs"
  by (induction rule: list_all2_induct) (auto dest: f64_eq_imp_eq)

lemma deep_eq_imp_eq:
  "deep_eq a b \<Longrightarrow> a = b"
  "deep_eqs as bs \<Longrightarrow> as = bs"
  "deep_eqm m m' \<Longrightarrow> m = m'"
  by (induction a b and as bs and m m' rule: deep_eq_deep_eqs_deep_eqm.induct)
    (auto dest: f64_eq_imp_eq list_all2_f64_eq_imp_eq)

lemma deep_eq_refl_iff [simp]:
  "deep_eq v v \<longleftrightarrow> nan_free v"
  "deep_eqs vs vs \<longleftrightarrow> nan_frees vs"
  "deep_eqm m m \<longleftrightarrow> nan_freem m"
  by (induction v and vs and m rule: nan_free_nan_frees_nan_freem.induct)
    (auto simp: list_all2_same in_set_conv_decomp)

lemma deep_eq_iff: "deep_eq a b \<longleftrightarrow> a = b \<and> nan_free a"
  using deep_eq_imp_eq(1) [of a b] by (cases "a = b") auto

lemma deep_eqm_iff: "deep_eqm m m' \<longleftrightarrow> m = m' \<and> nan_freem m"
  using deep_eq_imp_eq(3) [of m m'] by (cases "m = m'") auto

lemma deep_eq_map_None [simp]: "deep_eq_map m None \<longleftrightarrow> m = None"
  by (cases m) auto

lemma nan_freem_iff: "nan_freem m \<longleftrightarrow> (\<forall>(k, v) \<in> set m. nan_free v)"
  by (induction m) auto

section \<open>Property maps\<close>

fun put :: "string \<Rightarrow> 'a \<Rightarrow> (string \<times> 'a) list \<Rightarrow> (string \<times> 'a) list" where
  "put k v [] = [(k, v)]"
| "put k v ((k', v') # m) =
     (if k = k' then (k, v) # m
      else if k < k' then (k, v) # (k', v') # m
      else (k', v') # put k v m)"

text \<open>Assigning every entry of \<open>src\<close>: \<open>for k, v := range src { dst[k] = v }\<close>.\<close>

definition put_all :: "(string \<times> 'a) list \<Rightarrow> (string \<times> 'a) list \<Rightarrow> (string \<times> 'a) list" where
  "put_all src dst = fold (\<lambda>(k, v). put k v) src dst"

text \<open>\<open>m[k]\<close>, nil when the key is missing.\<close>

definition pget :: "props \<Rightarrow> string \<Rightarrow> val" where
  "pget m k = (case map_of m k of None \<Rightarrow> VNil | Some v \<Rightarrow> v)"

definition has_key :: "(string \<times> 'a) list \<Rightarrow> string \<Rightarrow> bool" where
  "has_key m k = (map_of m k \<noteq> None)"

abbreviation keys :: "('k \<times> 'v) list \<Rightarrow> 'k list" where
  "keys m \<equiv> map fst m"

definition canonical :: "(string \<times> 'a) list \<Rightarrow> bool" where
  "canonical m = sorted_wrt (<) (keys m)"

lemma map_of_put [simp, propmap]: "map_of (put k v m) = (map_of m)(k \<mapsto> v)"
  by (induction k v m rule: put.induct) (auto simp: fun_eq_iff)

lemma keys_put [simp]: "fst ` set (put k v m) = insert k (fst ` set m)"
  by (induction k v m rule: put.induct) (auto simp: rev_image_eqI)

lemma canonical_put [simp, preserves]: "canonical m \<Longrightarrow> canonical (put k v m)"
  unfolding canonical_def
proof (induction k v m rule: put.induct)
  case (2 k v k' v' m)
  have "fst ` set (put k v m) = insert k (fst ` set m)" by simp
  with 2 show ?case by (auto simp del: keys_put)
qed simp

lemma canonical_Nil [simp]: "canonical []"
  by (simp add: canonical_def)

lemma canonical_ConsD: "canonical (p # m) \<Longrightarrow> canonical m"
  by (simp add: canonical_def)

lemma canonical_distinct: "canonical m \<Longrightarrow> distinct (keys m)"
  unfolding canonical_def by (simp add: strict_sorted_iff)

lemma pget_put [simp, propmap]: "pget (put k v m) k' = (if k' = k then v else pget m k')"
  by (simp add: pget_def)

lemma has_key_put [simp, propmap]: "has_key (put k v m) k' \<longleftrightarrow> k' = k \<or> has_key m k'"
  by (simp add: has_key_def)

lemma has_key_iff: "has_key m k \<longleftrightarrow> k \<in> set (keys m)"
  by (simp add: has_key_def map_of_eq_None_iff)

lemma pget_no_key: "\<not> has_key m k \<Longrightarrow> pget m k = VNil"
  by (simp add: has_key_def pget_def)

lemma put_all_Nil [simp]: "put_all [] m = m"
  by (simp add: put_all_def)

lemma put_all_Cons [simp]: "put_all (p # src) m = put_all src (put (fst p) (snd p) m)"
  by (simp add: put_all_def split_def)

lemma canonical_put_all [simp, preserves]: "canonical m \<Longrightarrow> canonical (put_all src m)"
  by (induction src arbitrary: m) simp_all

lemma map_of_put_all_other:
  "k \<notin> set (keys src) \<Longrightarrow> map_of (put_all src m) k = map_of m k"
  by (induction src arbitrary: m) auto

lemma map_of_put_all [propmap]:
  "distinct (keys src) \<Longrightarrow> map_of (put_all src m) = map_of m ++ map_of src"
proof (induction src arbitrary: m)
  case (Cons p src)
  obtain k v where p: "p = (k, v)" by (cases p)
  from Cons.prems p have none: "map_of src k = None" by (simp add: map_of_eq_None_iff)
  have "map_of (put_all (p # src) m) = (map_of m)(k \<mapsto> v) ++ map_of src"
    using Cons p by simp
  also have "\<dots> = map_of m ++ map_of (p # src)"
    using none p by (auto simp: fun_eq_iff map_add_def split: option.splits)
  finally show ?case .
qed simp

lemma pget_put_all [propmap]:
  "distinct (keys src) \<Longrightarrow>
   pget (put_all src m) k = (if has_key src k then pget src k else pget m k)"
  by (auto simp: pget_def has_key_def map_of_put_all map_add_def split: option.splits)

lemma has_key_put_all [propmap]:
  "distinct (keys src) \<Longrightarrow> has_key (put_all src m) k \<longleftrightarrow> has_key src k \<or> has_key m k"
  by (auto simp: has_key_def map_of_put_all)

lemma canonical_ext:
  assumes "canonical m" "canonical m'" "map_of m = map_of m'"
  shows "m = m'"
proof -
  have dist: "distinct (keys m)" "distinct (keys m')"
    using assms(1,2) by (simp_all add: canonical_distinct)
  have same: "set m = set m'"
    using assms(3) dist by (metis map_of_inject_set)
  then have "inj_on fst (set m \<union> set m')"
    using dist(1) by (simp add: distinct_map)
  then show ?thesis
    using same dist assms(1,2)
    by (intro map_sorted_distinct_set_unique) (auto simp: canonical_def strict_sorted_iff)
qed

section \<open>Keyed stores\<close>

text \<open>
  A store \<open>map[string]T\<close> as an association list in its iteration order:
  \<^const>\<open>AList.update\<close> assigns a key, \<^const>\<open>AList.delete\<close> is the built-in
  \<open>delete\<close>.
\<close>

type_synonym 'a store = "(string \<times> 'a) list"

lemma map_of_update [simp, storemap]: "map_of (AList.update k v m) = (map_of m)(k \<mapsto> v)"
  by (simp add: update_conv')

lemma map_of_delete [simp, storemap]: "map_of (AList.delete k m) = (map_of m)(k := None)"
  by (simp add: delete_conv')

lemma distinct_keys_update [simp, preserves]:
  "distinct (keys m) \<Longrightarrow> distinct (keys (AList.update k v m))"
  by (rule distinct_update)

lemma distinct_keys_delete [simp, preserves]:
  "distinct (keys m) \<Longrightarrow> distinct (keys (AList.delete k m))"
  by (rule distinct_delete)

lemma distinct_keys_filter [simp, preserves]:
  "distinct (keys m) \<Longrightarrow> distinct (keys (filter P m))"
  by (simp add: distinct_map_filter)

lemma map_of_filter_keys [storemap]:
  "map_of (filter (\<lambda>(k, _). P k) m) k = (if P k then map_of m k else None)"
  by (induction m) auto

lemma update_fresh: "map_of m k = None \<Longrightarrow> AList.update k v m = m @ [(k, v)]"
  by (induction m) (auto split: if_splits)

lemma in_store_iff: "distinct (keys m) \<Longrightarrow> (k, v) \<in> set m \<longleftrightarrow> map_of m k = Some v"
  by (simp add: map_of_eq_Some_iff)

text \<open>
  A map to slices, \<open>m[k] = append(m[k], v)\<close>: a missing key reads as the empty slice.
\<close>

definition slot :: "('k \<times> 'v list) list \<Rightarrow> 'k \<Rightarrow> 'v list" where
  "slot m k = (case map_of m k of None \<Rightarrow> [] | Some vs \<Rightarrow> vs)"

definition push :: "'k \<Rightarrow> 'v \<Rightarrow> ('k \<times> 'v list) list \<Rightarrow> ('k \<times> 'v list) list" where
  "push k v m = AList.update k (slot m k @ [v]) m"

definition map_slots :: "('v list \<Rightarrow> 'v list) \<Rightarrow> ('k \<times> 'v list) list \<Rightarrow> ('k \<times> 'v list) list" where
  "map_slots f m = map (\<lambda>(k, vs). (k, f vs)) m"

lemma slot_Nil [simp]: "slot [] k = []"
  by (simp add: slot_def)

lemma slot_push [simp, storemap]: "slot (push k v m) j = (if j = k then slot m k @ [v] else slot m j)"
  by (simp add: slot_def push_def update_conv')

lemma slot_map_slots [simp, storemap]: "f [] = [] \<Longrightarrow> slot (map_slots f m) k = f (slot m k)"
  by (induction m) (auto simp: slot_def map_slots_def)

text \<open>Grouping a list by keys: the slot of a key holds the values of its items, in order.\<close>

lemma slot_fold_push:
  "slot (fold (\<lambda>x. push (key x) (val x)) xs m) k = slot m k @ map val (filter (\<lambda>x. key x = k) xs)"
  by (induction xs arbitrary: m) auto

lemma slot_fold_push_if:
  "slot (fold (\<lambda>x m. if P x then push (key x) (val x) m else m) xs m) k =
     slot m k @ map val (filter (\<lambda>x. P x \<and> key x = k) xs)"
  by (induction xs arbitrary: m) auto

lemma slot_fold_pushes:
  "(\<And>x. distinct (ks x)) \<Longrightarrow>
   slot (fold (\<lambda>x m. fold (\<lambda>k. push k (val x)) (ks x) m) xs m) k =
     slot m k @ map val (filter (\<lambda>x. k \<in> set (ks x)) xs)"
proof (induction xs arbitrary: m)
  case (Cons x xs)
  have "slot (fold (\<lambda>k. push k (val x)) ls m) k = slot m k @ (if k \<in> set ls then [val x] else [])"
    if "distinct ls" for ls m
    using that by (induction ls arbitrary: m) auto
  with Cons show ?case by simp
qed simp

text \<open>Each group is the sublist of the items of its key, and the groups share out the items.\<close>

definition group_by :: "('a \<Rightarrow> 'k) \<Rightarrow> 'a list \<Rightarrow> ('k \<times> 'a list) list" where
  "group_by key xs = fold (\<lambda>x. push (key x) x) xs []"

lemma distinct_fold_push:
  "distinct (keys m) \<Longrightarrow> distinct (keys (fold (\<lambda>x. push (key x) (val x)) xs m))"
  by (induction xs arbitrary: m) (auto simp: push_def distinct_update)

lemma keys_fold_push: "set (keys (fold (\<lambda>x. push (key x) (val x)) xs m)) = set (keys m) \<union> key ` set xs"
  by (induction xs arbitrary: m) (auto simp: push_def update_conv' dom_map_of_conv_image_fst [symmetric])

lemma in_group_by: "(k, g) \<in> set (group_by key xs) \<longleftrightarrow> k \<in> key ` set xs \<and> g = filter (\<lambda>x. key x = k) xs"
proof -
  let ?m = "group_by key xs"
  have dist: "distinct (keys ?m)" by (simp add: group_by_def distinct_fold_push)
  have slot: "slot ?m k = filter (\<lambda>x. key x = k) xs"
    using slot_fold_push [of key "\<lambda>x. x" xs "[]" k] by (simp add: group_by_def)
  have dom: "k \<in> set (keys ?m) \<longleftrightarrow> k \<in> key ` set xs"
    using keys_fold_push [of key "\<lambda>x. x" xs "[]"] by (simp add: group_by_def)
  show ?thesis
  proof (cases "map_of ?m k")
    case None
    then have "k \<notin> set (keys ?m)" by (simp add: map_of_eq_None_iff)
    with dom show ?thesis by force
  next
    case (Some g')
    then have "g' = filter (\<lambda>x. key x = k) xs" using slot by (simp add: slot_def)
    moreover have "k \<in> set (keys ?m)" using Some map_of_eq_None_iff [of ?m k] by auto
    ultimately show ?thesis using in_store_iff [OF dist, of k g] dom Some by auto
  qed
qed

lemma mset_push: "mset (concat (map snd (push k v m))) = add_mset v (mset (concat (map snd m)))"
  by (induction m) (auto simp: push_def slot_def)

lemma mset_group_by: "mset (concat (map snd (group_by key xs))) = mset xs"
proof -
  have "mset (concat (map snd (fold (\<lambda>x. push (key x) x) xs m))) = mset xs + mset (concat (map snd m))" for m
    by (induction xs arbitrary: m) (auto simp: mset_push)
  then show ?thesis by (simp add: group_by_def)
qed

section \<open>Sorting by a comparison\<close>

text \<open>
  \<open>sort.Slice\<close> with a comparison function: a stable insertion sort, what Go does on slices of
  up to twelve elements; on longer ones Go leaves the order of elements that compare equal open.
\<close>

fun insert_by :: "('a \<Rightarrow> 'a \<Rightarrow> bool) \<Rightarrow> 'a \<Rightarrow> 'a list \<Rightarrow> 'a list" where
  "insert_by lt x [] = [x]"
| "insert_by lt x (y # ys) = (if lt y x then y # insert_by lt x ys else x # y # ys)"

fun sort_by :: "('a \<Rightarrow> 'a \<Rightarrow> bool) \<Rightarrow> 'a list \<Rightarrow> 'a list" where
  "sort_by lt [] = []"
| "sort_by lt (x # xs) = insert_by lt x (sort_by lt xs)"

lemma mset_insert_by [simp]: "mset (insert_by lt x ys) = add_mset x (mset ys)"
  by (induction ys) auto

lemma mset_sort_by [simp]: "mset (sort_by lt xs) = mset xs"
  by (induction xs) auto

lemma set_sort_by [simp]: "set (sort_by lt xs) = set xs"
  by (metis mset_sort_by set_mset_mset)

lemma length_sort_by [simp]: "length (sort_by lt xs) = length xs"
  by (metis mset_sort_by size_mset)

lemma distinct_sort_by [simp]: "distinct (sort_by lt xs) = distinct xs"
  by (metis mset_sort_by mset_eq_imp_distinct_iff)

text \<open>A strict weak order on the elements sorts them: no later element is less than an earlier one.\<close>

definition weak_order_on :: "'a set \<Rightarrow> ('a \<Rightarrow> 'a \<Rightarrow> bool) \<Rightarrow> bool" where
  "weak_order_on A lt \<longleftrightarrow>
     (\<forall>x \<in> A. \<forall>y \<in> A. lt x y \<longrightarrow> \<not> lt y x) \<and>
     (\<forall>x \<in> A. \<forall>y \<in> A. \<forall>z \<in> A. \<not> lt x y \<longrightarrow> \<not> lt y z \<longrightarrow> \<not> lt x z)"

lemma weak_order_on_subset: "weak_order_on A lt \<Longrightarrow> B \<subseteq> A \<Longrightarrow> weak_order_on B lt"
  unfolding weak_order_on_def by blast

lemma sorted_insert_by:
  assumes "weak_order_on A lt" "insert x (set ys) \<subseteq> A" "sorted_wrt (\<lambda>a b. \<not> lt b a) ys"
  shows "sorted_wrt (\<lambda>a b. \<not> lt b a) (insert_by lt x ys)"
  using assms(2,3)
proof (induction ys)
  case (Cons y ys)
  have set: "set (insert_by lt x ys) = insert x (set ys)"
    by (metis mset_insert_by set_mset_add_mset_insert set_mset_mset)
  show ?case
  proof (cases "lt y x")
    case True
    then have "\<not> lt x y" using assms(1) Cons.prems(1) by (auto simp: weak_order_on_def)
    with True Cons set show ?thesis by auto
  next
    case False
    have "\<not> lt z x" if "z \<in> set ys" for z
    proof -
      have "z \<in> A" "x \<in> A" "y \<in> A" "\<not> lt z y" using Cons.prems that by auto
      with False assms(1) show ?thesis unfolding weak_order_on_def by blast
    qed
    with False Cons.prems show ?thesis by simp
  qed
qed simp

lemma sorted_sort_by:
  assumes "weak_order_on A lt" "set xs \<subseteq> A"
  shows "sorted_wrt (\<lambda>a b. \<not> lt b a) (sort_by lt xs)"
  using assms(2) by (induction xs) (auto intro!: sorted_insert_by [OF assms(1)])

section \<open>Rings\<close>

text \<open>The slots of a ring of size \<open>n\<close> counted from \<open>h\<close>.\<close>

lemma slot_mod: "h < n \<Longrightarrow> i < n \<Longrightarrow> (h + i) mod n = (if h + i < n then h + i else h + i - n)" for h i n :: nat
  by (auto simp: mod_if)

lemma slot_unique: "h < n \<Longrightarrow> i < n \<Longrightarrow> j < n \<Longrightarrow> (h + i) mod n = (h + j) mod n \<Longrightarrow> i = j" for h i j n :: nat
  by (auto simp: slot_mod split: if_splits)

section \<open>Errors\<close>

text \<open>
  What an operation may end in instead of a value: an error return with its message, the
  sentinel \<open>graph.ErrNotFound\<close>, a run-time panic, or a deadlock (a goroutine waiting for
  a mutex it already holds).
\<close>

datatype err = ErrMsg string | ErrNotFound | Panic string | Deadlock

type_synonym 'a res = "err + 'a"

definition is_ok :: "'a res \<Rightarrow> bool" where
  "is_ok r = (case r of Inl _ \<Rightarrow> False | Inr _ \<Rightarrow> True)"

lemma is_ok_simps [simp]: "is_ok (Inl e) = False" "is_ok (Inr v) = True"
  by (simp_all add: is_ok_def)

end
