(* ===== verification/GoStrings.thy ===== *)
theory GoStrings
  imports Prelude
begin

text \<open>
  The functions of Go's \<open>strings\<close> and \<open>strconv\<close> packages that the program calls, on
  byte strings. Case mapping and white space are those of ASCII text; on other bytes the
  functions leave the text alone. The lemmas are the facts the components use: trimming is
  idempotent, splitting and joining are inverse, decimal numerals are injective.
\<close>

section \<open>Characters\<close>

definition is_space :: "char \<Rightarrow> bool" where
  "is_space c = (c \<in> {CHR 0x09, CHR 0x0A, CHR 0x0B, CHR 0x0C, CHR 0x0D, CHR 0x20})"

definition is_digit :: "char \<Rightarrow> bool" where
  "is_digit c = (CHR ''0'' \<le> c \<and> c \<le> CHR ''9'')"

definition is_upper :: "char \<Rightarrow> bool" where
  "is_upper c = (CHR ''A'' \<le> c \<and> c \<le> CHR ''Z'')"

definition is_lower :: "char \<Rightarrow> bool" where
  "is_lower c = (CHR ''a'' \<le> c \<and> c \<le> CHR ''z'')"

definition is_letter :: "char \<Rightarrow> bool" where
  "is_letter c = (is_upper c \<or> is_lower c)"

definition is_word :: "char \<Rightarrow> bool" where
  "is_word c = (is_letter c \<or> is_digit c \<or> c = CHR ''_'')"

definition lower_char :: "char \<Rightarrow> char" where
  "lower_char c = (if is_upper c then char_of (of_char c + 32 :: nat) else c)"

definition upper_char :: "char \<Rightarrow> char" where
  "upper_char c = (if is_lower c then char_of (of_char c - 32 :: nat) else c)"

definition to_lower :: "string \<Rightarrow> string" where
  "to_lower = map lower_char"

definition to_upper :: "string \<Rightarrow> string" where
  "to_upper = map upper_char"

section \<open>Trimming, prefixes, searching\<close>

definition trim_left :: "(char \<Rightarrow> bool) \<Rightarrow> string \<Rightarrow> string" where
  "trim_left P s = dropWhile P s"

definition trim_right :: "(char \<Rightarrow> bool) \<Rightarrow> string \<Rightarrow> string" where
  "trim_right P s = rev (dropWhile P (rev s))"

definition trim_space :: "string \<Rightarrow> string" where
  "trim_space s = trim_right is_space (trim_left is_space s)"

definition has_prefix :: "string \<Rightarrow> string \<Rightarrow> bool" where
  "has_prefix s p = (take (length p) s = p)"

definition has_suffix :: "string \<Rightarrow> string \<Rightarrow> bool" where
  "has_suffix s p = has_prefix (rev s) (rev p)"

definition trim_prefix :: "string \<Rightarrow> string \<Rightarrow> string" where
  "trim_prefix s p = (if has_prefix s p then drop (length p) s else s)"

fun contains :: "string \<Rightarrow> string \<Rightarrow> bool" where
  "contains [] sub = (sub = [])"
| "contains (c # s) sub = (has_prefix (c # s) sub \<or> contains s sub)"

text \<open>\<open>strings.IndexByte\<close> and \<open>strings.LastIndexByte\<close>, None for -1.\<close>

fun index_byte :: "string \<Rightarrow> char \<Rightarrow> nat option" where
  "index_byte [] c = None"
| "index_byte (d # s) c = (if d = c then Some 0 else map_option Suc (index_byte s c))"

definition last_index_byte :: "string \<Rightarrow> char \<Rightarrow> nat option" where
  "last_index_byte s c = map_option (\<lambda>i. length s - Suc i) (index_byte (rev s) c)"

section \<open>Splitting and joining\<close>

text \<open>\<open>strings.Split\<close> on a one-byte separator.\<close>

fun split_byte :: "char \<Rightarrow> string \<Rightarrow> string list" where
  "split_byte c [] = [[]]"
| "split_byte c (d # s) =
     (if d = c then [] # split_byte c s
      else (case split_byte c s of [] \<Rightarrow> [[d]] | w # ws \<Rightarrow> (d # w) # ws))"

text \<open>\<open>strings.FieldsFunc\<close>: the maximal runs of bytes that do not satisfy \<open>P\<close>.\<close>

function fields_func :: "(char \<Rightarrow> bool) \<Rightarrow> string \<Rightarrow> string list" where
  "fields_func P s =
     (case dropWhile P s of
        [] \<Rightarrow> []
      | c # t \<Rightarrow> (c # takeWhile (\<lambda>d. \<not> P d) t) # fields_func P (dropWhile (\<lambda>d. \<not> P d) t))"
  by pat_completeness auto
termination
proof (relation "measure (\<lambda>(P, s). length s)")
  fix P s c t
  assume "dropWhile P s = c # t"
  moreover have "length (dropWhile (\<lambda>d. \<not> P d) t) \<le> length t"
    by (rule length_dropWhile_le)
  moreover have "length (dropWhile P s) \<le> length s"
    by (rule length_dropWhile_le)
  ultimately show "((P, dropWhile (\<lambda>d. \<not> P d) t), (P, s)) \<in> measure (\<lambda>(P, s). length s)"
    by auto
qed simp

declare fields_func.simps [simp del]

definition fields :: "string \<Rightarrow> string list" where
  "fields s = fields_func is_space s"

fun join :: "string \<Rightarrow> string list \<Rightarrow> string" where
  "join sep [] = []"
| "join sep [w] = w"
| "join sep (w # ws) = w @ sep @ join sep ws"

text \<open>\<open>strings.ReplaceAll\<close>; an empty \<open>old\<close> matches before every byte and at the end.\<close>

function replace_nonempty :: "string \<Rightarrow> string \<Rightarrow> string \<Rightarrow> string" where
  "replace_nonempty old new s =
     (if old = [] then s
      else case s of
        [] \<Rightarrow> []
      | c # t \<Rightarrow> (if has_prefix s old then new @ replace_nonempty old new (drop (length old) s)
                  else c # replace_nonempty old new t))"
  by pat_completeness auto
termination
  by (relation "measure (\<lambda>(old, new, s). length s)") auto

declare replace_nonempty.simps [simp del]

definition replace_all :: "string \<Rightarrow> string \<Rightarrow> string \<Rightarrow> string" where
  "replace_all s old new =
     (if old = [] then concat (map (\<lambda>c. new @ [c]) s) @ new
      else replace_nonempty old new s)"

text \<open>Equations for evaluation: each recursion waits for a constructor.\<close>

definition fields_step :: "(char \<Rightarrow> bool) \<Rightarrow> string \<Rightarrow> string list" where
  "fields_step P u =
     (case u of
        [] \<Rightarrow> []
      | c # t \<Rightarrow> (c # takeWhile (\<lambda>d. \<not> P d) t) # fields_func P (dropWhile (\<lambda>d. \<not> P d) t))"

lemma fields_func_code [code]: "fields_func P s = fields_step P (dropWhile P s)"
  by (subst fields_func.simps) (simp add: fields_step_def)

lemma fields_step_code [code]:
  "fields_step P [] = []"
  "fields_step P (c # t) = (c # takeWhile (\<lambda>d. \<not> P d) t) # fields_func P (dropWhile (\<lambda>d. \<not> P d) t)"
  by (simp_all add: fields_step_def)

lemma replace_nonempty_code [code]:
  "replace_nonempty old new [] = []"
  "replace_nonempty old new (c # t) =
     (if old = [] then c # t
      else if has_prefix (c # t) old then new @ replace_nonempty old new (drop (length old) (c # t))
      else c # replace_nonempty old new t)"
  by (simp_all add: replace_nonempty.simps)

section \<open>Numerals\<close>

definition digit_char :: "nat \<Rightarrow> char" where
  "digit_char d = char_of (48 + d)"

fun nat_str :: "nat \<Rightarrow> string" where
  "nat_str n = (if n < 10 then [digit_char n] else nat_str (n div 10) @ [digit_char (n mod 10)])"

declare nat_str.simps [simp del]

definition nat_str_step :: "bool \<Rightarrow> nat \<Rightarrow> string" where
  "nat_str_step small n =
     (if small then [digit_char n] else nat_str (n div 10) @ [digit_char (n mod 10)])"

lemma nat_str_code [code]: "nat_str n = nat_str_step (n < 10) n"
  by (subst nat_str.simps) (simp add: nat_str_step_def)

lemma nat_str_step_code [code]:
  "nat_str_step True n = [digit_char n]"
  "nat_str_step False n = nat_str (n div 10) @ [digit_char (n mod 10)]"
  by (simp_all add: nat_str_step_def)

text \<open>\<open>strconv.Itoa\<close>, also the verb \<open>%d\<close>.\<close>

definition itoa :: "int \<Rightarrow> string" where
  "itoa i = (if i < 0 then CHR ''-'' # nat_str (nat (- i)) else nat_str (nat i))"

definition digit_val :: "char \<Rightarrow> nat" where
  "digit_val c = of_char c - 48"

definition str_nat :: "string \<Rightarrow> nat" where
  "str_nat s = foldl (\<lambda>n c. 10 * n + digit_val c) 0 s"

text \<open>\<open>strconv.Atoi\<close> on a run of digits: an error above the largest 64-bit integer.\<close>

definition atoi_digits :: "string \<Rightarrow> int option" where
  "atoi_digits s =
     (if s \<noteq> [] \<and> list_all is_digit s \<and> int (str_nat s) \<le> 9223372036854775807 then Some (int (str_nat s)) else None)"

section \<open>Facts\<close>

lemma has_prefix_append [simp]: "has_prefix (p @ s) p"
  by (simp add: has_prefix_def)

lemma has_prefix_iff: "has_prefix s p \<longleftrightarrow> (\<exists>t. s = p @ t)"
  unfolding has_prefix_def by (metis append_eq_conv_conj append_take_drop_id)

lemma has_prefix_Nil [simp]: "has_prefix s []"
  by (simp add: has_prefix_def)

lemma trim_left_idem [simp]: "trim_left P (trim_left P s) = trim_left P s"
  by (simp add: trim_left_def)

lemma trim_right_idem [simp]: "trim_right P (trim_right P s) = trim_right P s"
  by (simp add: trim_right_def)

lemma trim_right_prefix: "\<exists>t. s = trim_right P s @ t \<and> list_all P t"
proof -
  have "rev s = takeWhile P (rev s) @ dropWhile P (rev s)" by simp
  then have "s = rev (dropWhile P (rev s)) @ rev (takeWhile P (rev s))"
    by (metis rev_append rev_rev_ident)
  moreover have "list_all P (rev (takeWhile P (rev s)))"
    by (auto simp: list_all_iff dest: set_takeWhileD)
  ultimately show ?thesis unfolding trim_right_def by blast
qed

lemma trim_left_trim_right:
  "trim_left P s = s \<Longrightarrow> trim_left P (trim_right P s) = trim_right P s"
proof -
  assume fixed: "trim_left P s = s"
  obtain t where t: "s = trim_right P s @ t" using trim_right_prefix by blast
  show ?thesis
  proof (cases "trim_right P s")
    case (Cons c u)
    with t have "s = c # u @ t" by simp
    with fixed have "\<not> P c"
      using length_dropWhile_le [of P "u @ t"] by (auto simp: trim_left_def)
    with Cons show ?thesis by (simp add: trim_left_def)
  qed (simp add: trim_left_def)
qed

lemma trim_space_idem [simp]: "trim_space (trim_space s) = trim_space s"
  by (simp add: trim_space_def trim_left_trim_right)

lemma trim_space_Nil [simp]: "trim_space [] = []"
  by (simp add: trim_space_def trim_left_def trim_right_def)

lemma trim_space_id: "s = [] \<or> \<not> is_space (hd s) \<and> \<not> is_space (last s) \<Longrightarrow> trim_space s = s"
proof (cases s rule: rev_cases)
  case (snoc u c)
  assume "s = [] \<or> \<not> is_space (hd s) \<and> \<not> is_space (last s)"
  with snoc show ?thesis
    by (cases u) (auto simp: trim_space_def trim_left_def trim_right_def)
qed simp

lemma trim_space_ends:
  "trim_space s = [] \<or> \<not> is_space (hd (trim_space s)) \<and> \<not> is_space (last (trim_space s))"
proof (cases "trim_space s = []")
  case False
  then have "trim_left is_space (trim_space s) = trim_space s"
    and "trim_right is_space (trim_space s) = trim_space s"
    by (simp_all add: trim_space_def trim_left_trim_right)
  then have "\<not> is_space (hd (trim_space s))" "\<not> is_space (hd (rev (trim_space s)))"
    using False hd_dropWhile [of is_space "trim_space s"] hd_dropWhile [of is_space "rev (trim_space s)"]
    by (auto simp: trim_left_def trim_right_def rev_swap)
  then show ?thesis by (simp add: hd_rev)
qed simp

lemma split_byte_not_Nil [simp]: "split_byte c s \<noteq> []"
  by (induction s) (auto split: list.splits)

lemma split_byte_no_sep: "w \<in> set (split_byte c s) \<Longrightarrow> c \<notin> set w"
  by (induction s arbitrary: w) (auto split: if_splits list.splits)

lemma join_Cons: "ws \<noteq> [] \<Longrightarrow> join sep (w # ws) = w @ sep @ join sep ws"
  by (cases ws) auto

lemma join_split_byte: "join [c] (split_byte c s) = s"
proof (induction s)
  case (Cons d s)
  then show ?case
  proof (cases "d = c")
    case False
    obtain w ws where "split_byte c s = w # ws" by (cases "split_byte c s") auto
    with Cons False show ?thesis by (cases ws) auto
  qed (simp add: join_Cons)
qed simp

lemma split_byte_single: "c \<notin> set w \<Longrightarrow> split_byte c w = [w]"
  by (induction w) auto

lemma split_byte_append: "c \<notin> set w \<Longrightarrow> split_byte c (w @ c # s) = w # split_byte c s"
  by (induction w) auto

lemma split_byte_join:
  "ws \<noteq> [] \<Longrightarrow> \<forall>w \<in> set ws. c \<notin> set w \<Longrightarrow> split_byte c (join [c] ws) = ws"
proof (induction ws rule: induct_list012)
  case (3 w w' ws)
  then show ?case by (simp add: split_byte_append)
qed (auto simp: split_byte_single)

lemma fields_func_Nil: "dropWhile P s = [] \<Longrightarrow> fields_func P s = []"
  by (subst fields_func.simps) (simp only: list.case)

lemma fields_func_Cons: "dropWhile P s = c # t \<Longrightarrow>
  fields_func P s = (c # takeWhile (\<lambda>d. \<not> P d) t) # fields_func P (dropWhile (\<lambda>d. \<not> P d) t)"
  by (simp add: fields_func.simps [of P s])

lemma fields_func_clean: "w \<in> set (fields_func P s) \<Longrightarrow> w \<noteq> [] \<and> (\<forall>c \<in> set w. \<not> P c)"
proof (induction P s rule: fields_func.induct)
  case (1 P s)
  show ?case
  proof (cases "dropWhile P s")
    case Nil
    with "1.prems" show ?thesis by (simp add: fields_func_Nil)
  next
    case (Cons c t)
    then have "\<not> P c" using hd_dropWhile [of P s] by simp
    from "1.prems" Cons consider "w = c # takeWhile (\<lambda>d. \<not> P d) t"
      | "w \<in> set (fields_func P (dropWhile (\<lambda>d. \<not> P d) t))"
      by (auto simp: fields_func_Cons)
    then show ?thesis
    proof cases
      case 1
      with \<open>\<not> P c\<close> show ?thesis by (auto dest: set_takeWhileD)
    next
      case 2
      with "1.IH" [OF Cons] show ?thesis by simp
    qed
  qed
qed

lemma index_byte_Some: "index_byte s c = Some i \<Longrightarrow>
  i < length s \<and> s ! i = c \<and> c \<notin> set (take i s)"
  by (induction s arbitrary: i) (auto split: if_splits)

lemma index_byte_None: "index_byte s c = None \<longleftrightarrow> c \<notin> set s"
  by (induction s) auto

lemma index_byte_append: "c \<notin> set s \<Longrightarrow> index_byte (s @ c # t) c = Some (length s)"
  by (induction s) auto

lemma last_index_byte_append: "c \<notin> set t \<Longrightarrow> last_index_byte (s @ c # t) c = Some (length s)"
  by (simp add: last_index_byte_def index_byte_append)

lemma last_index_byte_None: "last_index_byte s c = None \<longleftrightarrow> c \<notin> set s"
  by (simp add: last_index_byte_def index_byte_None)

lemma digit_val_digit_char [simp]: "d < 10 \<Longrightarrow> digit_val (digit_char d) = d"
  by (simp add: digit_val_def digit_char_def)

lemma is_digit_digit_char [simp]: "d < 10 \<Longrightarrow> is_digit (digit_char d)"
  by (simp add: is_digit_def digit_char_def less_eq_char_def)

lemma str_nat_snoc [simp]: "str_nat (s @ [c]) = 10 * str_nat s + digit_val c"
  by (simp add: str_nat_def)

lemma str_nat_nat_str [simp]: "str_nat (nat_str n) = n"
proof (induction n rule: nat_str.induct)
  case (1 n)
  show ?case
  proof (cases "n < 10")
    case True
    then show ?thesis by (subst nat_str.simps) (simp add: str_nat_def)
  next
    case False
    with 1 show ?thesis by (subst nat_str.simps) simp
  qed
qed

lemma nat_str_inj: "nat_str m = nat_str n \<Longrightarrow> m = n"
  by (metis str_nat_nat_str)

lemma nat_str_digits: "list_all is_digit (nat_str n)"
proof (induction n rule: nat_str.induct)
  case (1 n)
  then show ?case by (subst nat_str.simps) auto
qed

lemma nat_str_not_Nil [simp]: "nat_str n \<noteq> []"
  by (subst nat_str.simps) simp

lemma atoi_nat_str: "n < 2 ^ 63 \<Longrightarrow> atoi_digits (nat_str n) = Some (int n)"
  by (simp add: atoi_digits_def nat_str_digits)

lemma digit_not_underscore: "is_digit c \<Longrightarrow> c \<noteq> CHR ''_''"
  by (auto simp: is_digit_def)

end
