(* ===== verification/GoRegexp.thy ===== *)
theory GoRegexp
  imports GoStrings "HOL-Library.Sublist"
begin

text \<open>
  Go's \<open>regexp\<close> package, as far as the program's patterns need it: leftmost-first
  (Perl-like) matching with submatches. \<open>run r st\<close> lists the ways \<open>r\<close> can match
  from the position \<open>st\<close> in order of preference, so its head is the match the package
  reports. Patterns are values of the datatype \<open>re\<close>; each component spells out its own
  literals. Text is ASCII: a character class stands for one byte.

  The relation \<open>steps\<close> says declaratively when a pattern matches; \<open>run_iff_steps\<close>
  shows that the matcher finds exactly the matches the relation allows.
\<close>

section \<open>Patterns\<close>

text \<open>
  \<open>Cls ci neg rs\<close> is a character class: the union of the ranges \<open>rs\<close>, negated when
  \<open>neg\<close>, compared case-insensitively when \<open>ci\<close>. \<open>Many True r\<close> is the greedy
  \<open>r*\<close>, \<open>Many False r\<close> the lazy \<open>r*?\<close>. \<open>Grp i r\<close> is the \<open>i\<close>-th parenthesised group.
\<close>

datatype re =
    Eps
  | Cls bool bool "(char \<times> char) list"
  | Then re re
  | Alt re re
  | Many bool re
  | Grp nat re
  | Bol
  | Eol
  | WordB

text \<open>A position: the bytes already passed (last first), the rest, the groups closed so far.\<close>

record pos =
  past :: string
  rest :: string
  groups :: "(nat \<times> string) list"

definition in_class :: "bool \<Rightarrow> bool \<Rightarrow> (char \<times> char) list \<Rightarrow> char \<Rightarrow> bool" where
  "in_class ci neg rs c =
     (let inside = (\<lambda>d. list_ex (\<lambda>(lo, hi). lo \<le> d \<and> d \<le> hi) rs);
          hit = inside c \<or> ci \<and> (inside (lower_char c) \<or> inside (upper_char c))
      in hit \<noteq> neg)"

definition at_word_boundary :: "pos \<Rightarrow> bool" where
  "at_word_boundary st =
     ((case past st of [] \<Rightarrow> False | c # _ \<Rightarrow> is_word c)
      \<noteq> (case rest st of [] \<Rightarrow> False | c # _ \<Rightarrow> is_word c))"

section \<open>The matcher\<close>

text \<open>
  Repetition. A round that consumes nothing ends the loop, so the length of the remaining
  text bounds the number of rounds.
\<close>

primrec many :: "bool \<Rightarrow> (pos \<Rightarrow> pos list) \<Rightarrow> nat \<Rightarrow> pos \<Rightarrow> pos list" where
  "many greedy f 0 st = [st]"
| "many greedy f (Suc n) st =
     (let more = concat (map (many greedy f n)
                   (filter (\<lambda>st'. length (rest st') < length (rest st)) (f st)))
      in if greedy then more @ [st] else st # more)"

fun run :: "re \<Rightarrow> pos \<Rightarrow> pos list" where
  "run Eps st = [st]"
| "run (Cls ci neg rs) st =
     (case rest st of
        [] \<Rightarrow> []
      | c # t \<Rightarrow> (if in_class ci neg rs c then [st\<lparr>past := c # past st, rest := t\<rparr>] else []))"
| "run (Then a b) st = concat (map (run b) (run a st))"
| "run (Alt a b) st = run a st @ run b st"
| "run (Many greedy a) st = many greedy (run a) (length (rest st)) st"
| "run (Grp i a) st =
     map (\<lambda>st'. st'\<lparr>groups :=
            AList.update i (take (length (rest st) - length (rest st')) (rest st)) (groups st')\<rparr>)
         (run a st)"
| "run Bol st = (if past st = [] then [st] else [])"
| "run Eol st = (if rest st = [] then [st] else [])"
| "run WordB st = (if at_word_boundary st then [st] else [])"

subsection \<open>Abbreviations for pattern literals\<close>

definition one :: "char \<Rightarrow> re" where
  "one c = Cls False False [(c, c)]"

definition one_ci :: "char \<Rightarrow> re" where
  "one_ci c = Cls True False [(c, c)]"

fun seq :: "re list \<Rightarrow> re" where
  "seq [] = Eps"
| "seq [r] = r"
| "seq (r # rs) = Then r (seq rs)"

fun alts :: "re list \<Rightarrow> re" where
  "alts [] = Cls False False []"
| "alts [r] = r"
| "alts (r # rs) = Alt r (alts rs)"

definition lit :: "string \<Rightarrow> re" where
  "lit s = seq (map one s)"

definition lit_ci :: "string \<Rightarrow> re" where
  "lit_ci s = seq (map one_ci s)"

definition opt :: "re \<Rightarrow> re" where
  "opt r = Alt r Eps"

definition some :: "re \<Rightarrow> re" where
  "some r = Then r (Many True r)"

definition some_lazy :: "re \<Rightarrow> re" where
  "some_lazy r = Then r (Many False r)"

text \<open>\<open>r{n,}\<close> and \<open>r{n}\<close>.\<close>

definition at_least :: "nat \<Rightarrow> re \<Rightarrow> re" where
  "at_least n r = seq (replicate n r @ [Many True r])"

definition exactly :: "nat \<Rightarrow> re \<Rightarrow> re" where
  "exactly n r = seq (replicate n r)"

definition space_cls :: re where
  "space_cls = Cls False False
     [(CHR 0x09, CHR 0x0A), (CHR 0x0C, CHR 0x0D), (CHR 0x20, CHR 0x20)]"

definition digit_cls :: re where
  "digit_cls = Cls False False [(CHR ''0'', CHR ''9'')]"

definition word_cls :: re where
  "word_cls = Cls False False
     [(CHR ''0'', CHR ''9''), (CHR ''A'', CHR ''Z''), (CHR ''_'', CHR ''_''), (CHR ''a'', CHR ''z'')]"

text \<open>The dot: any byte but a newline.\<close>

definition dot :: re where
  "dot = Cls False True [(CHR 0x0A, CHR 0x0A)]"

section \<open>Searching\<close>

definition start_at :: "string \<Rightarrow> string \<Rightarrow> pos" where
  "start_at bef s = \<lparr>past = bef, rest = s, groups = []\<rparr>"

text \<open>
  A match: the text before it, the matched text, the text after it and its groups.
  \<open>search r bef s\<close> tries the positions of \<open>s\<close> from left to right; \<open>bef\<close> is the
  text already passed, last byte first.
\<close>

record found =
  prefix_text :: string
  match_text :: string
  suffix_text :: string
  match_groups :: "(nat \<times> string) list"

fun search :: "re \<Rightarrow> string \<Rightarrow> string \<Rightarrow> found option" where
  "search r bef s =
     (case run r (start_at bef s) of
        st # _ \<Rightarrow> Some \<lparr>prefix_text = rev bef,
                      match_text = take (length s - length (rest st)) s,
                      suffix_text = rest st, match_groups = groups st\<rparr>
      | [] \<Rightarrow> (case s of [] \<Rightarrow> None | c # t \<Rightarrow> search r (c # bef) t))"

declare search.simps [simp del]

lemma search_code [code]:
  "search r bef [] =
     (case run r (start_at bef []) of
        st # _ \<Rightarrow> Some \<lparr>prefix_text = rev bef, match_text = [], suffix_text = rest st,
                       match_groups = groups st\<rparr>
      | [] \<Rightarrow> None)"
  "search r bef (c # t) =
     (case run r (start_at bef (c # t)) of
        st # _ \<Rightarrow> Some \<lparr>prefix_text = rev bef,
                       match_text = take (Suc (length t) - length (rest st)) (c # t),
                       suffix_text = rest st, match_groups = groups st\<rparr>
      | [] \<Rightarrow> search r (c # bef) t)"
  by (simp_all add: search.simps split: list.split)

text \<open>\<open>MatchString\<close> and \<open>FindStringSubmatch\<close>; \<open>submatch\<close> reads group \<open>i\<close>, empty if unset.\<close>

definition match_string :: "re \<Rightarrow> string \<Rightarrow> bool" where
  "match_string r s = (search r [] s \<noteq> None)"

definition find_submatch :: "re \<Rightarrow> string \<Rightarrow> found option" where
  "find_submatch r s = search r [] s"

definition submatch :: "found \<Rightarrow> nat \<Rightarrow> string" where
  "submatch f i = (case map_of (match_groups f) i of None \<Rightarrow> [] | Some w \<Rightarrow> w)"

text \<open>
  \<open>ReplaceAllStringFunc\<close>: every non-overlapping match \<open>w\<close>, from the left, becomes
  \<open>f w\<close>. The patterns replaced in the program match no empty text; an empty match
  is passed over byte by byte.
\<close>

fun replace_matches :: "nat \<Rightarrow> re \<Rightarrow> (string \<Rightarrow> string) \<Rightarrow> string \<Rightarrow> string \<Rightarrow> string" where
  "replace_matches 0 r f bef s = s"
| "replace_matches (Suc n) r f bef s =
     (case run r (start_at bef s) of
        [] \<Rightarrow> (case s of [] \<Rightarrow> [] | c # t \<Rightarrow> c # replace_matches n r f (c # bef) t)
      | st # _ \<Rightarrow>
          (if length (rest st) < length s
           then f (take (length s - length (rest st)) s)
                @ replace_matches n r f (past st) (rest st)
           else (case s of [] \<Rightarrow> [] | c # t \<Rightarrow> c # replace_matches n r f (c # bef) t)))"

definition replace_all_func :: "re \<Rightarrow> (string \<Rightarrow> string) \<Rightarrow> string \<Rightarrow> string" where
  "replace_all_func r f s = replace_matches (length s) r f [] s"

definition replace_all_string :: "re \<Rightarrow> string \<Rightarrow> string \<Rightarrow> string" where
  "replace_all_string r by s = replace_all_func r (\<lambda>_. by) s"

text \<open>\<open>FindAllString\<close> with no limit.\<close>

fun find_from :: "nat \<Rightarrow> re \<Rightarrow> string \<Rightarrow> string \<Rightarrow> string list" where
  "find_from 0 r bef s = []"
| "find_from (Suc n) r bef s =
     (case run r (start_at bef s) of
        [] \<Rightarrow> (case s of [] \<Rightarrow> [] | c # t \<Rightarrow> find_from n r (c # bef) t)
      | st # _ \<Rightarrow>
          (if length (rest st) < length s
           then take (length s - length (rest st)) s # find_from n r (past st) (rest st)
           else (case s of [] \<Rightarrow> [] | c # t \<Rightarrow> find_from n r (c # bef) t)))"

definition find_all :: "re \<Rightarrow> string \<Rightarrow> string list" where
  "find_all r s = find_from (length s) r [] s"

text \<open>\<open>Split\<close> with no limit: the texts between the matches; \<open>cur\<close> is the piece so far, reversed.\<close>

fun split_from :: "nat \<Rightarrow> re \<Rightarrow> string \<Rightarrow> string \<Rightarrow> string \<Rightarrow> string list" where
  "split_from 0 r bef cur s = [rev cur @ s]"
| "split_from (Suc n) r bef cur s =
     (case run r (start_at bef s) of
        [] \<Rightarrow> (case s of [] \<Rightarrow> [rev cur] | c # t \<Rightarrow> split_from n r (c # bef) (c # cur) t)
      | st # _ \<Rightarrow>
          (if length (rest st) < length s then rev cur # split_from n r (past st) [] (rest st)
           else (case s of [] \<Rightarrow> [rev cur] | c # t \<Rightarrow> split_from n r (c # bef) (c # cur) t)))"

definition regexp_split :: "re \<Rightarrow> string \<Rightarrow> string list" where
  "regexp_split r s = split_from (Suc (length s)) r [] [] s"

section \<open>The declarative matching relation\<close>

inductive steps :: "re \<Rightarrow> pos \<Rightarrow> pos \<Rightarrow> bool" where
  eps: "steps Eps st st"
| cls: "rest st = c # t \<Longrightarrow> in_class ci neg rs c \<Longrightarrow>
     steps (Cls ci neg rs) st (st\<lparr>past := c # past st, rest := t\<rparr>)"
| then_: "steps a st st1 \<Longrightarrow> steps b st1 st2 \<Longrightarrow> steps (Then a b) st st2"
| alt1: "steps a st st' \<Longrightarrow> steps (Alt a b) st st'"
| alt2: "steps b st st' \<Longrightarrow> steps (Alt a b) st st'"
| many0: "steps (Many g a) st st"
| many1: "steps a st st1 \<Longrightarrow> length (rest st1) < length (rest st) \<Longrightarrow>
     steps (Many g a) st1 st2 \<Longrightarrow> steps (Many g a) st st2"
| grp: "steps a st st' \<Longrightarrow>
     steps (Grp i a) st (st'\<lparr>groups :=
       AList.update i (take (length (rest st) - length (rest st')) (rest st)) (groups st')\<rparr>)"
| bol: "past st = [] \<Longrightarrow> steps Bol st st"
| eol: "rest st = [] \<Longrightarrow> steps Eol st st"
| wordb: "at_word_boundary st \<Longrightarrow> steps WordB st st"

inductive_cases steps_EpsE [elim!]: "steps Eps st st'"
inductive_cases steps_ClsE [elim!]: "steps (Cls ci neg rs) st st'"
inductive_cases steps_ThenE [elim!]: "steps (Then a b) st st'"
inductive_cases steps_AltE [elim!]: "steps (Alt a b) st st'"
inductive_cases steps_GrpE [elim!]: "steps (Grp i a) st st'"
inductive_cases steps_BolE [elim!]: "steps Bol st st'"
inductive_cases steps_EolE [elim!]: "steps Eol st st'"
inductive_cases steps_WordBE [elim!]: "steps WordB st st'"

lemma many_sound:
  assumes "\<And>u v. v \<in> set (f u) \<Longrightarrow> steps a u v"
  shows "st' \<in> set (many g f n st) \<Longrightarrow> steps (Many g a) st st'"
  by (induction n arbitrary: st) (auto simp: Let_def split: if_splits intro: steps.intros assms)

lemma many_complete:
  assumes "\<And>u v. steps a u v \<Longrightarrow> v \<in> set (f u)"
  shows "steps (Many g a) st st' \<Longrightarrow> length (rest st) \<le> n \<Longrightarrow> st' \<in> set (many g f n st)"
proof (induction "Many g a" st st' arbitrary: n rule: steps.induct)
  case (many0 st)
  then show ?case by (cases n) (auto simp: Let_def)
next
  case (many1 st st1 st2)
  then obtain m where m: "n = Suc m" by (cases n) auto
  with many1 have "st2 \<in> set (many g f m st1)" by simp
  moreover have "st1 \<in> set (f st)" using many1.hyps(1) by (rule assms)
  ultimately show ?case using m many1.hyps(3) by (auto simp: Let_def)
qed

lemma run_iff_steps: "st' \<in> set (run r st) \<longleftrightarrow> steps r st st'"
proof (induction r arbitrary: st st')
  case (Cls ci neg rs)
  then show ?case by (auto intro: steps.cls split: list.splits if_splits)
next
  case (Many g r)
  show ?case
    using many_sound [of "run r" r] many_complete [of r "run r"] Many.IH by auto
qed (auto intro: steps.intros)

lemma steps_consumes: "steps r st st' \<Longrightarrow>
  \<exists>w. rest st = w @ rest st' \<and> past st' = rev w @ past st"
  by (induction rule: steps.induct) auto

lemma run_consumes:
  assumes "st' \<in> set (run r st)"
  shows "rest st = take (length (rest st) - length (rest st')) (rest st) @ rest st'"
    and "length (rest st') \<le> length (rest st)"
  using steps_consumes assms by (force simp: run_iff_steps)+

lemma search_hit: "run r (start_at bef s) = st # sts \<Longrightarrow>
  search r bef s = Some \<lparr>prefix_text = rev bef,
    match_text = take (length s - length (rest st)) s, suffix_text = rest st,
    match_groups = groups st\<rparr>"
  by (subst search.simps) simp

lemma search_end: "run r (start_at bef []) = [] \<Longrightarrow> search r bef [] = None"
  by (subst search.simps) simp

lemma search_skip: "run r (start_at bef (c # t)) = [] \<Longrightarrow>
  search r bef (c # t) = search r (c # bef) t"
  by (subst search.simps) simp

text \<open>The three parts of a match put together are the text that was searched.\<close>

lemma search_split:
  "search r bef s = Some f \<Longrightarrow> prefix_text f @ match_text f @ suffix_text f = rev bef @ s"
proof (induction r bef s rule: search.induct)
  case (1 r bef s)
  show ?case
  proof (cases "run r (start_at bef s)")
    case Nil
    with "1.prems" obtain c t where "s = c # t"
      by (cases s) (auto simp: search_end)
    with Nil "1.prems" "1.IH" show ?thesis by (simp add: search_skip)
  next
    case (Cons st sts)
    then have "st \<in> set (run r (start_at bef s))" by simp
    from run_consumes(1) [OF this] search_hit [OF Cons] "1.prems" show ?thesis
      by (auto simp: start_at_def)
  qed
qed

lemma match_string_iff:
  "match_string r s \<longleftrightarrow> (\<exists>w t st'. s = w @ t \<and> steps r (start_at (rev w) t) st')"
proof -
  have "search r bef s \<noteq> None \<longleftrightarrow>
      (\<exists>w t st'. s = w @ t \<and> steps r (start_at (rev w @ bef) t) st')" for bef
  proof (induction r bef s rule: search.induct)
    case (1 r bef s)
    show ?case
    proof (cases "run r (start_at bef s)")
      case (Cons st sts)
      then have "steps r (start_at bef s) st" by (simp flip: run_iff_steps)
      then have "\<exists>w t st'. s = w @ t \<and> steps r (start_at (rev w @ bef) t) st'"
        by (metis append_Nil rev.simps(1))
      with search_hit [OF Cons] show ?thesis by simp
    next
      case Nil
      then have none: "\<not> steps r (start_at bef s) st'" for st'
        by (simp flip: run_iff_steps)
      show ?thesis
      proof (cases s)
        case s: Nil
        with Nil none show ?thesis by (simp add: search_end)
      next
        case s: (Cons c t)
        from Nil s have "search r bef s = search r (c # bef) t"
          by (simp add: search_skip)
        also have "\<dots> \<noteq> None \<longleftrightarrow>
            (\<exists>w u st'. t = w @ u \<and> steps r (start_at (rev w @ c # bef) u) st')"
          using "1.IH" Nil s by simp
        also have "\<dots> \<longleftrightarrow> (\<exists>w u st'. s = w @ u \<and> steps r (start_at (rev w @ bef) u) st')"
          (is "?L \<longleftrightarrow> ?R")
        proof
          assume ?L
          then obtain w u st' where "t = w @ u" "steps r (start_at (rev w @ c # bef) u) st'" by blast
          with s show ?R by (intro exI [of _ "c # w"] exI [of _ u] exI [of _ st']) simp
        next
          assume ?R
          then obtain w u st' where w: "s = w @ u" "steps r (start_at (rev w @ bef) u) st'" by blast
          with none have "w \<noteq> []" by auto
          with w s obtain w' where "w = c # w'" by (cases w) auto
          with w s show ?L by auto
        qed
        finally show ?thesis .
      qed
    qed
  qed
  from this [of "[]"] show ?thesis by (simp add: match_string_def)
qed

lemma match_string_start: "steps r (start_at [] s) st' \<Longrightarrow> match_string r s"
  unfolding match_string_iff by (metis append_Nil rev.simps(1))

lemma steps_many_class: "steps (Many g (Cls ci neg rs)) st st' \<longleftrightarrow>
  (\<exists>w t. rest st = w @ t \<and> list_all (in_class ci neg rs) w \<and>
         st' = st\<lparr>past := rev w @ past st, rest := t\<rparr>)" (is "?L \<longleftrightarrow> ?R")
proof
  show "?L \<Longrightarrow> ?R"
  proof (induction "Many g (Cls ci neg rs)" st st' rule: steps.induct)
    case (many0 st)
    then show ?case by (intro exI [of _ "[]"] exI [of _ "rest st"]) simp
  next
    case (many1 st st1 st2)
    from many1.hyps(1) obtain c u where c: "rest st = c # u" "in_class ci neg rs c"
      "st1 = st\<lparr>past := c # past st, rest := u\<rparr>" by auto
    from many1.hyps(4) obtain w t where w: "rest st1 = w @ t" "list_all (in_class ci neg rs) w"
      "st2 = st1\<lparr>past := rev w @ past st1, rest := t\<rparr>" by blast
    from c w show ?case by (intro exI [of _ "c # w"] exI [of _ t]) simp
  qed
next
  assume ?R
  then obtain w t where "rest st = w @ t" "list_all (in_class ci neg rs) w"
    "st' = st\<lparr>past := rev w @ past st, rest := t\<rparr>" by blast
  then show ?L
  proof (induction w arbitrary: st)
    case Nil
    then have "st' = st" by (cases st) simp
    then show ?case by (simp add: steps.many0)
  next
    case (Cons c w)
    let ?st1 = "st\<lparr>past := c # past st, rest := w @ t\<rparr>"
    have rst: "rest st = c # (w @ t)" "in_class ci neg rs c" using Cons.prems(1,2) by simp_all
    then have one: "steps (Cls ci neg rs) st ?st1" by (rule steps.cls)
    have more: "steps (Many g (Cls ci neg rs)) ?st1 st'"
      by (rule Cons.IH) (use Cons.prems in simp_all)
    have "length (rest ?st1) < length (rest st)" using rst(1) by simp
    from steps.many1 [OF one this more] show ?case .
  qed
qed

section \<open>A match taken out of its text\<close>

text \<open>
  The code often matches a pattern again on the text of a match. For patterns without
  anchors and word boundaries the second search finds all of it, with the same groups:
  in front of the text \<open>t\<close> that follows, the runs are those of the piece alone, in the same
  order, but for the runs that would reach into \<open>t\<close>.
\<close>

fun anchor_free :: "re \<Rightarrow> bool" where
  "anchor_free (Then a b) = (anchor_free a \<and> anchor_free b)"
| "anchor_free (Alt a b) = (anchor_free a \<and> anchor_free b)"
| "anchor_free (Many g a) = anchor_free a"
| "anchor_free (Grp i a) = anchor_free a"
| "anchor_free Bol = False"
| "anchor_free Eol = False"
| "anchor_free WordB = False"
| "anchor_free _ = True"

definition alone :: "string \<Rightarrow> pos \<Rightarrow> pos \<Rightarrow> bool" where
  "alone t st' st \<longleftrightarrow> rest st = rest st' @ t \<and> groups st = groups st'"

abbreviation before_text :: "string \<Rightarrow> pos \<Rightarrow> bool" where
  "before_text t st \<equiv> length t \<le> length (rest st)"

lemma run_shortens: "st' \<in> set (run r st) \<Longrightarrow> length (rest st') \<le> length (rest st)"
  using run_consumes(2) by blast

lemma many_shortens:
  assumes "\<And>u v. v \<in> set (f u) \<Longrightarrow> length (rest v) \<le> length (rest u)"
  shows "st' \<in> set (many g f n st) \<Longrightarrow> length (rest st') \<le> length (rest st)"
proof (induction n arbitrary: st)
  case (Suc n)
  then show ?case by (auto simp: Let_def split: if_splits) fastforce+
qed simp

lemma alone_concat_map:
  assumes "list_all2 (alone t) xs (filter (before_text t) zs)"
    and "\<And>x z. alone t x z \<Longrightarrow> x \<in> set xs \<Longrightarrow> z \<in> set zs \<Longrightarrow> list_all2 (alone t) (f x) (filter (before_text t) (g z))"
    and "\<And>z z'. z \<in> set zs \<Longrightarrow> \<not> before_text t z \<Longrightarrow> z' \<in> set (g z) \<Longrightarrow> \<not> before_text t z'"
  shows "list_all2 (alone t) (concat (map f xs)) (filter (before_text t) (concat (map g zs)))"
proof -
  have "filter (before_text t) (concat (map g zs)) = filter (before_text t) (concat (map g (filter (before_text t) zs)))"
    using assms(3)
  proof (induction zs)
    case (Cons a zs)
    then have "filter (before_text t) (concat (map g zs)) =
        filter (before_text t) (concat (map g (filter (before_text t) zs)))" by (meson list.set_intros(2))
    moreover have "filter (before_text t) (g a) = []" if "\<not> before_text t a"
      using Cons.prems [of a] that by (auto simp: filter_empty_conv)
    ultimately show ?case by simp
  qed simp
  also have "\<dots> = concat (map (\<lambda>z. filter (before_text t) (g z)) (filter (before_text t) zs))"
    by (simp add: filter_concat comp_def)
  finally have eq: "filter (before_text t) (concat (map g zs)) =
      concat (map (\<lambda>z. filter (before_text t) (g z)) (filter (before_text t) zs))" .
  have "list_all2 (alone t) (concat (map f xs)) (concat (map (\<lambda>z. filter (before_text t) (g z)) ys))"
    if "list_all2 (alone t) xs ys" "set ys \<subseteq> set zs" for ys
    using that assms(2)
  proof (induction xs ys rule: list_all2_induct)
    case (Cons x xs y ys)
    then show ?case by (simp add: list_all2_appendI)
  qed simp
  from this [OF assms(1)] show ?thesis unfolding eq by auto
qed

lemma alone_many:
  assumes step: "\<And>u' u. alone t u' u \<Longrightarrow> list_all2 (alone t) (f u') (filter (before_text t) (f u))"
    and short: "\<And>u v. v \<in> set (f u) \<Longrightarrow> length (rest v) \<le> length (rest u)"
  shows "alone t st' st \<Longrightarrow> length (rest st') \<le> n' \<Longrightarrow> length (rest st) \<le> n \<Longrightarrow>
    list_all2 (alone t) (many g f n' st') (filter (before_text t) (many g f n st))"
proof (induction n' arbitrary: n st' st)
  case 0
  then have t: "rest st = t" "rest st' = []" by (auto simp: alone_def)
  show ?case
  proof (cases n)
    case 0
    with t \<open>alone t st' st\<close> show ?thesis by simp
  next
    case (Suc m)
    have "\<not> before_text t z" if "u \<in> set (f st)" "length (rest u) < length (rest st)" "z \<in> set (many g f m u)" for u z
      using many_shortens [OF short that(3)] that(2) t by simp
    then have "filter (before_text t) (concat (map (many g f m) (filter (\<lambda>u. length (rest u) < length (rest st)) (f st)))) = []"
      by (auto simp: filter_empty_conv)
    with Suc \<open>alone t st' st\<close> t show ?thesis by (auto simp: Let_def)
  qed
next
  case (Suc m')
  note al = \<open>alone t st' st\<close>
  show ?case
  proof (cases n)
    case 0
    with Suc.prems have "rest st = []" "rest st' = []" "t = []" by (auto simp: alone_def)
    with 0 al show ?thesis by (simp add: Let_def)
  next
    case (Suc m)
    let ?xs = "filter (\<lambda>u. length (rest u) < length (rest st')) (f st')"
      and ?zs = "filter (\<lambda>u. length (rest u) < length (rest st)) (f st)"
    have "list_all2 (alone t) ?xs (filter (before_text t) ?zs)"
    proof -
      have "list_all2 (alone t) (filter (\<lambda>u. length (rest u) < length (rest st')) us)
          (filter (\<lambda>u. length (rest u) < length (rest st)) vs)" if "list_all2 (alone t) us vs" for us vs
        using that al by (induction us vs rule: list_all2_induct) (auto simp: alone_def)
      from this [OF step [OF al]] show ?thesis by (simp add: conj_commute)
    qed
    then have "list_all2 (alone t) (concat (map (many g f m') ?xs)) (filter (before_text t) (concat (map (many g f m) ?zs)))"
    proof (rule alone_concat_map)
      fix x z assume "alone t x z" "x \<in> set ?xs" "z \<in> set ?zs"
      then show "list_all2 (alone t) (many g f m' x) (filter (before_text t) (many g f m z))"
        using Suc.prems(2,3) Suc by (intro Suc.IH) auto
    next
      fix z z' assume "\<not> before_text t z" "z' \<in> set (many g f m z)"
      then show "\<not> before_text t z'" using many_shortens [OF short] by (meson le_trans)
    qed
    moreover have "before_text t st" using al by (simp add: alone_def)
    ultimately show ?thesis using Suc al by (cases g) (simp_all add: Let_def list_all2_appendI)
  qed
qed

lemma run_alone: "anchor_free r \<Longrightarrow> alone t st' st \<Longrightarrow> list_all2 (alone t) (run r st') (filter (before_text t) (run r st))"
proof (induction r arbitrary: st' st)
  case (Cls ci neg rs)
  then show ?case by (auto simp: alone_def split: list.splits)
next
  case (Then a b)
  then show ?case
    by (auto intro!: alone_concat_map dest: run_shortens)
next
  case (Alt a b)
  then show ?case by (auto intro: list_all2_appendI)
next
  case (Many g a)
  then show ?case using alone_many [of t "run a" st' st "length (rest st')" "length (rest st)" g] run_shortens by simp
next
  case (Grp i a)
  let ?g = "\<lambda>st u. u\<lparr>groups := AList.update i (take (length (rest st) - length (rest u)) (rest st)) (groups u)\<rparr>"
  have "list_all2 (alone t) (map (?g st') us) (map (?g st) vs)"
    if "list_all2 (alone t) us vs" for us vs
    using that Grp.prems(2) by (induction us vs rule: list_all2_induct) (auto simp: alone_def)
  from this [OF Grp.IH] Grp.prems show ?case by (simp add: filter_map comp_def)
qed (auto simp: alone_def)

text \<open>So the search on the text of a match returns the match.\<close>

lemma match_again:
  assumes "anchor_free r" "run r (start_at bef s) = st # sts"
  defines "w \<equiv> take (length s - length (rest st)) s"
  shows "find_submatch r w = Some \<lparr>prefix_text = [], match_text = w, suffix_text = [], match_groups = groups st\<rparr>"
proof -
  have "st \<in> set (run r (start_at bef s))" using assms(2) by simp
  from run_consumes [OF this] have s: "s = w @ rest st" "length (rest st) \<le> length s"
    by (simp_all add: start_at_def w_def)
  then have "alone (rest st) (start_at [] w) (start_at bef s)" by (simp add: alone_def start_at_def)
  from run_alone [OF assms(1) this] assms(2) obtain st' sts' where
    "run r (start_at [] w) = st' # sts'" "alone (rest st) st' st"
    by (cases "run r (start_at [] w)") auto
  then show ?thesis using search_hit [of r "[]" w st' sts'] by (simp add: find_submatch_def alone_def)
qed

section \<open>Groups of a match\<close>

fun group_free :: "re \<Rightarrow> bool" where
  "group_free (Then a b) = (group_free a \<and> group_free b)"
| "group_free (Alt a b) = (group_free a \<and> group_free b)"
| "group_free (Many g a) = group_free a"
| "group_free (Grp i a) = False"
| "group_free _ = True"

lemma steps_group_free: "steps r st st' \<Longrightarrow> group_free r \<Longrightarrow> groups st' = groups st"
  by (induction rule: steps.induct) auto

lemma search_found:
  "search r bef s = Some f \<Longrightarrow> \<exists>b t st sts. run r (start_at b t) = st # sts \<and>
     match_text f = take (length t - length (rest st)) t \<and> match_groups f = groups st"
proof (induction r bef s rule: search.induct)
  case (1 r bef s)
  show ?case
  proof (cases "run r (start_at bef s)")
    case Nil
    with "1.prems" obtain c t where s: "s = c # t" by (cases s) (auto simp: search_end)
    with Nil "1.prems" "1.IH" [OF Nil s] show ?thesis by (simp add: search_skip)
  next
    case (Cons st sts)
    from search_hit [OF Cons] "1.prems" show ?thesis
      by (intro exI [of _ bef] exI [of _ s] exI [of _ st] exI [of _ sts]) (auto simp: Cons)
  qed
qed

lemma submatch_whole:
  assumes "run (Grp i a) (start_at b t) = st # sts"
  shows "map_of (groups st) i = Some (take (length t - length (rest st)) t)"
proof -
  have "st \<in> set (run (Grp i a) (start_at b t))" by (simp only: assms list.set_intros)
  then show ?thesis by (auto simp: start_at_def update_conv)
qed

lemma submatch_pair:
  assumes "run (Then (Grp i a) (Grp j b)) (start_at bef t) = st # sts" "group_free b" "i \<noteq> j"
  shows "\<exists>u v. take (length t - length (rest st)) t = u @ v \<and>
    map_of (groups st) i = Some u \<and> map_of (groups st) j = Some v"
proof -
  have "st \<in> set (run (Then (Grp i a) (Grp j b)) (start_at bef t))" by (simp only: assms list.set_intros)
  then have "steps (Then (Grp i a) (Grp j b)) (start_at bef t) st" by (simp only: run_iff_steps)
  then obtain m st' where m: "steps a (start_at bef t) m"
    and st': "steps b (m\<lparr>groups := AList.update i (take (length t - length (rest m)) t) (groups m)\<rparr>) st'"
    and st: "st = st'\<lparr>groups := AList.update j (take (length (rest m) - length (rest st')) (rest m)) (groups st')\<rparr>"
    by (auto simp: start_at_def)
  from steps_group_free [OF st' assms(2)] have g: "groups st' = AList.update i (take (length t - length (rest m)) t) (groups m)"
    by simp
  from steps_consumes [OF m] obtain u where u: "t = u @ rest m" by (auto simp: start_at_def)
  from steps_consumes [OF st'] obtain v where v: "rest m = v @ rest st'" by auto
  have t: "t = u @ v @ rest st'" using u v by simp
  show ?thesis using u v st g assms(3) t by (intro exI [of _ u] exI [of _ v]) (simp add: update_conv)
qed

section \<open>Replacing\<close>

lemma replace_matches_none:
  "(\<And>w t. s = w @ t \<Longrightarrow> run r (start_at (rev w @ bef) t) = []) \<Longrightarrow> replace_matches n r f bef s = s"
proof (induction n arbitrary: bef s)
  case (Suc n)
  have "run r (start_at bef s) = []" using Suc.prems [of "[]" s] by simp
  moreover have "replace_matches n r f (c # bef) t = t" if "s = c # t" for c t
    by (rule Suc.IH) (use Suc.prems [of "c # _"] that in simp)
  ultimately show ?case by (auto split: list.split)
qed simp

lemma replace_all_none: "\<not> match_string r s \<Longrightarrow> replace_all_func r f s = s"
  unfolding replace_all_func_def
proof (rule replace_matches_none)
  fix w t assume "\<not> match_string r s" "s = w @ t"
  then have "\<not> steps r (start_at (rev w) t) st'" for st' by (auto simp: match_string_iff)
  then have "st' \<notin> set (run r (start_at (rev w) t))" for st' by (simp add: run_iff_steps)
  then show "run r (start_at (rev w @ []) t) = []" by (metis append_Nil2 last_in_set)
qed

lemma replace_matches_keeps:
  assumes "\<And>bef t st sts. run r (start_at bef t) = st # sts \<Longrightarrow>
    subseq (take (length t - length (rest st)) t) (f (take (length t - length (rest st)) t))"
  shows "subseq s (replace_matches n r f bef s)"
proof (induction n arbitrary: bef s)
  case (Suc n)
  show ?case
  proof (cases "run r (start_at bef s)")
    case Nil
    then show ?thesis using Suc.IH by (cases s) simp_all
  next
    case (Cons st sts)
    then have "st \<in> set (run r (start_at bef s))" by simp
    from run_consumes(1) [OF this] have "s = take (length s - length (rest st)) s @ rest st"
      by (simp add: start_at_def)
    moreover have "subseq (take (length s - length (rest st)) s @ rest st)
      (f (take (length s - length (rest st)) s) @ replace_matches n r f (past st) (rest st))"
      by (rule list_emb_append_mono [OF assms [OF Cons] Suc.IH])
    ultimately show ?thesis using Cons Suc.IH by (cases s) simp_all
  qed
qed simp

section \<open>Greedy classes\<close>

text \<open>
  A repeated class takes all it can first. Where what follows cannot begin with a byte of the
  class, the longest run is the only one that goes on.
\<close>

definition advance :: "nat \<Rightarrow> pos \<Rightarrow> pos" where
  "advance n st = st\<lparr>past := rev (take n (rest st)) @ past st, rest := drop n (rest st)\<rparr>"

lemma advance_0 [simp]: "advance 0 st = st"
  by (simp add: advance_def)

lemma many_class_run:
  "rest st = w @ v \<Longrightarrow> list_all (in_class ci neg rs) w \<Longrightarrow> v = [] \<or> \<not> in_class ci neg rs (hd v) \<Longrightarrow>
   length (rest st) \<le> n \<Longrightarrow>
   many True (run (Cls ci neg rs)) n st = map (\<lambda>i. advance i st) (rev [0..<Suc (length w)])"
proof (induction w arbitrary: st n)
  case Nil
  then have "run (Cls ci neg rs) st = []" by (cases v) auto
  then show ?case by (cases n) (simp_all add: Let_def del: run.simps)
next
  case (Cons c w)
  then obtain m where n: "n = Suc m" by (cases n) auto
  let ?st = "st\<lparr>past := c # past st, rest := w @ v\<rparr>"
  have "many True (run (Cls ci neg rs)) m ?st = map (\<lambda>i. advance i ?st) (rev [0..<Suc (length w)])"
    using Cons.prems n by (intro Cons.IH) auto
  moreover have "advance i ?st = advance (Suc i) st" for i using Cons.prems(1) by (simp add: advance_def)
  moreover have "run (Cls ci neg rs) st = [?st]" using Cons.prems by simp
  moreover have "length (rest ?st) < length (rest st)" using Cons.prems(1) by simp
  ultimately have "many True (run (Cls ci neg rs)) n st =
      map (\<lambda>i. advance (Suc i) st) (rev [0..<Suc (length w)]) @ [st]"
    by (simp add: n Let_def del: run.simps upt_Suc)
  moreover have "[0..<Suc (length (c # w))] = 0 # map Suc [0..<Suc (length w)]"
    by (simp add: map_Suc_upt upt_conv_Cons del: upt_Suc)
  then have "rev [0..<Suc (length (c # w))] = map Suc (rev [0..<Suc (length w)]) @ [0]"
    by (simp only: rev.simps rev_map)
  ultimately show ?case by (simp only: map_append list.map map_map comp_def advance_0)
qed

lemma concat_map_first: "list_all (\<lambda>x. f x = []) xs \<Longrightarrow> concat (map f (y # xs)) = f y"
  by (simp add: list_all_iff)

lemma run_greedy_group:
  assumes st: "rest st = w @ v" "w \<noteq> []" "list_all (in_class ci neg rs) w" "v = [] \<or> \<not> in_class ci neg rs (hd v)"
    and stuck: "\<And>u. rest u \<noteq> [] \<Longrightarrow> in_class ci neg rs (hd (rest u)) \<Longrightarrow> run k u = []"
  shows "run (Then (Grp i (some (Cls ci neg rs))) k) st =
    run k (st\<lparr>past := rev w @ past st, rest := v, groups := AList.update i w (groups st)\<rparr>)"
proof -
  from st(2) obtain c x where w: "w = c # x" by (cases w) auto
  let ?st = "st\<lparr>past := c # past st, rest := x @ v\<rparr>"
  let ?g = "\<lambda>u. u\<lparr>groups := AList.update i (take (length (rest st) - length (rest u)) (rest st)) (groups u)\<rparr>"
  have "run (some (Cls ci neg rs)) st = map (\<lambda>i. advance i ?st) (rev [0..<Suc (length x)])"
    using st many_class_run [of ?st x v ci neg rs "length (x @ v)"] by (simp add: some_def w)
  also have "\<dots> = advance (length x) ?st # map (\<lambda>i. advance i ?st) (rev [0..<length x])" by simp
  finally have "run (Then (Grp i (some (Cls ci neg rs))) k) st =
      concat (map (run k) (?g (advance (length x) ?st) # map (\<lambda>i. ?g (advance i ?st)) (rev [0..<length x])))"
    by (simp add: comp_def)
  also have "\<dots> = run k (?g (advance (length x) ?st))"
  proof (rule concat_map_first)
    have "run k (?g (advance j ?st)) = []" if "j < length x" for j
    proof (rule stuck)
      have "rest (advance j ?st) = drop j x @ v" using that by (simp add: advance_def)
      moreover have "in_class ci neg rs (x ! j)" using st(3) that by (simp add: w list_all_iff)
      ultimately show "rest (?g (advance j ?st)) \<noteq> []" "in_class ci neg rs (hd (rest (?g (advance j ?st))))"
        using that by (simp_all add: hd_append hd_drop_conv_nth)
    qed
    then show "list_all (\<lambda>u. run k u = []) (map (\<lambda>i. ?g (advance i ?st)) (rev [0..<length x]))"
      by (simp add: list_all_iff)
  qed
  finally show ?thesis by (simp add: advance_def w st(1))
qed

lemma run_one: "run (one c) st = (case rest st of [] \<Rightarrow> [] | d # t \<Rightarrow> if d = c then [st\<lparr>past := c # past st, rest := t\<rparr>] else [])"
  by (auto simp: one_def in_class_def split: list.split)

lemma run_Then_assoc: "run (Then (Then a b) c) st = run (Then a (Then b c)) st"
proof -
  have "concat (map (run c) (concat (map (run b) us))) = concat (map (\<lambda>u. concat (map (run c) (run b u))) us)" for us
    by (induction us) simp_all
  from this [of "run a st"] show ?thesis by (simp add: comp_def cong: map_cong)
qed

lemma run_opt_Then: "run (Then (opt a) k) st = run (Then a k) st @ run k st"
  by (simp add: opt_def)

end
