(* ===== verification/GraphModel.thy ===== *)
theory GraphModel
  imports GoRegexp "HOL-Library.Word"
begin

text \<open>
  \<open>internal/models\<close> and \<open>internal/graph/repository.go\<close>: nodes, edges, the repository
  interface every service talks to, and the checks shared by its implementations. The Go
  interface \<open>GraphRepository\<close> is a dictionary of operations over a repository state
  \<open>'r\<close>; an implementation is a value of that record type. A service is a function of the
  dictionary, so the same definitions run on every implementation.

  The clock and the id generator are the environment: an operation takes the formatted time
  it reads (one reading per operation), and a repository holds its supply of fresh ids.
\<close>

section \<open>Nodes and edges\<close>

record node =
  node_id :: string
  node_kind :: string
  node_props :: props

text \<open>The property map of an edge can be nil (None), which \<open>DeepEqual\<close> tells from empty.\<close>

record edge =
  edge_id :: string
  edge_kind :: string
  edge_from :: string
  edge_to :: string
  edge_props :: "props option"

datatype direction = DirOut | DirIn | DirBoth | DirOther string

datatype knowledge_state = Fact | Observation | Inference | Hypothesis | Confirmed

definition state_name :: "knowledge_state \<Rightarrow> string" where
  "state_name s =
     (case s of Fact \<Rightarrow> ''FACT'' | Observation \<Rightarrow> ''OBSERVATION'' | Inference \<Rightarrow> ''INFERENCE''
      | Hypothesis \<Rightarrow> ''HYPOTHESIS'' | Confirmed \<Rightarrow> ''CONFIRMED'')"

text \<open>\<open>SetProperty\<close> writes the key and stamps \<open>updated_at\<close>.\<close>

definition set_property :: "string \<Rightarrow> string \<Rightarrow> val \<Rightarrow> node \<Rightarrow> node" where
  "set_property now key v n =
     n\<lparr>node_props := put ''updated_at'' (VStr now) (put key v (node_props n))\<rparr>"

text \<open>\<open>NewNode\<close>: the type assertion on the id panics when it is not a string.\<close>

definition new_node :: "string \<Rightarrow> string \<Rightarrow> string \<Rightarrow> props \<Rightarrow> props \<Rightarrow> node res" where
  "new_node now fresh kind identity properties =
     (let ps = put_all properties (put_all identity []);
          ps = (if has_key ps ''id'' then ps else put ''id'' (VStr fresh) ps);
          ps = put ''created_at'' (VStr now) ps;
          ps = put ''updated_at'' (VStr now) ps;
          ps = (if has_key ps ''project_id'' then ps
                else put ''project_id'' (pget identity ''project_id'') ps)
      in case pget ps ''id'' of
           VStr i \<Rightarrow> Inr \<lparr>node_id = i, node_kind = kind, node_props = ps\<rparr>
         | _ \<Rightarrow> Inl (Panic ''interface conversion: interface is not string''))"

text \<open>\<open>NewEdge\<close>: nil properties become an empty map.\<close>

definition new_edge :: "string \<Rightarrow> string \<Rightarrow> string \<Rightarrow> string \<Rightarrow> props option \<Rightarrow> edge" where
  "new_edge fresh kind from to properties =
     \<lparr>edge_id = fresh, edge_kind = kind, edge_from = from, edge_to = to,
      edge_props = (case properties of None \<Rightarrow> Some [] | Some m \<Rightarrow> Some m)\<rparr>"

section \<open>The repository interface\<close>

text \<open>\<open>^[A-Za-z][A-Za-z0-9_]*$\<close>\<close>

definition kind_pattern :: re where
  "kind_pattern = seq
     [Bol, Cls False False [(CHR ''A'', CHR ''Z''), (CHR ''a'', CHR ''z'')],
      Many True (Cls False False
        [(CHR ''A'', CHR ''Z''), (CHR ''a'', CHR ''z''), (CHR ''0'', CHR ''9''), (CHR ''_'', CHR ''_'')]),
      Eol]"

definition validate_kind :: "string \<Rightarrow> unit res" where
  "validate_kind kind =
     (if match_string kind_pattern kind then Inr ()
      else Inl (ErrMsg (''invalid graph type: '' @ kind)))"

text \<open>\<open>Present\<close>: the properties over the id and kind; nil for a nil node.\<close>

definition present :: "node \<Rightarrow> props" where
  "present n = put_all (node_props n) [(''id'', VStr (node_id n)), (''kind'', VStr (node_kind n))]"

record batch_node =
  item_identity :: props
  item_properties :: props

record batch_edge =
  item_kind :: string
  item_from :: string
  item_to :: string
  item_props :: "props option"

record 'r repo_ops =
  op_upsert :: "string \<Rightarrow> string \<Rightarrow> props \<Rightarrow> props \<Rightarrow> 'r \<Rightarrow> node res \<times> 'r"
  op_get :: "string \<Rightarrow> 'r \<Rightarrow> node res \<times> 'r"
  op_find :: "string \<Rightarrow> props \<Rightarrow> 'r \<Rightarrow> node list res \<times> 'r"
  op_link :: "string \<Rightarrow> string \<Rightarrow> string \<Rightarrow> props option \<Rightarrow> 'r \<Rightarrow> edge res \<times> 'r"
  op_neighbors :: "string \<Rightarrow> string \<Rightarrow> direction \<Rightarrow> 'r \<Rightarrow> (edge \<times> node) list res \<times> 'r"
  op_remove_nodes :: "string list \<Rightarrow> 'r \<Rightarrow> unit res \<times> 'r"
  op_remove_edges :: "string list \<Rightarrow> 'r \<Rightarrow> unit res \<times> 'r"

section \<open>Filters\<close>

text \<open>
  The test every implementation applies to a node: the kind agrees unless the wanted kind
  is empty, and each filter deep-equals the property it names.
\<close>

definition node_matches :: "string \<Rightarrow> props \<Rightarrow> node \<Rightarrow> bool" where
  "node_matches kind filters n =
     ((kind = [] \<or> node_kind n = kind) \<and>
      list_all (\<lambda>(k, v). deep_eq (pget (node_props n) k) v) filters)"

lemma node_matches_iff:
  "node_matches kind filters n \<longleftrightarrow>
   (kind = [] \<or> node_kind n = kind) \<and>
   (\<forall>(k, v) \<in> set filters. pget (node_props n) k = v \<and> nan_free v)"
  by (auto simp: node_matches_def list_all_iff deep_eq_iff)

lemma node_matches_cong:
  assumes "node_kind n = node_kind m"
    and "\<And>k. k \<in> set (keys filters) \<Longrightarrow> pget (node_props n) k = pget (node_props m) k"
  shows "node_matches kind filters n = node_matches kind filters m"
proof -
  have "pget (node_props n) k = pget (node_props m) k" if "(k, v) \<in> set filters" for k v
    using assms(2) that by force
  with assms(1) show ?thesis by (fastforce simp: node_matches_iff)
qed

section \<open>Valid kinds\<close>

definition kind_ok :: "string \<Rightarrow> bool" where
  "kind_ok kind = (case kind of [] \<Rightarrow> False | c # t \<Rightarrow> is_letter c \<and> list_all is_word t)"

lemma in_kind_head: "in_class False False [(CHR ''A'', CHR ''Z''), (CHR ''a'', CHR ''z'')] c = is_letter c"
  by (auto simp: in_class_def is_letter_def is_upper_def is_lower_def)

lemma in_kind_tail: "in_class False False
    [(CHR ''A'', CHR ''Z''), (CHR ''a'', CHR ''z''), (CHR ''0'', CHR ''9''), (CHR ''_'', CHR ''_'')] c
  = is_word c"
  by (auto simp: in_class_def is_word_def is_letter_def is_upper_def is_lower_def is_digit_def)

lemma match_kind_pattern: "match_string kind_pattern kind \<longleftrightarrow> kind_ok kind"
proof
  assume "match_string kind_pattern kind"
  then obtain w t st' where "kind = w @ t" "steps kind_pattern (start_at (rev w) t) st'"
    by (auto simp: match_string_iff)
  then show "kind_ok kind"
    by (auto simp: kind_pattern_def steps_many_class in_kind_head start_at_def kind_ok_def
        list_all_iff in_kind_tail split: list.splits)
next
  assume "kind_ok kind"
  then obtain c t where k: "kind = c # t" "is_letter c" "list_all is_word t"
    by (auto simp: kind_ok_def split: list.splits)
  let ?st = "start_at [] kind"
  let ?st1 = "?st\<lparr>past := [c], rest := t\<rparr>"
  let ?st2 = "?st\<lparr>past := rev t @ [c], rest := []\<rparr>"
  have "steps kind_pattern ?st ?st2"
    unfolding kind_pattern_def seq.simps
  proof (intro steps.then_)
    show "steps Bol ?st ?st" by (intro steps.bol) (simp add: start_at_def)
    show "steps (Cls False False [(CHR ''A'', CHR ''Z''), (CHR ''a'', CHR ''z'')]) ?st ?st1"
      using k steps.cls [of ?st c t False False] by (simp add: in_kind_head start_at_def)
    show "steps (Many True (Cls False False
        [(CHR ''A'', CHR ''Z''), (CHR ''a'', CHR ''z''), (CHR ''0'', CHR ''9''), (CHR ''_'', CHR ''_'')]))
        ?st1 ?st2"
      unfolding steps_many_class using k by (auto simp: list_all_iff in_kind_tail)
    show "steps Eol ?st2 ?st2" by (intro steps.eol) simp
  qed
  then show "match_string kind_pattern kind" by (rule match_string_start)
qed

lemma validate_kind_iff [simp]:
  "validate_kind kind = (if kind_ok kind then Inr () else Inl (ErrMsg (''invalid graph type: '' @ kind)))"
  by (simp add: validate_kind_def match_kind_pattern)

end
