(* ===== verification/GraphInterface.thy ===== *)
theory GraphInterface
  imports GraphModel
begin

text \<open>
  The contract of \<open>graph.GraphRepository\<close> as its clients rely on it. \<open>view r\<close> is the map
  from ids to nodes a repository state stands for. Lookups list exactly the matching nodes in
  id order and change nothing a later lookup sees; an upsert writes one node, the matching
  node of least id if there is one and a node with an unused id otherwise; a removal takes
  exactly the named nodes away. The laws say what holds when an operation returns without
  an error.
\<close>

text \<open>The keys a repository fills in itself.\<close>

definition stamp_keys :: "string set" where
  "stamp_keys = {''id'', ''created_at'', ''updated_at'', ''project_id''}"

definition matching :: "(string \<Rightarrow> node option) \<Rightarrow> string \<Rightarrow> props \<Rightarrow> node set" where
  "matching v kind filters = {n. \<exists>i. v i = Some n \<and> node_matches kind filters n}"

text \<open>
  Arguments as the services pass them: identity and properties are maps over different keys,
  neither names the id, and the identity has no key the repository stamps and no \<open>NaN\<close>.
\<close>

definition plain_props :: "props \<Rightarrow> bool" where
  "plain_props m \<longleftrightarrow> distinct (keys m) \<and> \<not> has_key m ''id''"

definition plain_args :: "props \<Rightarrow> props \<Rightarrow> bool" where
  "plain_args identity properties \<longleftrightarrow>
     plain_props identity \<and> plain_props properties \<and> nan_freem identity \<and>
     \<not> has_key identity ''created_at'' \<and> \<not> has_key identity ''updated_at'' \<and>
     list_all (\<lambda>k. \<not> has_key properties k) (keys identity)"

lemma plain_argsD:
  assumes "plain_args identity properties"
  shows "distinct (keys identity)" "distinct (keys properties)"
    "\<not> has_key identity ''id''" "\<not> has_key properties ''id''"
    "set (keys identity) \<inter> (stamp_keys - {''project_id''}) = {}"
    "set (keys identity) \<inter> set (keys properties) = {}" "nan_freem identity"
  using assms unfolding plain_args_def plain_props_def list_all_iff has_key_iff stamp_keys_def
  by blast+

locale graph_repo =
  fixes G :: "'r repo_ops"
    and inv :: "'r \<Rightarrow> bool"
    and view :: "'r \<Rightarrow> string \<Rightarrow> node option"
  assumes view_id: "inv r \<Longrightarrow> view r i = Some n \<Longrightarrow> node_id n = i"
    and find_ok: "inv r \<Longrightarrow> op_find G kind filters r = (Inr ns, r') \<Longrightarrow>
      inv r' \<and> view r' = view r \<and> set ns = matching (view r) kind filters \<and>
      sorted_wrt (\<lambda>a b. node_id a < node_id b) ns"
    and find_keeps: "inv r \<Longrightarrow> inv (snd (op_find G kind filters r)) \<and>
      view (snd (op_find G kind filters r)) = view r"
    and upsert_ok: "inv r \<Longrightarrow> op_upsert G now kind identity properties r = (Inr n, r') \<Longrightarrow>
      distinct (keys identity) \<Longrightarrow> distinct (keys properties) \<Longrightarrow>
      \<not> has_key identity ''id'' \<Longrightarrow> \<not> has_key properties ''id'' \<Longrightarrow>
      inv r' \<and> view r' = (view r)(node_id n \<mapsto> n) \<and> node_kind n = kind \<and>
      (\<forall>k \<in> set (keys properties) - stamp_keys. pget (node_props n) k = pget properties k) \<and>
      (\<forall>k \<in> set (keys identity) - set (keys properties) - (stamp_keys - {''project_id''}).
         pget (node_props n) k = pget identity k) \<and>
      (if matching (view r) kind identity = {} then view r (node_id n) = None
       else (\<exists>old \<in> matching (view r) kind identity. node_id n = node_id old \<and>
              (\<forall>m \<in> matching (view r) kind identity. node_id old \<le> node_id m)))"
    and remove_ok: "inv r \<Longrightarrow> op_remove_nodes G ids r = (Inr u, r') \<Longrightarrow>
      inv r' \<and> view r' = view r |` (- set ids)"
begin

lemma matching_id: "inv r \<Longrightarrow> n \<in> matching (view r) kind filters \<Longrightarrow> view r (node_id n) = Some n"
  using view_id by (auto simp: matching_def)

lemma find_hd_least:
  assumes "inv r" "op_find G kind filters r = (Inr (n # ns), r')"
    and "m \<in> matching (view r) kind filters"
  shows "node_id n \<le> node_id m"
proof -
  from find_ok [OF assms(1,2)] assms(3) have "m \<in> set (n # ns)"
    and "sorted_wrt (\<lambda>a b. node_id a < node_id b) (n # ns)" by auto
  then show ?thesis by auto
qed

text \<open>The node an upsert wrote is the least node of its identity.\<close>

lemma upsert_matches:
  assumes inv: "inv r" and up: "op_upsert G now kind identity properties r = (Inr n, r1)"
    and args: "plain_args identity properties"
  shows "n \<in> matching (view r1) kind identity"
    and "\<And>m. m \<in> matching (view r1) kind identity \<Longrightarrow> node_id n \<le> node_id m"
proof -
  note dist = plain_argsD(1,2) [OF args] and stamp = plain_argsD(5) [OF args]
    and disj = plain_argsD(6) [OF args] and nan = plain_argsD(7) [OF args]
  note up_ok = upsert_ok [OF inv up plain_argsD(1-4) [OF args]]
  have nf: "nan_free v" if "(k, v) \<in> set identity" for k v
    using nan that by (auto simp: nan_freem_iff)
  have get: "pget identity k = v" if "(k, v) \<in> set identity" for k v
    using map_of_is_SomeI [OF dist(1) that] by (simp add: pget_def)
  have "pget (node_props n) k = v \<and> nan_free v" if kv: "(k, v) \<in> set identity" for k v
  proof -
    from kv have k: "k \<in> set (keys identity)" by force
    with stamp disj have "k \<in> set (keys identity) - set (keys properties) - (stamp_keys - {''project_id''})"
      by auto
    with up_ok have "pget (node_props n) k = pget identity k" by blast
    with get [OF kv] nf [OF kv] show ?thesis by auto
  qed
  then have matches: "node_matches kind identity n"
    using up_ok unfolding node_matches_iff by blast
  have r1: "view r1 = (view r)(node_id n \<mapsto> n)" using up_ok by blast
  show "n \<in> matching (view r1) kind identity"
    using matches r1 by (auto simp: matching_def)
  show "node_id n \<le> node_id m" if "m \<in> matching (view r1) kind identity" for m
  proof (cases "m = n")
    case False
    from that r1 False have m: "m \<in> matching (view r) kind identity"
      by (auto simp: matching_def split: if_splits)
    then show ?thesis using up_ok by (auto split: if_splits)
  qed simp
qed

text \<open>After an upsert the identity finds the written node first.\<close>

lemma find_after_upsert:
  assumes inv: "inv r" and up: "op_upsert G now kind identity properties r = (Inr n, r1)"
    and find: "op_find G kind identity r1 = (Inr ns, r2)"
    and args: "plain_args identity properties"
  shows "ns \<noteq> [] \<and> hd ns = n"
proof -
  have r1: "inv r1" using upsert_ok [OF inv up plain_argsD(1-4) [OF args]] by blast
  note n_in = upsert_matches [OF inv up args]
  from find_ok [OF r1 find] have ns: "set ns = matching (view r1) kind identity"
    "sorted_wrt (\<lambda>a b. node_id a < node_id b) ns" by auto
  with n_in obtain h t where ht: "ns = h # t" by (cases ns) auto
  then have "h \<in> matching (view r1) kind identity" using ns(1) by auto
  then have "node_id n \<le> node_id h" by (rule n_in(2))
  moreover have "n = h \<or> node_id h < node_id n" using ht ns n_in by auto
  ultimately have "n = h" by auto
  with ht show ?thesis by simp
qed

text \<open>A second upsert of the identity writes the same node and adds none.\<close>

lemma upsert_again:
  assumes inv: "inv r" and up: "op_upsert G now kind identity properties r = (Inr n, r1)"
    and again: "op_upsert G now' kind identity properties' r1 = (Inr n', r2)"
    and args: "plain_args identity properties" and props': "plain_props properties'"
  shows "node_id n' = node_id n \<and> dom (view r2) = dom (view r1)"
proof -
  have r1: "inv r1" "view r1 (node_id n) = Some n"
    using upsert_ok [OF inv up plain_argsD(1-4) [OF args]] by auto
  note n_in = upsert_matches [OF inv up args]
  have "distinct (keys properties')" "\<not> has_key properties' ''id''"
    using props' by (simp_all add: plain_props_def)
  note up_ok = upsert_ok [OF r1(1) again plain_argsD(1) [OF args] this(1) plain_argsD(3) [OF args] this(2)]
  have "view r2 = (view r1)(node_id n' \<mapsto> n')" using up_ok by blast
  moreover have "node_id n' = node_id n"
  proof -
    obtain old where old: "old \<in> matching (view r1) kind identity" "node_id n' = node_id old"
      "\<forall>m \<in> matching (view r1) kind identity. node_id old \<le> node_id m"
      using up_ok n_in(1) by (auto split: if_splits)
    with n_in have "node_id old \<le> node_id n" "node_id n \<le> node_id old" by auto
    with old show ?thesis by simp
  qed
  ultimately show ?thesis using r1(2) by auto
qed

text \<open>After a removal a lookup never returns a removed node.\<close>

lemma find_after_remove:
  assumes "inv r" "op_remove_nodes G ids r = (Inr u, r1)" "op_find G kind filters r1 = (Inr ns, r2)"
  shows "\<forall>n \<in> set ns. node_id n \<notin> set ids"
proof -
  from remove_ok [OF assms(1,2)] have r1: "inv r1" "view r1 = view r |` (- set ids)" by auto
  from find_ok [OF r1(1) assms(3)] have "set ns = matching (view r1) kind filters" by simp
  then show ?thesis
    using view_id [OF r1(1)] by (force simp: matching_def r1(2) restrict_map_def split: if_splits)
qed

end

end
