(* ===== verification/MemoryGraph.thy ===== *)
theory MemoryGraph
  imports GraphInterface
begin

text \<open>
  \<open>internal/graph/memory.go\<close>: the in-memory repository. Its \<open>nodes\<close> and \<open>edges\<close> maps are
  stores in iteration order; a node stored under its id stands for the pointer the code hands
  out. Each operation is one critical section of the repository's mutex, so operations are
  atomic state transformers. \<open>next\<close> is a supply of ids and the number drawn so far.
\<close>

record mem_repo =
  nodes :: "node store"
  edges :: "edge store"
  gen_ids :: "nat \<Rightarrow> string"
  drawn :: nat
  generation :: "64 word"

definition new_memory_repo :: "(nat \<Rightarrow> string) \<Rightarrow> mem_repo" where
  "new_memory_repo gen =
     \<lparr>nodes = [], edges = [], gen_ids = gen, drawn = 0, generation = 0\<rparr>"

text \<open>\<open>r.next()\<close> and \<open>r.generation++\<close>.\<close>

definition next_id :: "mem_repo \<Rightarrow> string \<times> mem_repo" where
  "next_id r = (gen_ids r (drawn r), r\<lparr>drawn := Suc (drawn r)\<rparr>)"

definition bump :: "mem_repo \<Rightarrow> mem_repo" where
  "bump r = r\<lparr>generation := generation r + 1\<rparr>"

definition find_nodes_locked :: "string \<Rightarrow> props \<Rightarrow> mem_repo \<Rightarrow> node list" where
  "find_nodes_locked kind filters r =
     sort_key node_id (filter (node_matches kind filters) (map snd (nodes r)))"

text \<open>The properties an insertion fills in: the id (drawn from the supply), the time, the project.\<close>

definition fill_props :: "string \<Rightarrow> string \<Rightarrow> props \<Rightarrow> props \<Rightarrow> props" where
  "fill_props now fresh identity ps =
     (let ps = (if has_key ps ''id'' then ps else put ''id'' (VStr fresh) ps);
          ps = (if has_key ps ''created_at'' then ps else put ''created_at'' (VStr now) ps)
      in (if has_key ps ''project_id'' then ps
          else put ''project_id'' (pget identity ''project_id'') ps))"

text \<open>The body of an upsert, shared by \<open>UpsertNode\<close> and the loop of \<open>UpsertNodesBatch\<close>.\<close>

definition upsert_locked :: "string \<Rightarrow> string \<Rightarrow> props \<Rightarrow> props \<Rightarrow> mem_repo \<Rightarrow> node res \<times> mem_repo" where
  "upsert_locked now kind identity properties r =
     (case find_nodes_locked kind identity r of
        n # _ \<Rightarrow>
          (let n1 = n\<lparr>node_props := put_all properties (node_props n)\<rparr>;
               n2 = set_property now ''updated_at'' (pget (node_props n1) ''updated_at'') n1
           in (Inr n2, r\<lparr>nodes := AList.update (node_id n) n2 (nodes r)\<rparr>))
      | [] \<Rightarrow>
          (let ps = put_all properties (put_all identity []);
               (fresh, r) = (if has_key ps ''id'' then ([], r) else next_id r);
               ps = fill_props now fresh identity ps
           in case pget ps ''id'' of
                VStr i \<Rightarrow>
                  (let n = \<lparr>node_id = i, node_kind = kind, node_props = ps\<rparr>
                   in (Inr n, r\<lparr>nodes := AList.update i n (nodes r)\<rparr>))
              | _ \<Rightarrow> (Inl (Panic ''interface conversion: interface is not string''), r)))"

definition upsert_node :: "string \<Rightarrow> string \<Rightarrow> props \<Rightarrow> props \<Rightarrow> mem_repo \<Rightarrow> node res \<times> mem_repo" where
  "upsert_node now kind identity properties r =
     (case validate_kind kind of
        Inl e \<Rightarrow> (Inl e, r)
      | Inr _ \<Rightarrow> upsert_locked now kind identity properties (bump r))"

definition get_node :: "string \<Rightarrow> mem_repo \<Rightarrow> node res" where
  "get_node i r = (case map_of (nodes r) i of None \<Rightarrow> Inl ErrNotFound | Some n \<Rightarrow> Inr n)"

definition find_nodes :: "string \<Rightarrow> props \<Rightarrow> mem_repo \<Rightarrow> node list res" where
  "find_nodes kind filters r = Inr (find_nodes_locked kind filters r)"

text \<open>The test of \<open>Link\<close> and \<open>LinkBatch\<close> for an edge that is already there.\<close>

definition same_edge :: "string \<Rightarrow> string \<Rightarrow> string \<Rightarrow> props option \<Rightarrow> edge \<Rightarrow> bool" where
  "same_edge kind from to properties e =
     (edge_kind e = kind \<and> edge_from e = from \<and> edge_to e = to \<and>
      deep_eq_map (edge_props e) properties)"

definition add_edge :: "string \<Rightarrow> string \<Rightarrow> string \<Rightarrow> props option \<Rightarrow> mem_repo \<Rightarrow> edge \<times> mem_repo" where
  "add_edge kind from to properties r =
     (case next_id r of (i, r') \<Rightarrow>
        let e = new_edge i kind from to properties
        in (e, r'\<lparr>edges := AList.update i e (edges r')\<rparr>))"

definition link :: "string \<Rightarrow> string \<Rightarrow> string \<Rightarrow> props option \<Rightarrow> mem_repo \<Rightarrow> edge res \<times> mem_repo" where
  "link kind from to properties r =
     (case validate_kind kind of
        Inl e \<Rightarrow> (Inl e, r)
      | Inr _ \<Rightarrow>
          (let r = bump r
           in case find (same_edge kind from to properties) (map snd (edges r)) of
                Some e \<Rightarrow> (Inr e, r)
              | None \<Rightarrow> (case add_edge kind from to properties r of (e, r') \<Rightarrow> (Inr e, r'))))"

text \<open>The far end of an edge from a node, as the \<open>switch direction\<close> of \<open>Neighbors\<close> finds it.\<close>

definition far_ends :: "string \<Rightarrow> direction \<Rightarrow> edge \<Rightarrow> string list" where
  "far_ends i dir e =
     (let out = (if edge_from e = i then [edge_to e] else []);
          inn = (if edge_to e = i then [edge_from e] else [])
      in case dir of DirOut \<Rightarrow> out | DirIn \<Rightarrow> inn | DirBoth \<Rightarrow> out @ inn | DirOther _ \<Rightarrow> [])"

definition edge_neighbors :: "node store \<Rightarrow> string \<Rightarrow> direction \<Rightarrow> edge \<Rightarrow> (edge \<times> node) list" where
  "edge_neighbors ns i dir e =
     concat (map (\<lambda>j. case map_of ns j of None \<Rightarrow> [] | Some n \<Rightarrow> [(e, n)]) (far_ends i dir e))"

definition neighbors :: "string \<Rightarrow> string \<Rightarrow> direction \<Rightarrow> mem_repo \<Rightarrow> (edge \<times> node) list res" where
  "neighbors i kind dir r =
     Inr (concat (map (\<lambda>(_, e). if kind \<noteq> [] \<and> edge_kind e \<noteq> kind then []
                                else edge_neighbors (nodes r) i dir e) (edges r)))"

definition remove_nodes :: "string list \<Rightarrow> mem_repo \<Rightarrow> unit res \<times> mem_repo" where
  "remove_nodes ids r =
     (let r = bump r
      in (Inr (), r\<lparr>nodes := filter (\<lambda>(i, _). i \<notin> set ids) (nodes r),
                    edges := filter (\<lambda>(_, e). \<not> (edge_from e \<in> set ids \<or> edge_to e \<in> set ids)) (edges r)\<rparr>))"

definition remove_edges :: "string list \<Rightarrow> mem_repo \<Rightarrow> unit res \<times> mem_repo" where
  "remove_edges ids r =
     (let r = bump r in (Inr (), r\<lparr>edges := fold AList.delete ids (edges r)\<rparr>))"

definition edges_of_kind :: "string \<Rightarrow> mem_repo \<Rightarrow> (string \<times> string) list" where
  "edges_of_kind kind r =
     map (\<lambda>e. (edge_from e, edge_to e)) (filter (\<lambda>e. edge_kind e = kind) (map snd (edges r)))"

definition count_up :: "string \<Rightarrow> nat store \<Rightarrow> nat store" where
  "count_up k m = AList.update k (case map_of m k of None \<Rightarrow> 1 | Some c \<Rightarrow> Suc c) m"

definition counts :: "mem_repo \<Rightarrow> nat store \<times> nat store" where
  "counts r = (fold (\<lambda>(_, n). count_up (node_kind n)) (nodes r) [],
               fold (\<lambda>(_, e). count_up (edge_kind e)) (edges r) [])"

definition query_readonly :: "string \<Rightarrow> props \<Rightarrow> mem_repo \<Rightarrow> props list res" where
  "query_readonly q params r = Inl (ErrMsg ''advanced queries are not enabled by this repository'')"

definition node_count :: "mem_repo \<Rightarrow> nat" where "node_count r = length (nodes r)"
definition edge_count :: "mem_repo \<Rightarrow> nat" where "edge_count r = length (edges r)"

record snapshot =
  snap_nodes :: "node list"
  snap_edges :: "edge list"
  snap_generation :: "64 word"

definition graph_snapshot :: "mem_repo \<Rightarrow> snapshot res" where
  "graph_snapshot r =
     Inr \<lparr>snap_nodes = sort_key node_id (map snd (nodes r)),
          snap_edges = sort_key edge_id (map snd (edges r)),
          snap_generation = generation r\<rparr>"

fun upsert_items :: "string \<Rightarrow> string \<Rightarrow> batch_node list \<Rightarrow> mem_repo \<Rightarrow> node list res \<times> mem_repo" where
  "upsert_items now kind [] r = (Inr [], r)"
| "upsert_items now kind (it # its) r =
     (case upsert_locked now kind (item_identity it) (item_properties it) r of
        (Inl e, r1) \<Rightarrow> (Inl e, r1)
      | (Inr n, r1) \<Rightarrow>
          (case upsert_items now kind its r1 of
             (Inl e, r2) \<Rightarrow> (Inl e, r2)
           | (Inr ns, r2) \<Rightarrow> (Inr (n # ns), r2)))"

definition upsert_nodes_batch :: "string \<Rightarrow> string \<Rightarrow> batch_node list \<Rightarrow> mem_repo \<Rightarrow> node list res \<times> mem_repo" where
  "upsert_nodes_batch now kind items r =
     (case validate_kind kind of
        Inl e \<Rightarrow> (Inl e, r)
      | Inr _ \<Rightarrow> upsert_items now kind items (bump r))"

text \<open>
  The loop of \<open>LinkBatch\<close>. Its inner \<open>continue\<close> continues the scan for equal edges, so every
  equal edge is reported and a new edge is added in any case.
\<close>

fun link_items :: "batch_edge list \<Rightarrow> mem_repo \<Rightarrow> edge list \<times> mem_repo" where
  "link_items [] r = ([], r)"
| "link_items (it # its) r =
     (if \<not> is_ok (validate_kind (item_kind it)) then link_items its r
      else
        (let old = filter (same_edge (item_kind it) (item_from it) (item_to it) (item_props it))
                     (map snd (edges r));
             (e, r1) = add_edge (item_kind it) (item_from it) (item_to it) (item_props it) r;
             (es, r2) = link_items its r1
         in (old @ e # es, r2)))"

definition link_batch :: "batch_edge list \<Rightarrow> mem_repo \<Rightarrow> edge list res \<times> mem_repo" where
  "link_batch items r = (case link_items items (bump r) of (es, r') \<Rightarrow> (Inr es, r'))"

text \<open>The repository as a value of the interface.\<close>

definition mem_ops :: "mem_repo repo_ops" where
  "mem_ops = \<lparr>op_upsert = upsert_node,
              op_get = (\<lambda>i r. (get_node i r, r)),
              op_find = (\<lambda>kind filters r. (find_nodes kind filters r, r)),
              op_link = link,
              op_neighbors = (\<lambda>i kind dir r. (neighbors i kind dir r, r)),
              op_remove_nodes = remove_nodes,
              op_remove_edges = remove_edges\<rparr>"


section \<open>Well-formed repositories\<close>

text \<open>Ids the supply has still to hand out.\<close>

definition future :: "mem_repo \<Rightarrow> string set" where
  "future r = gen_ids r ` {drawn r..}"

definition mem_ok :: "mem_repo \<Rightarrow> bool" where
  "mem_ok r \<longleftrightarrow>
     distinct (keys (nodes r)) \<and> distinct (keys (edges r)) \<and>
     (\<forall>(i, n) \<in> set (nodes r). node_id n = i \<and> canonical (node_props n)) \<and>
     (\<forall>(i, e) \<in> set (edges r). edge_id e = i \<and> edge_props e \<noteq> None) \<and>
     inj (gen_ids r) \<and>
     set (keys (nodes r)) \<inter> future r = {} \<and> set (keys (edges r)) \<inter> future r = {}"

text \<open>An id a caller brings along is not one the supply will hand out later.\<close>

definition brings_no_future_id :: "mem_repo \<Rightarrow> props \<Rightarrow> props \<Rightarrow> bool" where
  "brings_no_future_id r identity properties \<longleftrightarrow>
     (\<forall>i. pget (put_all properties (put_all identity [])) ''id'' = VStr i \<longrightarrow> i \<notin> future r)"

lemma mem_okD:
  assumes "mem_ok r"
  shows "distinct (keys (nodes r))" "distinct (keys (edges r))" "inj (gen_ids r)"
    "\<And>i n. map_of (nodes r) i = Some n \<Longrightarrow> node_id n = i"
    "\<And>i n. map_of (nodes r) i = Some n \<Longrightarrow> canonical (node_props n)"
    "\<And>i e. map_of (edges r) i = Some e \<Longrightarrow> edge_id e = i"
    "\<And>i. i \<in> future r \<Longrightarrow> map_of (nodes r) i = None"
    "\<And>i. i \<in> future r \<Longrightarrow> map_of (edges r) i = None"
    "\<And>i e. map_of (edges r) i = Some e \<Longrightarrow> edge_props e \<noteq> None"
  using assms by (auto simp: mem_ok_def map_of_eq_None_iff dest!: map_of_SomeD)

text \<open>The same facts are enough: a repository is well formed as a pair of maps.\<close>

lemma mem_okI:
  assumes "distinct (keys (nodes r))" "distinct (keys (edges r))" "inj (gen_ids r)"
    "\<And>i n. map_of (nodes r) i = Some n \<Longrightarrow> node_id n = i \<and> canonical (node_props n)"
    "\<And>i e. map_of (edges r) i = Some e \<Longrightarrow> edge_id e = i \<and> edge_props e \<noteq> None"
    "\<And>i. i \<in> future r \<Longrightarrow> map_of (nodes r) i = None"
    "\<And>i. i \<in> future r \<Longrightarrow> map_of (edges r) i = None"
  shows "mem_ok r"
proof -
  have "set (keys (nodes r)) \<inter> future r = {}"
    using assms(6) by (fastforce simp: map_of_eq_None_iff)
  moreover have "set (keys (edges r)) \<inter> future r = {}"
    using assms(7) by (fastforce simp: map_of_eq_None_iff)
  moreover have "\<forall>(i, n) \<in> set (nodes r). node_id n = i \<and> canonical (node_props n)"
    using assms(1,4) by (auto simp: map_of_eq_Some_iff)
  moreover have "\<forall>(i, e) \<in> set (edges r). edge_id e = i \<and> edge_props e \<noteq> None"
    using assms(2,5) by (auto simp: map_of_eq_Some_iff)
  ultimately show ?thesis using assms(1-3) by (simp add: mem_ok_def)
qed

lemma mem_ok_new [preserves]: "inj gen \<Longrightarrow> mem_ok (new_memory_repo gen)"
  by (simp add: mem_ok_def new_memory_repo_def)

lemma bump_simps [simp]:
  "nodes (bump r) = nodes r" "edges (bump r) = edges r" "gen_ids (bump r) = gen_ids r"
  "drawn (bump r) = drawn r" "future (bump r) = future r" "mem_ok (bump r) = mem_ok r"
  "find_nodes_locked kind filters (bump r) = find_nodes_locked kind filters r"
  "brings_no_future_id (bump r) = brings_no_future_id r"
  by (simp_all add: bump_def future_def mem_ok_def find_nodes_locked_def brings_no_future_id_def
      fun_eq_iff)

lemma future_stores [simp]: "future (r\<lparr>nodes := ns\<rparr>) = future r" "future (r\<lparr>edges := es\<rparr>) = future r"
  by (simp_all add: future_def)

lemma next_id_fresh:
  assumes "mem_ok r" "next_id r = (i, r')"
  shows "i \<in> future r" "future r' = future r - {i}" "nodes r' = nodes r" "edges r' = edges r"
    "gen_ids r' = gen_ids r" "map_of (nodes r) i = None" "map_of (edges r) i = None" "mem_ok r'"
proof -
  have i: "i = gen_ids r (drawn r)" and r': "r' = r\<lparr>drawn := Suc (drawn r)\<rparr>"
    using assms(2) by (simp_all add: next_id_def)
  show fut: "i \<in> future r" by (simp add: i future_def)
  have "{drawn r..} = insert (drawn r) {Suc (drawn r)..}" by auto
  then show split: "future r' = future r - {i}"
    using mem_okD(3) [OF assms(1)] by (auto simp: future_def r' i inj_eq)
  show "nodes r' = nodes r" "edges r' = edges r" "gen_ids r' = gen_ids r" by (simp_all add: r')
  show "map_of (nodes r) i = None" "map_of (edges r) i = None"
    using mem_okD(7,8) [OF assms(1) fut] by simp_all
  show "mem_ok r'"
    using assms(1) split by (auto simp: mem_ok_def r')
qed

section \<open>Lookups\<close>

lemma set_find_locked:
  assumes "mem_ok r"
  shows "set (find_nodes_locked kind filters r) = matching (map_of (nodes r)) kind filters"
  using mem_okD(1) [OF assms]
  by (force simp: find_nodes_locked_def matching_def map_of_eq_Some_iff)

lemma sorted_find_locked:
  assumes "mem_ok r"
  shows "sorted_wrt (\<lambda>a b. node_id a < node_id b) (find_nodes_locked kind filters r)"
proof -
  let ?ns = "filter (node_matches kind filters) (map snd (nodes r))"
  have "map node_id (map snd (nodes r)) = keys (nodes r)"
    using assms by (auto simp: mem_ok_def)
  then have "distinct (map node_id (map snd (nodes r)))"
    using mem_okD(1) [OF assms] by (simp only:)
  then have "distinct (map node_id ?ns)" by (rule distinct_map_filter)
  then have "distinct (map node_id (sort_key node_id ?ns))"
    by (simp add: distinct_map)
  then have "sorted_wrt (<) (map node_id (sort_key node_id ?ns))"
    by (simp add: strict_sorted_iff)
  then show ?thesis by (simp add: find_nodes_locked_def sorted_wrt_map)
qed

lemma matching_stored:
  assumes "mem_ok r" "n \<in> matching (map_of (nodes r)) kind filters"
  shows "map_of (nodes r) (node_id n) = Some n" "node_kind n = kind \<or> kind = []"
proof -
  obtain i where i: "map_of (nodes r) i = Some n" and m: "node_matches kind filters n"
    using assms(2) by (auto simp: matching_def)
  with mem_okD(4) [OF assms(1) i] show "map_of (nodes r) (node_id n) = Some n" by simp
  from m show "node_kind n = kind \<or> kind = []" by (auto simp: node_matches_def)
qed

text \<open>
  The list a lookup returns is a function of the map of nodes: the iteration order of the
  underlying map does not show.
\<close>

lemma find_locked_unique:
  assumes "mem_ok r" "mem_ok r'" "map_of (nodes r) = map_of (nodes r')"
  shows "find_nodes_locked kind filters r = find_nodes_locked kind filters r'"
proof -
  let ?ns = "find_nodes_locked kind filters r" and ?ns' = "find_nodes_locked kind filters r'"
  have same: "set ?ns = set ?ns'" using assms by (simp add: set_find_locked)
  have ids: "sorted_wrt (<) (map node_id ?ns)" "sorted_wrt (<) (map node_id ?ns')"
    using assms(1,2) by (simp_all add: sorted_find_locked sorted_wrt_map)
  have "node_id m = node_id n \<Longrightarrow> m = n" if "m \<in> set ?ns" "n \<in> set ?ns" for m n
  proof -
    have "map_of (nodes r) (node_id m) = Some m" "map_of (nodes r) (node_id n) = Some n"
      using that matching_stored(1) [OF assms(1)] by (simp_all add: set_find_locked [OF assms(1)])
    then show "node_id m = node_id n \<Longrightarrow> m = n" by (metis option.inject)
  qed
  then have "inj_on node_id (set ?ns)" by (rule inj_onI)
  with same have "inj_on node_id (set ?ns \<union> set ?ns')" by simp
  with ids same show ?thesis
    by (intro map_sorted_distinct_set_unique) (auto simp: strict_sorted_iff)
qed

section \<open>Upserts\<close>

lemma set_property_simps [simp]:
  "node_id (set_property now k v n) = node_id n"
  "node_kind (set_property now k v n) = node_kind n"
  "node_props (set_property now k v n) = put ''updated_at'' (VStr now) (put k v (node_props n))"
  by (simp_all add: set_property_def)

text \<open>An upsert of an identity that some node has updates the least such node.\<close>

definition touched :: "string \<Rightarrow> props \<Rightarrow> node \<Rightarrow> node" where
  "touched now properties old =
     (let n = old\<lparr>node_props := put_all properties (node_props old)\<rparr>
      in set_property now ''updated_at'' (pget (node_props n) ''updated_at'') n)"

lemma touched_simps [simp]:
  "node_id (touched now properties old) = node_id old"
  "node_kind (touched now properties old) = node_kind old"
  "canonical (node_props old) \<Longrightarrow> canonical (node_props (touched now properties old))"
  "distinct (keys properties) \<Longrightarrow> pget (node_props (touched now properties old)) k =
     (if k = ''updated_at'' then VStr now
      else if has_key properties k then pget properties k else pget (node_props old) k)"
  by (simp_all add: touched_def Let_def pget_put_all)

lemma upsert_locked_old:
  "find_nodes_locked kind identity r = old # ns \<Longrightarrow>
   upsert_locked now kind identity properties r =
     (Inr (touched now properties old),
      r\<lparr>nodes := AList.update (node_id old) (touched now properties old) (nodes r)\<rparr>)"
  by (simp add: upsert_locked_def touched_def Let_def)

lemma fill_props_canonical [simp, preserves]: "canonical ps \<Longrightarrow> canonical (fill_props now fresh identity ps)"
  by (simp add: fill_props_def Let_def)

lemma pget_fill_props [propmap]:
  "pget (fill_props now fresh identity ps) k =
     (if has_key ps k then pget ps k
      else if k = ''id'' then VStr fresh
      else if k = ''created_at'' then VStr now
      else if k = ''project_id'' then pget identity ''project_id''
      else VNil)"
  by (auto simp: fill_props_def Let_def pget_no_key)

text \<open>An upsert of a new identity stores one node under an id of the caller or the supply.\<close>

lemma upsert_locked_new:
  assumes none: "find_nodes_locked kind identity r = []"
    and up: "upsert_locked now kind identity properties r = (Inr n, r')"
  obtains fresh r1 where
    "(if has_key (put_all properties (put_all identity [])) ''id'' then ([], r) else next_id r) = (fresh, r1)"
    "node_kind n = kind"
    "node_props n = fill_props now fresh identity (put_all properties (put_all identity []))"
    "pget (node_props n) ''id'' = VStr (node_id n)"
    "r' = r1\<lparr>nodes := AList.update (node_id n) n (nodes r1)\<rparr>"
proof -
  let ?ps = "put_all properties (put_all identity [])"
  obtain fresh r1 where nx: "(if has_key ?ps ''id'' then ([], r) else next_id r) = (fresh, r1)"
    by (cases "if has_key ?ps ''id'' then ([], r) else next_id r")
  have eq: "upsert_locked now kind identity properties r =
      (case pget (fill_props now fresh identity ?ps) ''id'' of
         VStr i \<Rightarrow> (let n = \<lparr>node_id = i, node_kind = kind, node_props = fill_props now fresh identity ?ps\<rparr>
                    in (Inr n, r1\<lparr>nodes := AList.update i n (nodes r1)\<rparr>))
       | _ \<Rightarrow> (Inl (Panic ''interface conversion: interface is not string''), r1))"
    by (simp only: upsert_locked_def none list.case Let_def nx prod.case)
  show ?thesis
    using up nx unfolding eq by (auto simp: Let_def split: val.splits intro!: that)
qed

lemma upsert_locked_panic:
  assumes "upsert_locked now kind identity properties r = (Inl e, r')"
  obtains fresh where
    "(if has_key (put_all properties (put_all identity [])) ''id'' then ([], r) else next_id r) = (fresh, r')"
  using assms by (auto simp: upsert_locked_def Let_def split: list.splits val.splits prod.splits if_splits)

lemma mem_ok_store_node:
  assumes "mem_ok r" "canonical (node_props n)" "node_id n \<notin> future r"
  shows "mem_ok (r\<lparr>nodes := AList.update (node_id n) n (nodes r)\<rparr>)"
  using mem_okD [OF assms(1)] assms(2,3)
  by (intro mem_okI) (auto split: if_splits)

lemma mem_ok_upsert_locked [preserves]:
  assumes ok: "mem_ok r" and ids: "brings_no_future_id r identity properties"
  shows "mem_ok (snd (upsert_locked now kind identity properties r))"
proof (cases "find_nodes_locked kind identity r")
  case (Cons old ns)
  then have "old \<in> matching (map_of (nodes r)) kind identity"
    using set_find_locked [OF ok, of kind identity] by auto
  then have old: "map_of (nodes r) (node_id old) = Some old"
    by (rule matching_stored(1) [OF ok])
  then have "node_id old \<notin> future r" using mem_okD(7) [OF ok] by auto
  with mem_okD(5) [OF ok old] show ?thesis
    using mem_ok_store_node [OF ok, of "touched now properties old"]
    by (simp add: upsert_locked_old [OF Cons])
next
  case Nil
  let ?ps = "put_all properties (put_all identity [])"
  obtain res r' where up: "upsert_locked now kind identity properties r = (res, r')"
    by (cases "upsert_locked now kind identity properties r")
  show ?thesis
  proof (cases res)
    case (Inl e)
    with up show ?thesis
      using next_id_fresh(8) [OF ok] ok by (auto elim!: upsert_locked_panic split: if_splits)
  next
    case (Inr n)
    with up have "upsert_locked now kind identity properties r = (Inr n, r')" by simp
    from upsert_locked_new [OF Nil this] obtain fresh r1 where
      nx: "(if has_key ?ps ''id'' then ([], r) else next_id r) = (fresh, r1)"
      and n: "node_props n = fill_props now fresh identity ?ps" "pget (node_props n) ''id'' = VStr (node_id n)"
      and r': "r' = r1\<lparr>nodes := AList.update (node_id n) n (nodes r1)\<rparr>" by blast
    have "mem_ok r1 \<and> node_id n \<notin> future r1"
    proof (cases "has_key ?ps ''id''")
      case True
      with nx n ids ok show ?thesis by (auto simp: pget_fill_props brings_no_future_id_def)
    next
      case False
      with nx n have "next_id r = (node_id n, r1)" by (simp add: pget_fill_props)
      from next_id_fresh [OF ok this] show ?thesis by auto
    qed
    with mem_ok_store_node [of r1 n] show ?thesis by (simp add: up r' n)
  qed
qed

lemma future_upsert_locked: "mem_ok r \<Longrightarrow> future (snd (upsert_locked now kind identity properties r)) \<subseteq> future r"
  by (cases "next_id r")
    (auto simp: upsert_locked_def Let_def dest: next_id_fresh(2) split: list.splits val.splits)

lemma mem_ok_upsert_node [preserves]:
  "mem_ok r \<Longrightarrow> brings_no_future_id r identity properties \<Longrightarrow>
   mem_ok (snd (upsert_node now kind identity properties r))"
  by (simp add: upsert_node_def mem_ok_upsert_locked)

lemma upsert_items_Cons:
  "snd (upsert_items now kind (it # its) r) =
   (let (res, r1) = upsert_locked now kind (item_identity it) (item_properties it) r
    in if is_ok res then snd (upsert_items now kind its r1) else r1)"
  by (auto split: prod.splits sum.splits)

lemma mem_ok_upsert_items [preserves]:
  "mem_ok r \<Longrightarrow> \<forall>it \<in> set items. brings_no_future_id r (item_identity it) (item_properties it) \<Longrightarrow>
   mem_ok (snd (upsert_items now kind items r))"
proof (induction items arbitrary: r)
  case (Cons it its)
  obtain res r1 where up: "upsert_locked now kind (item_identity it) (item_properties it) r = (res, r1)"
    by (cases "upsert_locked now kind (item_identity it) (item_properties it) r")
  have ok: "mem_ok r1" and sub: "future r1 \<subseteq> future r"
    using mem_ok_upsert_locked [OF Cons.prems(1), of "item_identity it" "item_properties it" now kind]
      future_upsert_locked [OF Cons.prems(1), of now kind "item_identity it" "item_properties it"]
      Cons.prems(2) up by auto
  then have "\<forall>it \<in> set its. brings_no_future_id r1 (item_identity it) (item_properties it)"
    using Cons.prems(2) by (auto simp: brings_no_future_id_def)
  from Cons.IH [OF ok this] ok show ?case unfolding upsert_items_Cons by (simp add: up)
qed simp

lemma mem_ok_upsert_nodes_batch [preserves]:
  "mem_ok r \<Longrightarrow> \<forall>it \<in> set items. brings_no_future_id r (item_identity it) (item_properties it) \<Longrightarrow>
   mem_ok (snd (upsert_nodes_batch now kind items r))"
  by (simp add: upsert_nodes_batch_def mem_ok_upsert_items)

section \<open>Edges and removals\<close>

lemma add_edge_ok:
  assumes "mem_ok r" "add_edge kind from to properties r = (e, r')"
  shows "mem_ok r'" "nodes r' = nodes r" "map_of (edges r') = (map_of (edges r))(edge_id e \<mapsto> e)"
    "map_of (edges r) (edge_id e) = None" "future r' \<subseteq> future r"
    "e = new_edge (edge_id e) kind from to properties"
proof -
  obtain i r1 where nx: "next_id r = (i, r1)" by (cases "next_id r")
  note fresh = next_id_fresh [OF assms(1) nx]
  have e: "e = new_edge i kind from to properties" and r': "r' = r1\<lparr>edges := AList.update i e (edges r1)\<rparr>"
    using assms(2) by (auto simp: add_edge_def nx Let_def)
  have i: "edge_id e = i" by (simp add: e new_edge_def)
  show "nodes r' = nodes r" "map_of (edges r') = (map_of (edges r))(edge_id e \<mapsto> e)"
    "map_of (edges r) (edge_id e) = None" "future r' \<subseteq> future r"
    "e = new_edge (edge_id e) kind from to properties"
    using fresh(2,3,4,7) unfolding r' i by (simp_all add: e Diff_subset)
  have "edge_props e \<noteq> None" by (simp add: e new_edge_def split: option.splits)
  then show "mem_ok r'"
    using mem_okD [OF fresh(8)] fresh(1,2) i unfolding r'
    by (intro mem_okI) (auto split: if_splits)
qed

text \<open>A link changes no node, and adds at most one edge, at the end and only if no equal one is there.\<close>

lemma nodes_link [simp]: "nodes (snd (link kind from to properties r)) = nodes r"
  by (auto simp: link_def Let_def add_edge_def next_id_def bump_def split: option.split)

lemma link_appends:
  assumes "mem_ok r"
  shows "edges (snd (link kind from to ps r)) = edges r \<or>
    (find (same_edge kind from to ps) (map snd (edges r)) = None \<and>
     (\<exists>i. edges (snd (link kind from to ps r)) = edges r @ [(i, new_edge i kind from to ps)]))"
proof -
  obtain i r' where nx: "next_id (bump r) = (i, r')" by fastforce
  from assms have "mem_ok (bump r)" by simp
  note fresh = next_id_fresh [OF this nx]
  then have "AList.update i e (edges r') = edges r @ [(i, e)]" for e by (simp add: update_fresh)
  then show ?thesis by (auto simp: link_def Let_def add_edge_def nx split: option.split)
qed

lemma mem_ok_link [preserves]: "mem_ok r \<Longrightarrow> mem_ok (snd (link kind from to properties r))"
  using add_edge_ok(1) [of "bump r"]
  by (auto simp: link_def Let_def split: option.splits prod.splits)

lemma mem_ok_link_items [preserves]: "mem_ok r \<Longrightarrow> mem_ok (snd (link_items items r))"
proof (induction items r rule: link_items.induct)
  case (2 it its r)
  then show ?case
    using add_edge_ok(1) [of r] by (auto simp: Let_def split: prod.splits)
qed simp

lemma mem_ok_link_batch [preserves]: "mem_ok r \<Longrightarrow> mem_ok (snd (link_batch items r))"
  using mem_ok_link_items [of "bump r" items] by (auto simp: link_batch_def split: prod.splits)

lemma map_of_remove_nodes [storemap]:
  "map_of (nodes (snd (remove_nodes ids r))) = map_of (nodes r) |` (- set ids)"
  by (auto simp: remove_nodes_def Let_def fun_eq_iff restrict_map_def map_of_filter_keys
      map_of_filter_keys [where P = "\<lambda>k. k \<notin> set ids", simplified])

lemma mem_ok_remove_nodes [preserves]: "mem_ok r \<Longrightarrow> mem_ok (snd (remove_nodes ids r))"
  by (auto simp: mem_ok_def remove_nodes_def Let_def)

lemma distinct_fold_delete [simp]: "distinct (keys m) \<Longrightarrow> distinct (keys (fold AList.delete ids m))"
  by (induction ids arbitrary: m) auto

lemma map_of_fold_delete [storemap]:
  "map_of (fold AList.delete ids m) i = (if i \<in> set ids then None else map_of m i)"
  by (induction ids arbitrary: m) auto

lemma mem_ok_remove_edges [preserves]: "mem_ok r \<Longrightarrow> mem_ok (snd (remove_edges ids r))"
  using mem_okD [of "bump r"]
  by (intro mem_okI) (auto simp: remove_edges_def Let_def map_of_fold_delete split: if_splits)

section \<open>Reachable repositories\<close>

text \<open>
  What a sequence of calls on a new repository can make of it. Ids the caller brings are not
  among those the supply will draw (they are random UUIDs in the code).
\<close>

inductive mem_reach :: "(nat \<Rightarrow> string) \<Rightarrow> mem_repo \<Rightarrow> bool" for gen where
  new: "mem_reach gen (new_memory_repo gen)"
| upsert: "mem_reach gen r \<Longrightarrow> brings_no_future_id r identity properties \<Longrightarrow>
    mem_reach gen (snd (upsert_node now kind identity properties r))"
| batch: "mem_reach gen r \<Longrightarrow>
    \<forall>it \<in> set items. brings_no_future_id r (item_identity it) (item_properties it) \<Longrightarrow>
    mem_reach gen (snd (upsert_nodes_batch now kind items r))"
| link: "mem_reach gen r \<Longrightarrow> mem_reach gen (snd (link kind from to properties r))"
| link_batch: "mem_reach gen r \<Longrightarrow> mem_reach gen (snd (link_batch links r))"
| remove_nodes: "mem_reach gen r \<Longrightarrow> mem_reach gen (snd (remove_nodes ids r))"
| remove_edges: "mem_reach gen r \<Longrightarrow> mem_reach gen (snd (remove_edges ids r))"

lemma mem_reach_ok: "mem_reach gen r \<Longrightarrow> inj gen \<Longrightarrow> mem_ok r"
  by (induction rule: mem_reach.induct) (simp_all add: preserves)

section \<open>The contract\<close>

lemma upsert_node_okD:
  "upsert_node now kind identity properties r = (Inr n, r') \<Longrightarrow>
   kind_ok kind \<and> upsert_locked now kind identity properties (bump r) = (Inr n, r')"
  by (simp add: upsert_node_def split: if_splits)

lemma no_id_in_merge:
  "\<not> has_key identity ''id'' \<Longrightarrow> \<not> has_key properties ''id'' \<Longrightarrow>
   distinct (keys identity) \<Longrightarrow> distinct (keys properties) \<Longrightarrow>
   \<not> has_key (put_all properties (put_all identity [])) ''id''"
  by (simp add: has_key_put_all) (simp add: has_key_def)

lemma no_id_brings_no_future_id:
  "\<not> has_key identity ''id'' \<Longrightarrow> \<not> has_key properties ''id'' \<Longrightarrow>
   distinct (keys identity) \<Longrightarrow> distinct (keys properties) \<Longrightarrow>
   brings_no_future_id r identity properties"
  by (simp add: brings_no_future_id_def pget_no_key no_id_in_merge)

lemma mem_upsert_contract:
  assumes ok: "mem_ok r" and up: "upsert_node now kind identity properties r = (Inr n, r')"
    and dist: "distinct (keys identity)" "distinct (keys properties)"
    and noid: "\<not> has_key identity ''id''" "\<not> has_key properties ''id''"
  shows "map_of (nodes r') = (map_of (nodes r))(node_id n \<mapsto> n) \<and> node_kind n = kind \<and>
    (\<forall>k \<in> set (keys properties) - stamp_keys. pget (node_props n) k = pget properties k) \<and>
    (\<forall>k \<in> set (keys identity) - set (keys properties) - (stamp_keys - {''project_id''}).
       pget (node_props n) k = pget identity k) \<and>
    (if matching (map_of (nodes r)) kind identity = {} then map_of (nodes r) (node_id n) = None
     else (\<exists>old \<in> matching (map_of (nodes r)) kind identity. node_id n = node_id old \<and>
            (\<forall>m \<in> matching (map_of (nodes r)) kind identity. node_id old \<le> node_id m)))"
proof (cases "find_nodes_locked kind identity r")
  case (Cons old ns)
  have kind: "kind \<noteq> []" and lock: "upsert_locked now kind identity properties (bump r) = (Inr n, r')"
    using upsert_node_okD [OF up] by (auto simp: kind_ok_def)
  have n: "n = touched now properties old"
    and r': "nodes r' = AList.update (node_id old) n (nodes r)"
    using lock Cons by (auto simp: upsert_locked_old)
  have set: "insert old (set ns) = matching (map_of (nodes r)) kind identity"
    using set_find_locked [OF ok, of kind identity] Cons by simp
  then have old: "old \<in> matching (map_of (nodes r)) kind identity" by auto
  have least: "node_id old \<le> node_id m" if "m \<in> matching (map_of (nodes r)) kind identity" for m
    using that sorted_find_locked [OF ok, of kind identity] unfolding set [symmetric] Cons by auto
  from old obtain i where m: "node_matches kind identity old" by (auto simp: matching_def)
  have idn: "pget (node_props old) k = pget identity k" if "k \<in> set (keys identity)" for k
  proof -
    from that obtain v where kv: "(k, v) \<in> set identity" by auto
    with m have "pget (node_props old) k = v" by (auto simp: node_matches_iff)
    with map_of_is_SomeI [OF dist(1) kv] show ?thesis by (simp add: pget_def)
  qed
  have "node_kind n = kind" using m kind by (auto simp: n node_matches_def)
  moreover have "\<forall>k \<in> set (keys properties) - stamp_keys. pget (node_props n) k = pget properties k"
    using dist by (auto simp: n stamp_keys_def has_key_iff)
  moreover have "\<forall>k \<in> set (keys identity) - set (keys properties) - (stamp_keys - {''project_id''}).
       pget (node_props n) k = pget identity k"
    using dist idn by (auto simp: n stamp_keys_def has_key_iff)
  ultimately show ?thesis using old least r' by (auto simp: n)
next
  case Nil
  let ?ps = "put_all properties (put_all identity [])"
  have lock: "upsert_locked now kind identity properties (bump r) = (Inr n, r')"
    using upsert_node_okD [OF up] by auto
  have nokey: "\<not> has_key ?ps ''id''" using dist noid by (simp add: no_id_in_merge)
  from Nil have "find_nodes_locked kind identity (bump r) = []" by simp
  from upsert_locked_new [OF this lock] obtain fresh r1 where
    nx0: "(if has_key ?ps ''id'' then ([], bump r) else next_id (bump r)) = (fresh, r1)"
    and n: "node_kind n = kind" "node_props n = fill_props now fresh identity ?ps"
      "pget (node_props n) ''id'' = VStr (node_id n)"
    and r': "r' = r1\<lparr>nodes := AList.update (node_id n) n (nodes r1)\<rparr>" by blast
  from nx0 nokey have nx: "next_id (bump r) = (fresh, r1)" by simp
  have i: "node_id n = fresh" using n(2,3) nokey by (simp add: pget_fill_props)
  have fresh: "map_of (nodes r) fresh = None" "nodes r1 = nodes r"
    using next_id_fresh [OF _ nx] ok by simp_all
  have none: "matching (map_of (nodes r)) kind identity = {}"
    using set_find_locked [OF ok, of kind identity] Nil by simp
  have "pget (node_props n) k = pget properties k" if "k \<in> set (keys properties)" for k
    using that dist has_key_iff [of properties k] by (simp add: n pget_fill_props pget_put_all has_key_put_all)
  moreover have "pget (node_props n) k = pget identity k"
    if "k \<in> set (keys identity) - set (keys properties)" for k
    using that dist has_key_iff [of properties k] has_key_iff [of identity k]
    by (simp add: n pget_fill_props pget_put_all has_key_put_all)
  ultimately show ?thesis using fresh none n(1) r' by (auto simp: i)
qed

interpretation mem: graph_repo mem_ops mem_ok "\<lambda>r. map_of (nodes r)"
proof (unfold_locales, goal_cases)
  case (1 r i n)
  then show ?case by (rule mem_okD(4))
next
  case (2 r kind filters ns r')
  then show ?case by (auto simp: mem_ops_def find_nodes_def set_find_locked sorted_find_locked)
next
  case (3 r kind filters)
  then show ?case by (simp add: mem_ops_def)
next
  case (4 r now kind identity properties n r')
  have up: "upsert_node now kind identity properties r = (Inr n, r')"
    using 4(2) by (simp add: mem_ops_def)
  have "mem_ok r'"
    using mem_ok_upsert_node [OF 4(1) no_id_brings_no_future_id [OF 4(5,6,3,4)], of now kind] up by simp
  with mem_upsert_contract [OF 4(1) up 4(3-6)] show ?case by simp
next
  case (5 r ids u r')
  then show ?case
    using mem_ok_remove_nodes [of r ids] map_of_remove_nodes [of ids r] by (simp add: mem_ops_def)
qed

section \<open>What the repository promises\<close>

lemma card_store: "distinct (keys m) \<Longrightarrow> card (dom (map_of m)) = length m"
  by (metis distinct_card dom_map_of_conv_image_fst length_map set_map)

lemma mem_ok_next: "mem_ok r \<Longrightarrow> gen_ids r (drawn r) \<notin> set (keys (nodes r)) \<union> set (keys (edges r))"
  by (auto simp: mem_ok_def future_def)

text \<open>
  Claim C1. Whatever sequence of upserts, links, batches and removals ran on a new in-memory
  repository, each node and each edge is stored once, under its own id, and the next id the
  repository draws is not in use.
\<close>

theorem memory_repository_invariant:
  assumes "mem_reach gen r" "inj gen"
  shows "distinct (map (node_id \<circ> snd) (nodes r)) \<and> distinct (map (edge_id \<circ> snd) (edges r)) \<and>
    list_all (\<lambda>(i, n). node_id n = i) (nodes r) \<and> list_all (\<lambda>(i, e). edge_id e = i) (edges r) \<and>
    fst (next_id r) \<notin> set (keys (nodes r)) \<union> set (keys (edges r))"
proof -
  have ok: "mem_ok r" using assms by (rule mem_reach_ok)
  then have eqs: "map (node_id \<circ> snd) (nodes r) = keys (nodes r)" "map (edge_id \<circ> snd) (edges r) = keys (edges r)"
    by (auto simp: mem_ok_def)
  show ?thesis
    using ok mem_ok_next [OF ok] unfolding eqs by (auto simp: mem_ok_def next_id_def list_all_iff)
qed

text \<open>A supply of ids for closed examples.\<close>

definition demo_ids :: "nat \<Rightarrow> string" where
  "demo_ids k = ''id'' @ nat_str k"

lemma inj_demo_ids: "inj demo_ids"
  by (rule injI) (simp add: demo_ids_def nat_str_inj)

lemma memory_repository_invariant_witness:
  "let r = snd (link ''CALLS'' ''a'' ''b'' None (snd (upsert_node ''now'' ''Function'' [(''name'', VStr ''f'')] []
         (new_memory_repo demo_ids))))
   in distinct (map (node_id \<circ> snd) (nodes r)) \<and> list_all (\<lambda>(i, e). edge_id e = i) (edges r)"
  unfolding Let_def
  using memory_repository_invariant [OF mem_reach.link [OF mem_reach.upsert [OF mem_reach.new
        no_id_brings_no_future_id]] inj_demo_ids, of "[(''name'', VStr ''f'')]" "[]"]
  by (simp add: has_key_def)

text \<open>
  A store in which every node lies under its own id: the first node a lookup returns is the
  least one that matches.
\<close>

definition keyed :: "node store \<Rightarrow> bool" where
  "keyed s \<longleftrightarrow> distinct (keys s) \<and> (\<forall>(i, n) \<in> set s. node_id n = i)"

lemma length_update_old: "k \<in> set (keys s) \<Longrightarrow> length (AList.update k v s) = length s"
  by (induction s) auto

lemma keyed_update:
  assumes "keyed s"
  shows "keyed (AList.update (node_id n) n s)"
proof -
  have dist: "distinct (keys s)" and ids: "\<And>i m. map_of s i = Some m \<Longrightarrow> node_id m = i"
    using assms by (auto simp: keyed_def dest: map_of_SomeD)
  have "distinct (keys (AList.update (node_id n) n s))" using dist by (simp add: distinct_update)
  moreover have "map_of (AList.update (node_id n) n s) i = Some m \<Longrightarrow> node_id m = i" for i m
    using ids by (auto split: if_splits)
  ultimately show ?thesis
    unfolding keyed_def by (blast dest: map_of_is_SomeI)
qed

lemma keyed_find_first:
  assumes keyed: "keyed (nodes r)" and n: "map_of (nodes r) (node_id n) = Some n" "node_matches kind identity n"
    and least: "\<And>i m. map_of (nodes r) i = Some m \<Longrightarrow> node_matches kind identity m \<Longrightarrow> node_id n \<le> node_id m"
  shows "\<exists>ns. find_nodes_locked kind identity r = n # ns"
proof -
  let ?L = "filter (node_matches kind identity) (map snd (nodes r))"
  have dist: "distinct (keys (nodes r))" using keyed by (simp add: keyed_def)
  have sorted: "sorted (map node_id (sort_key node_id ?L))" by simp
  have "n \<in> set ?L" using n map_of_SomeD [OF n(1)] by force
  then have n_in: "n \<in> set (sort_key node_id ?L)" by simp
  then obtain h t where ht: "sort_key node_id ?L = h # t" by (cases "sort_key node_id ?L") auto
  then have "h \<in> set (sort_key node_id ?L)" by simp
  then have "h \<in> set ?L" by simp
  then obtain i where i: "(i, h) \<in> set (nodes r)" "node_matches kind identity h" by auto
  then have at_h: "map_of (nodes r) i = Some h" "node_id h = i"
    using dist keyed by (auto simp: keyed_def map_of_eq_Some_iff)
  have "node_id h \<le> node_id n" using sorted n_in ht by auto
  with least [OF at_h(1) i(2)] have "node_id n = i" using at_h(2) by simp
  with n(1) at_h(1) have "n = h" by simp
  with ht show ?thesis by (simp add: find_nodes_locked_def)
qed

text \<open>
  An identity may bring any keys but the time of the last update (which every update of a node
  overwrites), and the properties may repeat keys of the identity with the same value.
\<close>

definition agrees :: "props \<Rightarrow> props \<Rightarrow> bool" where
  "agrees identity properties \<longleftrightarrow>
     list_all (\<lambda>k. has_key properties k \<longrightarrow> pget properties k = pget identity k) (keys identity)"

definition lookup_args :: "props \<Rightarrow> props \<Rightarrow> bool" where
  "lookup_args identity properties \<longleftrightarrow>
     distinct (keys identity) \<and> distinct (keys properties) \<and> nan_freem identity \<and>
     \<not> has_key identity ''updated_at'' \<and> agrees identity properties"

lemma lookup_argsD:
  assumes "lookup_args identity properties" "(k, v) \<in> set identity"
  shows "nan_free v" "pget identity k = v" "k \<noteq> ''updated_at''" "has_key identity k"
    "has_key properties k \<Longrightarrow> pget properties k = v"
proof -
  have d: "distinct (keys identity)" and nf: "nan_freem identity" and st: "\<not> has_key identity ''updated_at''"
    and ag: "agrees identity properties"
    using assms(1) by (simp_all add: lookup_args_def)
  show "nan_free v" using nf assms(2) by (auto simp: nan_freem_iff)
  show get: "pget identity k = v" using map_of_is_SomeI [OF d assms(2)] by (simp add: pget_def)
  have k: "k \<in> set (keys identity)" using assms(2) by force
  then show "has_key identity k" by (simp add: has_key_iff)
  with st show "k \<noteq> ''updated_at''" by auto
  show "has_key properties k \<Longrightarrow> pget properties k = v"
    using ag k get by (auto simp: agrees_def list_all_iff)
qed

lemma upsert_locked_first:
  assumes ok: "mem_ok r" and args: "lookup_args identity properties"
    and up: "upsert_locked now kind identity properties r = (Inr n, r1)"
  shows "keyed (nodes r1)" "map_of (nodes r1) (node_id n) = Some n"
    "\<exists>ns. find_nodes_locked kind identity r1 = n # ns"
proof -
  have keyed: "keyed (nodes r)" using ok by (auto simp: keyed_def mem_ok_def)
  have dist: "distinct (keys properties)" "distinct (keys identity)"
    using args by (simp_all add: lookup_args_def)
  note arg = lookup_argsD [OF args]
  have *: "keyed (nodes r1) \<and> map_of (nodes r1) (node_id n) = Some n \<and>
    node_matches kind identity n \<and>
    (\<forall>i m. map_of (nodes r1) i = Some m \<and> node_matches kind identity m \<longrightarrow> node_id n \<le> node_id m)"
  proof (cases "find_nodes_locked kind identity r")
    case (Cons old ns)
    from up have n: "n = touched now properties old"
      and r1: "r1 = r\<lparr>nodes := AList.update (node_id old) n (nodes r)\<rparr>"
      unfolding upsert_locked_old [OF Cons] by auto
    have old: "node_matches kind identity old"
      using set_find_locked [OF ok, of kind identity] Cons by (auto simp: matching_def)
    have least: "node_id old \<le> node_id m" if "map_of (nodes r) i = Some m" "node_matches kind identity m" for i m
    proof -
      have "m \<in> set (old # ns)" using that set_find_locked [OF ok, of kind identity] Cons by (auto simp: matching_def)
      with sorted_find_locked [OF ok, of kind identity] Cons show ?thesis by auto
    qed
    have "pget (node_props n) k = v" if kv: "(k, v) \<in> set identity" for k v
    proof -
      have "pget (node_props old) k = v" using old kv unfolding node_matches_iff by auto
      with arg(3,5) [OF kv] dist(1) show ?thesis by (simp add: n)
    qed
    moreover have "kind = [] \<or> node_kind n = kind" using old by (simp add: n node_matches_def)
    ultimately have "node_matches kind identity n"
      using arg(1) unfolding node_matches_iff by auto
    moreover have "keyed (nodes r1)" using keyed_update [OF keyed, of n] by (simp add: r1 n)
    ultimately show ?thesis using least by (auto simp: r1 n split: if_splits)
  next
    case Nil
    let ?ps = "put_all properties (put_all identity [])"
    from upsert_locked_new [OF Nil up] obtain fresh r0 where
      nx: "(if has_key ?ps ''id'' then ([], r) else next_id r) = (fresh, r0)"
      and n: "node_kind n = kind" "node_props n = fill_props now fresh identity ?ps"
      and r1: "r1 = r0\<lparr>nodes := AList.update (node_id n) n (nodes r0)\<rparr>" by blast
    have r0: "nodes r0 = nodes r" using nx by (auto simp: next_id_def split: if_splits)
    have none: "\<not> node_matches kind identity m" if "map_of (nodes r) i = Some m" for i m
      using that set_find_locked [OF ok, of kind identity] Nil by (auto simp: matching_def)
    have "pget (node_props n) k = v" if kv: "(k, v) \<in> set identity" for k v
      using arg [OF kv] dist by (auto simp: n pget_fill_props pget_put_all has_key_put_all)
    then have "node_matches kind identity n"
      using arg(1) n(1) unfolding node_matches_iff by auto
    moreover have "keyed (nodes r1)" using keyed_update [OF keyed, of n] by (simp add: r1 r0)
    ultimately show ?thesis using none by (auto simp: r1 r0 split: if_splits)
  qed
  then show "keyed (nodes r1)" "map_of (nodes r1) (node_id n) = Some n" by blast+
  from * show "\<exists>ns. find_nodes_locked kind identity r1 = n # ns"
    by (intro keyed_find_first) auto
qed

lemma upsert_node_locked:
  assumes "upsert_node now kind identity properties r = (Inr n, r')"
  shows "upsert_locked now kind identity properties (bump r) = (Inr n, r')"
  using assms by (auto simp: upsert_node_def split: sum.splits)

text \<open>
  Claim C2. After \<open>UpsertNode\<close> a lookup by the same identity returns the written node first,
  and a further upsert of that identity, with whatever properties (an id, keys of the identity
  or time stamps among them), writes the same node and leaves the number of nodes as it is. The
  identity may bring an id, as callers of the repository do, and the first upsert's properties
  may repeat keys of the identity with the same values. What is assumed: the two arguments of
  the first upsert are maps without double keys, no value of the identity is or holds a NaN
  (such a value equals nothing, itself included), the identity has no \<open>updated_at\<close> (every update
  overwrites it), and the properties of the first upsert do not give a key of the identity
  another value (then the written node no longer has that identity).
\<close>

theorem memory_upsert_idempotent:
  assumes ok: "mem_ok r"
    and maps: "distinct (keys identity)" "distinct (keys properties)"
    and identity: "nan_freem identity" "\<not> has_key identity ''updated_at''"
    and agree: "list_all (\<lambda>k. has_key properties k \<longrightarrow> pget properties k = pget identity k) (keys identity)"
    and up: "upsert_node now kind identity properties r = (Inr n, r1)"
    and again: "upsert_node now' kind identity properties' r1 = (Inr n', r2)"
  shows "(\<exists>ns. find_nodes kind identity r1 = Inr (n # ns)) \<and> node_id n' = node_id n \<and>
    node_count r2 = node_count r1"
proof -
  have args: "lookup_args identity properties"
    using maps identity agree by (simp add: lookup_args_def agrees_def)
  have "mem_ok (bump r)" using ok by simp
  note first = upsert_locked_first [OF this args upsert_node_locked [OF up]]
  then obtain ns where ns: "find_nodes_locked kind identity r1 = n # ns" by blast
  then have "find_nodes_locked kind identity (bump r1) = n # ns" by simp
  from upsert_locked_old [OF this, of now' properties'] upsert_node_locked [OF again]
  have "n' = touched now' properties' n" "nodes r2 = AList.update (node_id n) n' (nodes r1)" by auto
  moreover have "node_id n \<in> set (keys (nodes r1))" using first(2) by (force dest: map_of_SomeD)
  ultimately show ?thesis
    using ns by (simp add: find_nodes_def node_count_def length_update_old)
qed

text \<open>The witness: an identity with an id of the caller's, and properties that repeat and later change a key of it.\<close>

lemma memory_upsert_idempotent_witness:
  "case upsert_node ''t1'' ''Function'' [(''id'', VStr ''n7''), (''name'', VStr ''f'')]
          [(''name'', VStr ''f''), (''line'', VInt 3)] (new_memory_repo demo_ids) of
     (Inr n, r1) \<Rightarrow>
       (case upsert_node ''t2'' ''Function'' [(''id'', VStr ''n7''), (''name'', VStr ''f'')]
               [(''name'', VStr ''g'')] r1 of
          (Inr n', r2) \<Rightarrow> node_id n' = node_id n \<and> node_count r2 = node_count r1
        | _ \<Rightarrow> False)
   | _ \<Rightarrow> False"
proof -
  let ?i = "[(''id'', VStr ''n7''), (''name'', VStr ''f'')]"
  let ?p = "[(''name'', VStr ''f''), (''line'', VInt 3)]" and ?p' = "[(''name'', VStr ''g'')]"
  let ?up = "upsert_node ''t1'' ''Function'' ?i ?p (new_memory_repo demo_ids)"
  let ?up2 = "upsert_node ''t2'' ''Function'' ?i ?p' (snd ?up)"
  have "is_ok (fst ?up)" "is_ok (fst ?up2)" by code_simp+
  then obtain n r1 n' r2 where up: "?up = (Inr n, r1)"
    and up2: "upsert_node ''t2'' ''Function'' ?i ?p' r1 = (Inr n', r2)"
    by (cases ?up; cases ?up2) (auto simp: is_ok_def split: sum.splits)
  have "distinct (keys ?i)" "distinct (keys ?p)" "nan_freem ?i" "\<not> has_key ?i ''updated_at''"
    "list_all (\<lambda>k. has_key ?p k \<longrightarrow> pget ?p k = pget ?i k) (keys ?i)"
    by code_simp+
  from memory_upsert_idempotent [OF mem_ok_new [OF inj_demo_ids] this up up2] up up2
  show ?thesis by simp
qed

lemma link_ok_cases:
  assumes "mem_ok r" "kind_ok kind" "link kind from to properties r = (res, r')"
  obtains (old) e where "res = Inr e" "edges r' = edges r"
      "find (same_edge kind from to properties) (map snd (edges r)) = Some e"
  | (new) e where "res = Inr e" "map_of (edges r') = (map_of (edges r))(edge_id e \<mapsto> e)"
      "map_of (edges r) (edge_id e) = None" "e = new_edge (edge_id e) kind from to properties"
      "find (same_edge kind from to properties) (map snd (edges r)) = None"
proof (cases "find (same_edge kind from to properties) (map snd (edges r))")
  case (Some e)
  with assms that(1) show ?thesis by (auto simp: link_def Let_def)
next
  case None
  obtain e r1 where add: "add_edge kind from to properties (bump r) = (e, r1)"
    by (cases "add_edge kind from to properties (bump r)")
  then have "res = Inr e" "r' = r1" using assms(2,3) None by (auto simp: link_def Let_def)
  with add_edge_ok(3,4,6) [OF _ add] assms(1) None that(2) show ?thesis by simp
qed

lemma link_finds_equal:
  assumes "mem_ok r" "kind_ok kind" "link kind from to (Some m) r = (Inr e, r1)" "nan_freem m"
  shows "\<exists>i e. map_of (edges r1) i = Some e \<and> same_edge kind from to (Some m) e"
  using assms(1-3)
proof (cases rule: link_ok_cases)
  case (old e')
  then have "e' \<in> snd ` set (edges r)" "same_edge kind from to (Some m) e'"
    by (auto simp: find_Some_iff)
  with old(2) mem_okD(2) [OF assms(1)] show ?thesis by (force simp: map_of_eq_Some_iff)
next
  case (new e')
  have "same_edge kind from to (Some m) e'"
    using assms(4) by (subst new(4)) (simp add: new_edge_def same_edge_def)
  with new(2) show ?thesis by auto
qed

text \<open>
  Claim C3. \<open>Link\<close> does not add a second equal edge when its properties are given and free of
  \<open>NaN\<close>; with nil properties it adds an edge on every call, because \<open>NewEdge\<close> stores an
  empty map and the equality test compares that with nil.
\<close>

theorem memory_link_again:
  assumes ok: "mem_ok r" and kind: "kind_ok kind"
    and first: "link kind from to properties r = (Inr e, r1)"
    and again: "link kind from to properties r1 = (Inr e', r2)"
  shows "(\<forall>m. properties = Some m \<and> nan_freem m \<longrightarrow> edges r2 = edges r1) \<and>
    (properties = None \<longrightarrow> edge_count r2 = Suc (edge_count r1))"
proof (intro conjI allI impI)
  have ok1: "mem_ok r1" and ok2: "mem_ok r2"
    using mem_ok_link [OF ok, of kind "from" to properties] mem_ok_link [of r1 kind "from" to properties]
      first again by simp_all
  note step = link_ok_cases [OF ok1 kind again]
  show "edges r2 = edges r1" if m: "properties = Some m \<and> nan_freem m" for m
  proof -
    obtain i e0 where "map_of (edges r1) i = Some e0" "same_edge kind from to (Some m) e0"
      using link_finds_equal [OF ok kind] first m by blast
    then have "find (same_edge kind from to properties) (map snd (edges r1)) \<noteq> None"
      using m by (auto simp: find_None_iff dest!: map_of_SomeD intro: bexI [of _ "(i, e0)"])
    with step show ?thesis by metis
  qed
  show "edge_count r2 = Suc (edge_count r1)" if nil: "properties = None"
  proof -
    have "\<not> same_edge kind from to properties e0" if "(i, e0) \<in> set (edges r1)" for i e0
      using mem_okD(9) [OF ok1 map_of_is_SomeI [OF mem_okD(2) [OF ok1] that]] nil
      by (simp add: same_edge_def)
    then have none: "find (same_edge kind from to properties) (map snd (edges r1)) = None"
      by (auto simp: find_None_iff)
    from ok1 kind again show ?thesis
    proof (cases rule: link_ok_cases)
      case (new e0)
      then have "dom (map_of (edges r2)) = insert (edge_id e0) (dom (map_of (edges r1)))" by simp
      with new(3) mem_okD(2) [OF ok1] mem_okD(2) [OF ok2] show ?thesis
        by (auto simp: edge_count_def finite_dom_map_of card_insert_if simp flip: card_store)
    qed (use none in simp)
  qed
qed

lemma memory_link_again_witness:
  "(let r1 = snd (link ''CALLS'' ''a'' ''b'' None (new_memory_repo demo_ids))
    in edge_count (snd (link ''CALLS'' ''a'' ''b'' None r1)) = Suc (edge_count r1)) \<and> edge_count
       (snd (link ''CALLS'' ''a'' ''b'' None (new_memory_repo demo_ids))) = 1"
proof -
  let ?l = "link ''CALLS'' ''a'' ''b'' None (new_memory_repo demo_ids)"
  let ?l2 = "link ''CALLS'' ''a'' ''b'' None (snd ?l)"
  have ok: "is_ok (fst ?l)" "is_ok (fst ?l2)" "kind_ok ''CALLS''" "edge_count (snd ?l) = 1"
    by code_simp+
  from ok(1,2) obtain e r1 e' r2 where l: "?l = (Inr e, r1)"
    and l2: "link ''CALLS'' ''a'' ''b'' None r1 = (Inr e', r2)"
    by (cases ?l; cases ?l2) (auto simp: is_ok_def split: sum.splits)
  with ok memory_link_again [OF mem_ok_new [OF inj_demo_ids] ok(3) l l2] show ?thesis by simp
qed

lemma edge_neighbors_removed:
  "edge_from e \<notin> set ids \<Longrightarrow> edge_to e \<notin> set ids \<Longrightarrow>
   edge_neighbors (filter (\<lambda>(i, _). i \<notin> set ids) ns) i dir e = edge_neighbors ns i dir e"
  using map_of_filter_keys [where P = "\<lambda>k. k \<notin> set ids" and m = ns]
  by (auto simp: edge_neighbors_def far_ends_def split: direction.splits)

lemma edge_neighbors_edge: "x \<in> set (edge_neighbors ns i dir e) \<Longrightarrow> fst x = e"
  by (auto simp: edge_neighbors_def split: option.splits)

lemma filter_edge_neighbors:
  "filter (\<lambda>(e, _). P e) (edge_neighbors ns i dir e) = (if P e then edge_neighbors ns i dir e else [])"
  by (auto simp: filter_id_conv filter_empty_conv dest: edge_neighbors_edge)

lemma neighbors_remove_nodes:
  "neighbors i kind dir (snd (remove_nodes ids r)) =
     map_sum id (filter (\<lambda>(e, _). edge_from e \<notin> set ids \<and> edge_to e \<notin> set ids)) (neighbors i kind dir r)"
proof -
  let ?keep = "\<lambda>e. edge_from e \<notin> set ids \<and> edge_to e \<notin> set ids"
  let ?ns = "filter (\<lambda>(i, _). i \<notin> set ids) (nodes r)"
  let ?pairs = "\<lambda>ns. \<lambda>(_, e). if kind \<noteq> [] \<and> edge_kind e \<noteq> kind then [] else edge_neighbors ns i dir e"
  have "concat (map (?pairs ?ns) (filter (\<lambda>(_, e). \<not> (edge_from e \<in> set ids \<or> edge_to e \<in> set ids)) es))
    = filter (\<lambda>(e, _). ?keep e) (concat (map (?pairs (nodes r)) es))" for es :: "edge store"
    by (induction es)
      (auto simp: filter_edge_neighbors [where P = ?keep] edge_neighbors_removed split: if_splits)
  then show ?thesis by (simp add: neighbors_def remove_nodes_def Let_def cong: if_cong)
qed

lemma find_remove_nodes:
  assumes "mem_ok r"
  shows "find_nodes kind filters (snd (remove_nodes ids r)) =
    map_sum id (filter (\<lambda>n. node_id n \<notin> set ids)) (find_nodes kind filters r)"
proof -
  have "list_all (\<lambda>(i, n). node_id n = i) (nodes r)"
    using assms by (auto simp: mem_ok_def list_all_iff)
  then have "map snd (filter (\<lambda>(i, _). i \<notin> set ids) (nodes r)) =
      filter (\<lambda>n. node_id n \<notin> set ids) (map snd (nodes r))"
    by (induction "nodes r" rule: list.induct) (auto simp: list_all_iff filter_map o_def intro!: arg_cong [where f = "map snd"] filter_cong)
  then show ?thesis
    by (simp add: find_nodes_def find_nodes_locked_def remove_nodes_def Let_def filter_sort conj_commute)
qed

text \<open>
  Claim C4. \<open>RemoveNodes\<close> takes away the named nodes and every edge that touches one, and
  nothing else: afterwards any \<open>FindNodes\<close> call lists what it listed before without the
  removed nodes, and any \<open>Neighbors\<close> call what it listed before without the pairs whose edge
  starts or ends at a removed node, in the same order.
\<close>

theorem memory_remove_nodes_exact:
  assumes "mem_ok r"
  shows "find_nodes kind filters (snd (remove_nodes ids r)) =
      map_sum id (filter (\<lambda>n. node_id n \<notin> set ids)) (find_nodes kind filters r) \<and>
    neighbors i kind dir (snd (remove_nodes ids r)) =
      map_sum id (filter (\<lambda>(e, _). edge_from e \<notin> set ids \<and> edge_to e \<notin> set ids))
        (neighbors i kind dir r)"
  using assms by (simp add: find_remove_nodes neighbors_remove_nodes)

definition demo_repo :: mem_repo where
  "demo_repo =
     (let r = new_memory_repo demo_ids;
          r = snd (upsert_node ''t'' ''Function'' [(''name'', VStr ''f'')] [] r);
          r = snd (upsert_node ''t'' ''Function'' [(''name'', VStr ''g'')] [] r)
      in snd (link ''CALLS'' ''id0'' ''id1'' (Some []) r))"

lemma demo_repo_ok: "mem_ok demo_repo"
  unfolding demo_repo_def Let_def
  by (intro preserves inj_demo_ids no_id_brings_no_future_id) (simp_all add: has_key_def)

lemma memory_remove_nodes_exact_witness:
  "find_nodes ''Function'' [] (snd (remove_nodes [''id1''] demo_repo)) =
     map_sum id (filter (\<lambda>n. node_id n \<notin> {''id1''})) (find_nodes ''Function'' [] demo_repo)"
  using memory_remove_nodes_exact [OF demo_repo_ok, of "''Function''" "[]" "[''id1'']"] by simp

lemma length_update_new: "map_of m k = None \<Longrightarrow> length (AList.update k v m) = Suc (length m)"
  by (induction m) (auto split: if_splits)

lemma edge_count_add_edge:
  assumes "mem_ok r" "add_edge kind from to properties r = (e, r')"
  shows "length (edges r') = Suc (length (edges r))"
  using assms next_id_fresh(4,7) [OF assms(1)]
  by (auto simp: add_edge_def Let_def length_update_new split: prod.splits)

text \<open>
  \<open>LinkBatch\<close> adds one edge for every item of a valid kind, also when an equal edge
  exists already (then the equal edges are reported besides the new one): the batch call is
  not idempotent, unlike \<open>Link\<close>.
\<close>

theorem memory_link_batch_adds_all:
  assumes "mem_ok r"
  shows "edge_count (snd (link_batch items r)) =
    edge_count r + length (filter (\<lambda>it. kind_ok (item_kind it)) items)"
proof -
  have "length (edges (snd (link_items items r))) =
      length (edges r) + length (filter (\<lambda>it. kind_ok (item_kind it)) items)" if "mem_ok r" for r
    using that
  proof (induction items r rule: link_items.induct)
    case (2 it its r)
    then show ?case
      using add_edge_ok(1) [OF 2(3)] edge_count_add_edge [OF 2(3)]
      by (auto simp: Let_def split: prod.splits)
  qed simp
  from this [of "bump r"] assms show ?thesis
    by (auto simp: link_batch_def edge_count_def split: prod.splits)
qed

lemma memory_link_batch_adds_all_witness:
  "edge_count (snd (link_batch [\<lparr>item_kind = ''CALLS'', item_from = ''id0'', item_to = ''id1'',
     item_props = Some []\<rparr>] demo_repo)) = 2"
proof -
  have "edge_count demo_repo = 1" "kind_ok ''CALLS''" by code_simp+
  then show ?thesis by (simp add: memory_link_batch_adds_all [OF demo_repo_ok])
qed

end
