(* ===== verification/GraphCache.thy ===== *)
theory GraphCache
  imports GraphModel
begin

text \<open>
  The read cache of the persistent repository, \<open>persistentCache\<close> of
  \<open>internal/graph/persistent.go\<close>. The code keeps the same least-recently-used structure
  twice, for nodes and for edges: a map and a slice of the keys in order of use. Here it is
  one record, and \<open>pcache\<close> holds one for nodes and one for edges. It refines a bounded list
  of entries in order of use.
\<close>

section \<open>One least-recently-used store\<close>

record 'a lru =
  lru_entries :: "'a store"
  use_order :: "string list"
  lru_limit :: int

definition new_lru :: "int \<Rightarrow> int \<Rightarrow> 'a lru" where
  "new_lru fallback n = \<lparr>lru_entries = [], use_order = [], lru_limit = (if n \<le> 0 then fallback else n)\<rparr>"

text \<open>The loop moves the first occurrence of the key to the end of the slice.\<close>

definition promote :: "string \<Rightarrow> 'a lru \<Rightarrow> 'a lru" where
  "promote i c = (if i \<in> set (use_order c) then c\<lparr>use_order := remove1 i (use_order c) @ [i]\<rparr> else c)"

definition evict_oldest :: "'a lru \<Rightarrow> 'a lru" where
  "evict_oldest c =
     (case use_order c of
        [] \<Rightarrow> c
      | i # is \<Rightarrow> c\<lparr>use_order := is, lru_entries := AList.delete i (lru_entries c)\<rparr>)"

definition lru_get :: "string \<Rightarrow> 'a lru \<Rightarrow> 'a option \<times> 'a lru" where
  "lru_get i c =
     (case map_of (lru_entries c) i of
        None \<Rightarrow> (None, c)
      | Some v \<Rightarrow> (Some v, promote i c))"

definition lru_put :: "string \<Rightarrow> 'a \<Rightarrow> 'a lru \<Rightarrow> 'a lru" where
  "lru_put i v c =
     (if lru_limit c \<le> 0 then c
      else if map_of (lru_entries c) i \<noteq> None then
        (let c = promote i c in c\<lparr>lru_entries := AList.update i v (lru_entries c)\<rparr>)
      else
        (let c = (if lru_limit c \<le> int (length (lru_entries c)) then evict_oldest c else c)
         in c\<lparr>lru_entries := AList.update i v (lru_entries c), use_order := use_order c @ [i]\<rparr>))"

definition lru_remove :: "string \<Rightarrow> 'a lru \<Rightarrow> 'a lru" where
  "lru_remove i c = c\<lparr>lru_entries := AList.delete i (lru_entries c), use_order := remove1 i (use_order c)\<rparr>"

definition lru_clear :: "'a lru \<Rightarrow> 'a lru" where
  "lru_clear c = c\<lparr>lru_entries := [], use_order := []\<rparr>"

section \<open>Nodes and edges\<close>

record pcache =
  node_lru :: "node lru"
  edge_lru :: "edge lru"

definition default_cache_nodes :: int where "default_cache_nodes = 1024"
definition default_cache_edges :: int where "default_cache_edges = 1024"

definition new_pcache :: "int \<Rightarrow> int \<Rightarrow> pcache" where
  "new_pcache max_nodes max_edges =
     \<lparr>node_lru = new_lru default_cache_nodes max_nodes,
      edge_lru = new_lru default_cache_edges max_edges\<rparr>"

text \<open>
  \<open>cloneNode\<close> copies the map, which is the identity on values; \<open>cloneEdge\<close> also turns nil
  properties into an empty map. \<open>cloneMap\<close> keeps nil and is the identity.
\<close>

definition clone_node :: "node \<Rightarrow> node" where
  "clone_node n = \<lparr>node_id = node_id n, node_kind = node_kind n, node_props = node_props n\<rparr>"

definition clone_edge :: "edge \<Rightarrow> edge" where
  "clone_edge e = e\<lparr>edge_props := (case edge_props e of None \<Rightarrow> Some [] | Some m \<Rightarrow> Some m)\<rparr>"

definition clone_map :: "props option \<Rightarrow> props option" where
  "clone_map m = m"

definition cache_get_node :: "string \<Rightarrow> pcache \<Rightarrow> node option \<times> pcache" where
  "cache_get_node i c = (case lru_get i (node_lru c) of
     (v, l) \<Rightarrow> (map_option clone_node v, c\<lparr>node_lru := l\<rparr>))"

definition cache_put_node :: "node \<Rightarrow> pcache \<Rightarrow> pcache" where
  "cache_put_node n c = c\<lparr>node_lru := lru_put (node_id n) (clone_node n) (node_lru c)\<rparr>"

definition cache_remove_node :: "string \<Rightarrow> pcache \<Rightarrow> pcache" where
  "cache_remove_node i c = c\<lparr>node_lru := lru_remove i (node_lru c)\<rparr>"

definition cache_get_edge :: "string \<Rightarrow> pcache \<Rightarrow> edge option \<times> pcache" where
  "cache_get_edge i c = (case lru_get i (edge_lru c) of
     (v, l) \<Rightarrow> (map_option clone_edge v, c\<lparr>edge_lru := l\<rparr>))"

definition cache_put_edge :: "edge \<Rightarrow> pcache \<Rightarrow> pcache" where
  "cache_put_edge e c = c\<lparr>edge_lru := lru_put (edge_id e) (clone_edge e) (edge_lru c)\<rparr>"

definition cache_remove_edge :: "string \<Rightarrow> pcache \<Rightarrow> pcache" where
  "cache_remove_edge i c = c\<lparr>edge_lru := lru_remove i (edge_lru c)\<rparr>"

definition cache_clear :: "pcache \<Rightarrow> pcache" where
  "cache_clear c = c\<lparr>node_lru := lru_clear (node_lru c), edge_lru := lru_clear (edge_lru c)\<rparr>"

definition cache_node_count :: "pcache \<Rightarrow> nat" where
  "cache_node_count c = length (lru_entries (node_lru c))"

definition cache_edge_count :: "pcache \<Rightarrow> nat" where
  "cache_edge_count c = length (lru_entries (edge_lru c))"

section \<open>The invariant\<close>

definition lru_ok :: "'a lru \<Rightarrow> bool" where
  "lru_ok c \<longleftrightarrow> 0 < lru_limit c \<and> distinct (use_order c) \<and> distinct (keys (lru_entries c)) \<and>
     set (use_order c) = set (keys (lru_entries c)) \<and> int (length (use_order c)) \<le> lru_limit c"

lemma lru_ok_lengths: "lru_ok c \<Longrightarrow> length (lru_entries c) = length (use_order c)"
  unfolding lru_ok_def by (metis distinct_card length_map)

lemma lru_okD:
  assumes "lru_ok c"
  shows "0 < lru_limit c" "distinct (use_order c)" "distinct (keys (lru_entries c))"
    "\<And>i. i \<in> set (use_order c) \<longleftrightarrow> map_of (lru_entries c) i \<noteq> None" "int (length (use_order c)) \<le> lru_limit c"
  using assms by (auto simp: lru_ok_def map_of_eq_None_iff)

lemma lru_ok_new [simp, preserves]: "0 < fallback \<Longrightarrow> lru_ok (new_lru fallback n)"
  by (simp add: lru_ok_def new_lru_def)

lemma promote_simps [simp]:
  "lru_entries (promote i c) = lru_entries c" "lru_limit (promote i c) = lru_limit c"
  "length (use_order (promote i c)) = length (use_order c)" "set (use_order (promote i c)) = set (use_order c)"
  by (auto simp: promote_def length_remove1 dest: length_pos_if_in_set
      notin_set_remove1 in_set_remove1 [THEN iffD1, rotated])
     (metis in_set_remove1)

lemma lru_ok_promote [simp, preserves]: "lru_ok c \<Longrightarrow> lru_ok (promote i c)"
  by (auto simp: lru_ok_def) (auto simp: promote_def)

lemma lru_ok_get [preserves]: "lru_ok c \<Longrightarrow> lru_ok (snd (lru_get i c))"
  by (auto simp: lru_get_def split: option.splits)

lemma set_keys_delete: "set (keys (AList.delete i m)) = set (keys m) - {i}"
  by (auto simp: AList.delete_eq)

lemma set_keys_update: "set (keys (AList.update i v m)) = insert i (set (keys m))"
  by (auto simp: update_keys)

lemma remove1_order: "distinct xs \<Longrightarrow> remove1 i xs = filter (\<lambda>j. j \<noteq> i) xs"
  by (auto simp: distinct_remove1_removeAll removeAll_filter_not_eq intro: filter_cong)

lemma lru_ok_evict:
  assumes "lru_ok c" "use_order c = j # js"
  shows "distinct js" "set js = set (keys (AList.delete j (lru_entries c)))"
    "distinct (keys (AList.delete j (lru_entries c)))"
  using assms set_keys_delete [of j "lru_entries c"] by (auto simp: lru_ok_def)

lemma lru_ok_put [preserves]:
  assumes ok: "lru_ok c"
  shows "lru_ok (lru_put i v c)"
proof (cases "map_of (lru_entries c) i")
  case None
  have pos: "0 < lru_limit c" using ok by (simp add: lru_ok_def)
  have i: "i \<notin> set (use_order c)" using None lru_okD(4) [OF ok, of i] by simp
  show ?thesis
  proof (cases "lru_limit c \<le> int (length (lru_entries c))")
    case True
    with pos lru_ok_lengths [OF ok] obtain j js where js: "use_order c = j # js"
      by (cases "use_order c") auto
    note ev = lru_ok_evict [OF ok js]
    have "lru_put i v c = c\<lparr>lru_entries := AList.update i v (AList.delete j (lru_entries c)), use_order := js @ [i]\<rparr>"
      using pos None True js by (simp add: lru_put_def evict_oldest_def Let_def)
    with ev i js ok show ?thesis
      using set_keys_update [of i v "AList.delete j (lru_entries c)"] by (simp add: lru_ok_def)
  next
    case False
    then have "lru_put i v c = c\<lparr>lru_entries := AList.update i v (lru_entries c), use_order := use_order c @ [i]\<rparr>"
      using pos None by (simp add: lru_put_def Let_def)
    with False i ok lru_ok_lengths [OF ok] show ?thesis
      using set_keys_update [of i v "lru_entries c"] by (simp add: lru_ok_def)
  qed
next
  case (Some w)
  then have "lru_put i v c = (promote i c)\<lparr>lru_entries := AList.update i v (lru_entries c)\<rparr>"
    using ok by (simp add: lru_put_def Let_def lru_ok_def)
  moreover have "lru_ok (promote i c)" using ok by simp
  moreover have "set (keys (AList.update i v (lru_entries c))) = set (keys (lru_entries c))"
    using Some set_keys_update [of i v "lru_entries c"] map_of_eq_None_iff [of "lru_entries c" i] by auto
  ultimately show ?thesis by (simp add: lru_ok_def)
qed

lemma lru_ok_remove [preserves]: "lru_ok c \<Longrightarrow> lru_ok (lru_remove i c)"
  using set_keys_delete [of i "lru_entries c"]
  by (auto simp: lru_ok_def lru_remove_def length_remove1)

lemma lru_ok_clear [simp, preserves]: "lru_ok c \<Longrightarrow> lru_ok (lru_clear c)"
  by (simp add: lru_ok_def lru_clear_def)

definition pcache_ok :: "pcache \<Rightarrow> bool" where
  "pcache_ok c \<longleftrightarrow> lru_ok (node_lru c) \<and> lru_ok (edge_lru c)"

lemma pcache_ok_ops [preserves]:
  "pcache_ok (new_pcache m n)"
  "pcache_ok c \<Longrightarrow> pcache_ok (snd (cache_get_node i c))"
  "pcache_ok c \<Longrightarrow> pcache_ok (snd (cache_get_edge i c))"
  "pcache_ok c \<Longrightarrow> pcache_ok (cache_put_node nd c)"
  "pcache_ok c \<Longrightarrow> pcache_ok (cache_put_edge e c)"
  "pcache_ok c \<Longrightarrow> pcache_ok (cache_remove_node i c)"
  "pcache_ok c \<Longrightarrow> pcache_ok (cache_remove_edge i c)"
  "pcache_ok c \<Longrightarrow> pcache_ok (cache_clear c)"
  using lru_ok_get [of "node_lru c" i] lru_ok_get [of "edge_lru c" i]
  by (auto simp: pcache_ok_def new_pcache_def default_cache_nodes_def default_cache_edges_def
      cache_get_node_def cache_get_edge_def cache_put_node_def cache_put_edge_def
      cache_remove_node_def cache_remove_edge_def cache_clear_def lru_ok_put lru_ok_remove
      split: prod.splits)

section \<open>The list it stands for\<close>

text \<open>Entries in order of use, the least recently used first.\<close>

definition used :: "'a lru \<Rightarrow> 'a store" where
  "used c = map (\<lambda>i. (i, the (map_of (lru_entries c) i))) (use_order c)"

definition spec_get :: "string \<Rightarrow> 'a store \<Rightarrow> 'a option \<times> 'a store" where
  "spec_get i xs =
     (case map_of xs i of
        None \<Rightarrow> (None, xs)
      | Some v \<Rightarrow> (Some v, filter (\<lambda>(j, _). j \<noteq> i) xs @ [(i, v)]))"

definition spec_put :: "nat \<Rightarrow> string \<Rightarrow> 'a \<Rightarrow> 'a store \<Rightarrow> 'a store" where
  "spec_put n i v xs =
     (if map_of xs i \<noteq> None then filter (\<lambda>(j, _). j \<noteq> i) xs @ [(i, v)]
      else drop (Suc (length xs) - n) xs @ [(i, v)])"

definition spec_remove :: "string \<Rightarrow> 'a store \<Rightarrow> 'a store" where
  "spec_remove i xs = filter (\<lambda>(j, _). j \<noteq> i) xs"

lemma map_of_used: "lru_ok c \<Longrightarrow> map_of (used c) i = map_of (lru_entries c) i"
  using lru_okD(4) [of c i]
  by (cases "i \<in> set (use_order c)") (auto simp: used_def map_of_map_restrict restrict_map_def)

lemma used_filter:
  "distinct (use_order c) \<Longrightarrow>
   filter (\<lambda>(j, _). j \<noteq> i) (used c) = map (\<lambda>j. (j, the (map_of (lru_entries c) j))) (remove1 i (use_order c))"
  by (simp add: used_def filter_map o_def remove1_order)

lemma used_promote:
  "lru_ok c \<Longrightarrow> map_of (lru_entries c) i = Some v \<Longrightarrow>
   used (promote i c) = filter (\<lambda>(j, _). j \<noteq> i) (used c) @ [(i, v)]"
  using lru_okD(4) [of c i] by (simp add: used_filter lru_okD(2)) (simp add: used_def promote_def)

lemma used_get: "lru_ok c \<Longrightarrow> map_prod id used (lru_get i c) = spec_get i (used c)"
  by (auto simp: lru_get_def spec_get_def map_of_used used_promote split: option.splits)

lemma used_remove: "lru_ok c \<Longrightarrow> used (lru_remove i c) = spec_remove i (used c)"
  by (auto simp: lru_remove_def spec_remove_def used_filter lru_okD(2))
    (auto simp: used_def lru_okD(2) remove1_order)

lemma used_put:
  assumes ok: "lru_ok c"
  shows "used (lru_put i v c) = spec_put (nat (lru_limit c)) i v (used c)"
proof (cases "map_of (lru_entries c) i")
  case None
  have pos: "0 < lru_limit c" using ok by (simp add: lru_ok_def)
  have i: "i \<notin> set (use_order c)" using None lru_okD(4) [OF ok, of i] by simp
  have len: "length (lru_entries c) = length (use_order c)" "length (used c) = length (use_order c)"
    using ok by (simp_all add: lru_ok_lengths used_def)
  show ?thesis
  proof (cases "lru_limit c \<le> int (length (lru_entries c))")
    case True
    with pos len obtain j js where js: "use_order c = j # js" by (cases "use_order c") auto
    have "lru_put i v c = c\<lparr>lru_entries := AList.update i v (AList.delete j (lru_entries c)), use_order := js @ [i]\<rparr>"
      using pos None True js by (simp add: lru_put_def evict_oldest_def Let_def)
    moreover have "Suc (length (used c)) - nat (lru_limit c) = 1"
      using True len lru_okD(5) [OF ok] pos by simp
    ultimately show ?thesis
      using i js lru_okD(2) [OF ok] None
      by (auto simp: spec_put_def map_of_used [OF ok]) (auto simp: used_def)
  next
    case False
    then have "lru_put i v c = c\<lparr>lru_entries := AList.update i v (lru_entries c), use_order := use_order c @ [i]\<rparr>"
      using pos None by (simp add: lru_put_def Let_def)
    moreover have "Suc (length (used c)) - nat (lru_limit c) = 0" using False len by simp
    ultimately show ?thesis
      using i None by (auto simp: spec_put_def map_of_used [OF ok]) (auto simp: used_def)
  qed
next
  case (Some w)
  then have "lru_put i v c = (promote i c)\<lparr>lru_entries := AList.update i v (lru_entries c)\<rparr>"
    using ok by (simp add: lru_put_def Let_def lru_ok_def)
  moreover have "i \<in> set (use_order c)" using Some lru_okD(4) [OF ok, of i] by simp
  ultimately show ?thesis
    using Some lru_okD(2) [OF ok]
    by (simp add: spec_put_def map_of_used [OF ok] used_filter)
      (auto simp: used_def promote_def)
qed

text \<open>
  Claim C5. The least-recently-used structure is a bounded list of entries in order of use: a
  hit moves the entry to the end, storing a new key drops the first entry exactly when the
  list is full, and every operation keeps the map and the slice of keys in agreement.
\<close>

theorem cache_refines_list:
  assumes "lru_ok c"
  shows "lru_ok (lru_put i v c) \<and> used (lru_put i v c) = spec_put (nat (lru_limit c)) i v (used c) \<and>
    lru_ok (snd (lru_get i c)) \<and> map_prod id used (lru_get i c) = spec_get i (used c) \<and>
    lru_ok (lru_remove i c) \<and> used (lru_remove i c) = spec_remove i (used c)"
  using assms by (simp add: lru_ok_put lru_ok_get lru_ok_remove used_put used_get used_remove)

lemma cache_refines_list_witness:
  "used (lru_put ''c'' (3 :: nat) (lru_put ''b'' 2 (lru_put ''a'' 1 (new_lru 7 2)))) = [(''b'', 2), (''c'', 3)]"
proof -
  have ok: "lru_ok (lru_put ''b'' 2 (lru_put ''a'' (1 :: nat) (new_lru 7 2)))"
    by (intro lru_ok_put lru_ok_new) simp
  have "used (lru_put ''b'' 2 (lru_put ''a'' (1 :: nat) (new_lru 7 2))) = [(''a'', 1), (''b'', 2)]"
    "nat (lru_limit (lru_put ''b'' 2 (lru_put ''a'' (1 :: nat) (new_lru 7 2)))) = 2" by code_simp+
  then show ?thesis using cache_refines_list [OF ok, of "''c''" 3] by (simp add: spec_put_def)
qed

end
