(* ===== verification/GoFormat.thy ===== *)
theory GoFormat
  imports GoStrings "HOL-Library.Log_Nat"
begin

text \<open>
  How the Go library prints values where the program compares or shows the text: doubles
  (\<open>strconv.FormatFloat\<close> with the shortest digits that read back the same double), \<open>fmt\<close>'s
  \<open>%v\<close>, and \<open>json.Marshal\<close>. Strings are byte strings; bytes above 127 pass through JSON
  unchanged, as they do in well-formed UTF-8.
\<close>

section \<open>Doubles\<close>

definition round_half_even :: "rat \<Rightarrow> int" where
  "round_half_even q =
     (let f = \<lfloor>q\<rfloor>; d = q - of_int f
      in if d < 1 / 2 then f else if 1 / 2 < d then f + 1 else if even f then f else f + 1)"

definition pow2 :: "int \<Rightarrow> rat" where
  "pow2 e = (if 0 \<le> e then 2 ^ nat e else 1 / 2 ^ nat (- e))"

definition pow10 :: "int \<Rightarrow> rat" where
  "pow10 e = (if 0 \<le> e then 10 ^ nat e else 1 / 10 ^ nat (- e))"

text \<open>The double nearest to a positive rational: 53 significant bits, exponent at least -1074.\<close>

definition nearest_double :: "rat \<Rightarrow> f64" where
  "nearest_double x =
     (let (a, b) = quotient_of x;
          e = bitlen a - bitlen b - 53;
          e = (if pow2 53 \<le> x / pow2 e then e + 1 else e);
          e = max (- 1074) e;
          y = of_int (round_half_even (x / pow2 e)) * pow2 e
      in if pow2 1024 \<le> y then PosInf else Fin y)"

text \<open>The decimal exponent \<open>d\<close> of a positive rational: \<open>10^d \<le> x < 10^(d+1)\<close>.\<close>

definition decimal_exponent :: "rat \<Rightarrow> int" where
  "decimal_exponent x =
     (if 1 \<le> x then int (length (nat_str (nat \<lfloor>x\<rfloor>))) - 1
      else (let k = int (length (nat_str (nat \<lfloor>1 / x\<rfloor>)))
            in if x = pow10 (1 - k) then 1 - k else - k))"

text \<open>The shortest digits \<open>m\<close> and exponent \<open>s\<close> with \<open>m * 10^s\<close> reading back as \<open>x\<close>.\<close>

definition digits_at :: "rat \<Rightarrow> nat \<Rightarrow> int \<times> int" where
  "digits_at x p =
     (let s = decimal_exponent x + 1 - int p in (round_half_even (x / pow10 s), s))"

definition shortest :: "rat \<Rightarrow> int \<times> int" where
  "shortest x =
     (case find (\<lambda>p. case digits_at x p of (m, s) \<Rightarrow> nearest_double (of_int m * pow10 s) = Fin x) [1..<18] of
        Some p \<Rightarrow> digits_at x p
      | None \<Rightarrow> digits_at x 17)"

definition drop_zeros :: "string \<Rightarrow> int \<Rightarrow> string \<times> int" where
  "drop_zeros ds s =
     (let k = length (takeWhile (\<lambda>c. c = CHR ''0'') (rev ds))
      in (take (length ds - k) ds, s + int k))"

definition zeros :: "int \<Rightarrow> string" where
  "zeros n = replicate (nat n) (CHR ''0'')"

text \<open>Digits \<open>ds\<close> with the decimal point \<open>s\<close> places from the right, as the \<open>'f'\<close> format has it.\<close>

definition place_point :: "string \<Rightarrow> int \<Rightarrow> string" where
  "place_point ds s =
     (let point = int (length ds) + s
      in if 0 \<le> s then ds @ zeros s
         else if 0 < point then take (nat point) ds @ ''.'' @ drop (nat point) ds
         else ''0.'' @ zeros (- point) @ ds)"

text \<open>The \<open>'e'\<close> format: an exponent of at least two digits.\<close>

definition exponent_str :: "int \<Rightarrow> string" where
  "exponent_str e =
     (let n = nat_str (nat \<bar>e\<bar>)
      in (if e < 0 then ''-'' else ''+'') @ (if length n < 2 then ''0'' @ n else n))"

definition scientific :: "string \<Rightarrow> int \<Rightarrow> string" where
  "scientific ds s =
     (case ds of
        [] \<Rightarrow> []
      | d # rest \<Rightarrow> [d] @ (if rest = [] then [] else ''.'' @ rest) @ ''e''
                     @ exponent_str (int (length ds) - 1 + s))"

text \<open>A finite double: sign, digits and scale.\<close>

definition decimal :: "rat \<Rightarrow> string \<times> string \<times> int" where
  "decimal x =
     (if x = 0 then ([], ''0'', 0)
      else (let (m, s) = shortest \<bar>x\<bar>
            in ((if x < 0 then ''-'' else []), drop_zeros (nat_str (nat m)) s)))"

definition special_float :: "f64 \<Rightarrow> string" where
  "special_float x = (case x of NaN \<Rightarrow> ''NaN'' | PosInf \<Rightarrow> ''+Inf'' | NegInf \<Rightarrow> ''-Inf'' | Fin _ \<Rightarrow> [])"

text \<open>\<open>strconv.FormatFloat(x, 'f', -1, 64)\<close>\<close>

fun format_float :: "f64 \<Rightarrow> string" where
  "format_float (Fin q) = (case decimal q of (sign, ds, s) \<Rightarrow> sign @ place_point ds s)"
| "format_float x = special_float x"

text \<open>\<open>%v\<close> of a float: exponent form below \<open>1e-4\<close> and from \<open>1e21\<close>.\<close>

fun show_float :: "f64 \<Rightarrow> string" where
  "show_float (Fin q) =
     (case decimal q of (sign, ds, s) \<Rightarrow>
        (let e = int (length ds) - 1 + s
         in sign @ (if q \<noteq> 0 \<and> (e < -4 \<or> 21 \<le> e) then scientific ds s else place_point ds s)))"
| "show_float x = special_float x"

section \<open>Printing values\<close>

fun show_v :: "val \<Rightarrow> string"
and show_vs :: "val list \<Rightarrow> string list"
and show_vm :: "props \<Rightarrow> string list" where
  "show_v VNil = ''<nil>''"
| "show_v (VStr s) = s"
| "show_v (VBool b) = (if b then ''true'' else ''false'')"
| "show_v (VInt i) = itoa i"
| "show_v (VFlt x) = show_float x"
| "show_v (VArr vs) = ''['' @ join '' '' (show_vs vs) @ '']''"
| "show_v (VStrs ss) = ''['' @ join '' '' ss @ '']''"
| "show_v (VFlts xs) = ''['' @ join '' '' (map show_float xs) @ '']''"
| "show_v (VObj m) = ''map['' @ join '' '' (show_vm m) @ '']''"
| "show_vs [] = []"
| "show_vs (v # vs) = show_v v # show_vs vs"
| "show_vm [] = []"
| "show_vm ((k, v) # m) = (k @ '':'' @ show_v v) # show_vm m"

section \<open>JSON\<close>

definition hex_digit :: "nat \<Rightarrow> char" where
  "hex_digit n = (if n < 10 then char_of (48 + n) else char_of (87 + n))"

text \<open>The characters \<open>json.Marshal\<close> escapes: quotes, controls, and the HTML ones.\<close>

definition json_char :: "char \<Rightarrow> string" where
  "json_char c =
     (let n = of_char c :: nat
      in if c = CHR 0x22 then [CHR 0x5C, CHR 0x22]
         else if c = CHR 0x5C then [CHR 0x5C, CHR 0x5C]
         else if n = 8 then CHR 0x5C # ''b'' else if n = 12 then CHR 0x5C # ''f''
         else if n = 10 then CHR 0x5C # ''n'' else if n = 13 then CHR 0x5C # ''r''
         else if n = 9 then CHR 0x5C # ''t''
         else if n < 32 \<or> c \<in> set ''<>&''
         then CHR 0x5C # ''u00'' @ [hex_digit (n div 16), hex_digit (n mod 16)]
         else [c])"

definition json_str :: "string \<Rightarrow> string" where
  "json_str s = CHR 0x22 # concat (map json_char s) @ [CHR 0x22]"

text \<open>JSON uses \<open>'f'\<close> between \<open>1e-6\<close> and \<open>1e21\<close>, and drops the zero of a one-digit exponent.\<close>

definition json_float :: "rat \<Rightarrow> string" where
  "json_float q =
     (case decimal q of (sign, ds, s) \<Rightarrow>
        if q \<noteq> 0 \<and> (\<bar>q\<bar> < 1 / 1000000 \<or> pow10 21 \<le> \<bar>q\<bar>)
        then (let t = sign @ scientific ds s; n = length t
              in if 4 \<le> n \<and> t ! (n - 4) = CHR ''e'' \<and> t ! (n - 3) = CHR ''-'' \<and> t ! (n - 2) = CHR ''0''
                 then take (n - 2) t @ [t ! (n - 1)] else t)
        else sign @ place_point ds s)"

text \<open>\<open>None\<close> where \<open>json.Marshal\<close> fails: a \<open>NaN\<close> or an infinity anywhere inside.\<close>

fun json_f64 :: "f64 \<Rightarrow> string option" where
  "json_f64 (Fin q) = Some (json_float q)"
| "json_f64 _ = None"

definition json_list :: "string option list \<Rightarrow> string option" where
  "json_list xs =
     (if None \<in> set xs then None else Some (''['' @ join '','' (map the xs) @ '']''))"

fun json :: "val \<Rightarrow> string option"
and jsons :: "val list \<Rightarrow> string option list"
and jsonm :: "props \<Rightarrow> string option list" where
  "json VNil = Some ''null''"
| "json (VStr s) = Some (json_str s)"
| "json (VBool b) = Some (if b then ''true'' else ''false'')"
| "json (VInt i) = Some (itoa i)"
| "json (VFlt x) = json_f64 x"
| "json (VArr vs) = json_list (jsons vs)"
| "json (VStrs ss) = json_list (map (\<lambda>s. Some (json_str s)) ss)"
| "json (VFlts xs) = json_list (map json_f64 xs)"
| "json (VObj m) =
     (let xs = jsonm m
      in if None \<in> set xs then None else Some (CHR 0x7B # join '','' (map the xs) @ [CHR 0x7D]))"
| "jsons [] = []"
| "jsons (v # vs) = json v # jsons vs"
| "jsonm [] = []"
| "jsonm ((k, v) # m) = map_option (\<lambda>t. json_str k @ '':'' @ t) (json v) # jsonm m"

end
