(* ===== verification/GoPath.thy ===== *)
theory GoPath
  imports GoStrings
begin

text \<open>
  Go's \<open>path/filepath\<close> on a Unix system: the lexical operations \<open>Clean\<close>, \<open>Rel\<close> and
  \<open>Dir\<close>, which work on the text of a path only. \<open>ToSlash\<close> is the identity there.
\<close>

definition rooted :: "string \<Rightarrow> bool" where
  "rooted p = has_prefix p ''/''"

text \<open>The elements left after removing empty, dot and resolvable dot-dot elements (last first).\<close>

fun clean_elems :: "bool \<Rightarrow> string list \<Rightarrow> string list \<Rightarrow> string list" where
  "clean_elems r out [] = rev out"
| "clean_elems r out (e # es) =
     (if e = [] \<or> e = ''.'' then clean_elems r out es
      else if e = ''..'' then
        (case out of
           [] \<Rightarrow> clean_elems r (if r then [] else [''..'']) es
         | o1 # out' \<Rightarrow> clean_elems r (if o1 = ''..'' then ''..'' # out else out') es)
      else clean_elems r (e # out) es)"

definition path_elems :: "string \<Rightarrow> string list" where
  "path_elems p = clean_elems (rooted p) [] (split_byte (CHR ''/'') p)"

definition path_clean :: "string \<Rightarrow> string" where
  "path_clean p =
     (let body = join ''/'' (path_elems p)
      in if rooted p then ''/'' @ body else if body = [] then ''.'' else body)"

text \<open>\<open>filepath.Join\<close>\<close>

definition path_join :: "string list \<Rightarrow> string" where
  "path_join ps = (if list_all (\<lambda>p. p = []) ps then [] else path_clean (join ''/'' (dropWhile (\<lambda>p. p = []) ps)))"

fun drop_common :: "string list \<Rightarrow> string list \<Rightarrow> string list \<times> string list" where
  "drop_common (b # bs) (t # ts) = (if b = t then drop_common bs ts else (b # bs, t # ts))"
| "drop_common bs ts = (bs, ts)"

text \<open>\<open>filepath.Rel base target\<close>; None for its error.\<close>

definition path_rel :: "string \<Rightarrow> string \<Rightarrow> string option" where
  "path_rel base target =
     (if rooted base \<noteq> rooted target then None
      else case drop_common (path_elems base) (path_elems target) of
        (bs, ts) \<Rightarrow>
          if bs \<noteq> [] \<and> hd bs = ''..'' then None
          else (let out = replicate (length bs) ''..'' @ ts
                in Some (if out = [] then ''.'' else join ''/'' out)))"

lemma drop_common_append [simp]: "drop_common bs (bs @ ts) = ([], ts)"
  by (induction bs) (cases ts; simp)+

lemma clean_elems_plain:
  "\<forall>e \<in> set es. e \<noteq> [] \<and> e \<noteq> ''.'' \<and> e \<noteq> ''..'' \<Longrightarrow>
   clean_elems r out es = rev out @ es"
  by (induction es arbitrary: out) auto

end
