(* ===== verification/Ids.thy ===== *)
theory Ids
  imports GoSha256 GoPath
begin

text \<open>
  \<open>internal/ids\<close>: the stable identifiers of graph entities. An identifier is a kind prefix
  and parts joined with colons; \<open>parse_id\<close> reads the prefix back and \<open>split_symbol\<close> the path
  and label of a symbol. The second half is \<open>runtime.go\<close>: content-hash identifiers of
  observations and log templates, the log-template normaliser, and the byte cap.
\<close>

section \<open>Kind prefixes\<close>

definition k_func :: string where "k_func = ''func''"
definition k_class :: string where "k_class = ''class''"
definition k_struct :: string where "k_struct = ''struct''"
definition k_file :: string where "k_file = ''file''"
definition k_binfunc :: string where "k_binfunc = ''binfunc''"
definition k_binary :: string where "k_binary = ''binary''"
definition k_bb :: string where "k_bb = ''bb''"
definition k_insn :: string where "k_insn = ''insn''"
definition k_obs :: string where "k_obs = ''obs''"

definition known :: "string list" where
  "known =
     [k_func, k_class, k_struct, k_file, k_binfunc, k_binary,
      k_bb, k_insn, ''var'', ''slice'', ''span'', ''binspan'', ''task'',
      k_obs,
      ''binmodule'', ''binsection'', ''binglobal'', ''binimport'', ''binexport'',
      ''binsymbol'', ''bintype'', ''binregister'', ''binmemloc'', ''binconst'',
      ''bincallsite'', ''binjump'', ''bindataflow'', ''bincontrolflow'',
      ''binextapi'', ''binartifact'', ''binhypothesis'', ''binportmap'',
      ''binverify'', ''binctxpkg'']"

section \<open>Building\<close>

definition rel :: "string \<Rightarrow> string \<Rightarrow> string" where
  "rel dir p =
     (if dir = [] then p
      else case path_rel dir p of
        None \<Rightarrow> p
      | Some r \<Rightarrow> if has_prefix r ''..'' then p else r)"

text \<open>\<open>a + ":" + b + ...\<close>\<close>

definition colons :: "string list \<Rightarrow> string" where
  "colons parts = join '':'' parts"

definition symbol :: "string \<Rightarrow> string \<Rightarrow> string \<Rightarrow> string" where
  "symbol kind r label = colons [kind, r, label]"

definition file_id :: "string \<Rightarrow> string" where
  "file_id r = colons [k_file, r]"

definition binary_id :: "string \<Rightarrow> string" where
  "binary_id b = colons [k_binary, b]"

definition bin_func_id :: "string \<Rightarrow> string \<Rightarrow> string" where
  "bin_func_id b addr = colons [k_binfunc, b, addr]"

definition basic_block_id :: "string \<Rightarrow> string \<Rightarrow> string \<Rightarrow> string" where
  "basic_block_id b fn bb = colons [k_bb, b, fn, bb]"

definition instruction_id :: "string \<Rightarrow> string \<Rightarrow> string \<Rightarrow> string \<Rightarrow> string" where
  "instruction_id b fn bb insn = colons [k_insn, b, fn, bb, insn]"

definition bin_module_id :: "string \<Rightarrow> string \<Rightarrow> string" where
  "bin_module_id b name = colons [''binmodule'', b, name]"

definition bin_section_id :: "string \<Rightarrow> string \<Rightarrow> string" where
  "bin_section_id b name = colons [''binsection'', b, name]"

definition bin_global_id :: "string \<Rightarrow> string \<Rightarrow> string" where
  "bin_global_id b addr = colons [''binglobal'', b, addr]"

definition bin_import_id :: "string \<Rightarrow> string \<Rightarrow> string" where
  "bin_import_id b name = colons [''binimport'', b, name]"

definition bin_export_id :: "string \<Rightarrow> string \<Rightarrow> string" where
  "bin_export_id b name = colons [''binexport'', b, name]"

definition bin_symbol_id :: "string \<Rightarrow> string \<Rightarrow> string" where
  "bin_symbol_id b addr = colons [''binsymbol'', b, addr]"

definition bin_type_id :: "string \<Rightarrow> string \<Rightarrow> string" where
  "bin_type_id b name = colons [''bintype'', b, name]"

definition bin_register_id :: "string \<Rightarrow> string \<Rightarrow> string" where
  "bin_register_id b name = colons [''binregister'', b, name]"

definition bin_memloc_id :: "string \<Rightarrow> string \<Rightarrow> string" where
  "bin_memloc_id b addr = colons [''binmemloc'', b, addr]"

definition bin_constant_id :: "string \<Rightarrow> string \<Rightarrow> string" where
  "bin_constant_id b v = colons [''binconst'', b, v]"

definition bin_callsite_id :: "string \<Rightarrow> string \<Rightarrow> string \<Rightarrow> string" where
  "bin_callsite_id b fn insn = colons [''bincallsite'', b, fn, insn]"

definition bin_jump_id :: "string \<Rightarrow> string \<Rightarrow> string \<Rightarrow> string" where
  "bin_jump_id b from to = colons [''binjump'', b, from, to]"

definition bin_dataflow_id :: "string \<Rightarrow> string \<Rightarrow> string \<Rightarrow> string" where
  "bin_dataflow_id b fn name = colons [''bindataflow'', b, fn, name]"

definition bin_controlflow_id :: "string \<Rightarrow> string \<Rightarrow> string" where
  "bin_controlflow_id b fn = colons [''bincontrolflow'', b, fn]"

definition bin_extapi_id :: "string \<Rightarrow> string \<Rightarrow> string" where
  "bin_extapi_id b name = colons [''binextapi'', b, name]"

definition bin_artifact_id :: "string \<Rightarrow> string \<Rightarrow> string \<Rightarrow> string" where
  "bin_artifact_id b ty name = colons [''binartifact'', b, ty, name]"

definition bin_hypothesis_id :: "string \<Rightarrow> string \<Rightarrow> string \<Rightarrow> string" where
  "bin_hypothesis_id b subject h = colons [''binhypothesis'', b, subject, h]"

definition bin_portmap_id :: "string \<Rightarrow> string \<Rightarrow> string \<Rightarrow> string" where
  "bin_portmap_id b fn lang = colons [''binportmap'', b, fn, lang]"

definition bin_verification_id :: "string \<Rightarrow> string \<Rightarrow> string \<Rightarrow> string" where
  "bin_verification_id b fn test = colons [''binverify'', b, fn, test]"

definition bin_ctxpkg_id :: "string \<Rightarrow> string \<Rightarrow> string" where
  "bin_ctxpkg_id b q = colons [''binctxpkg'', b, q]"

section \<open>Reading\<close>

text \<open>\<open>Parse\<close> with its three results (kind, rest, ok).\<close>

definition parse_id :: "string \<Rightarrow> string \<times> string \<times> bool" where
  "parse_id s =
     (case index_byte s (CHR '':'') of
        None \<Rightarrow> ([], s, False)
      | Some i \<Rightarrow>
          if i = 0 then ([], s, False)
          else if take i s \<notin> set known then ([], s, False)
          else (take i s, drop (Suc i) s, True))"

definition looks :: "string \<Rightarrow> bool" where
  "looks s = (case parse_id s of (_, _, ok) \<Rightarrow> ok)"

definition split_symbol :: "string \<Rightarrow> string \<times> string" where
  "split_symbol r =
     (case last_index_byte r (CHR '':'') of
        None \<Rightarrow> (r, [])
      | Some i \<Rightarrow> (take i r, drop (Suc i) r))"

section \<open>Content hashes and log templates (\<open>runtime.go\<close>)\<close>

definition observation_id :: "string \<Rightarrow> string \<Rightarrow> string \<Rightarrow> string \<Rightarrow> string \<Rightarrow> string" where
  "observation_id project session source stream text =
     k_obs @ '':'' @ hex_bytes (take 12 (sha256 (join ''|'' [project, session, source, stream, text])))"

definition log_template_id :: "string \<Rightarrow> string \<Rightarrow> string" where
  "log_template_id project template =
     ''logtemplate:'' @ hex_bytes (take 12 (sha256 (project @ ''|'' @ template)))"

definition is_hex_letter :: "char \<Rightarrow> bool" where
  "is_hex_letter c =
     (CHR ''a'' \<le> c \<and> c \<le> CHR ''f'' \<or> CHR ''A'' \<le> c \<and> c \<le> CHR ''F'')"

definition is_hex :: "char \<Rightarrow> bool" where
  "is_hex c = (is_digit c \<or> is_hex_letter c)"

definition is_quote :: "char \<Rightarrow> bool" where
  "is_quote c = (c = CHR ''\"'' \<or> c = CHR 0x27)"

text \<open>The loop of \<open>NormalizeLogTemplate\<close> over the bytes that are left.\<close>

function template_scan :: "string \<Rightarrow> string" where
  "template_scan s =
     (case s of
        [] \<Rightarrow> []
      | c # t \<Rightarrow>
          if is_digit c then CHR ''%'' # template_scan (dropWhile is_digit t)
          else if is_hex_letter c then CHR ''%'' # template_scan (dropWhile is_hex t)
          else if is_quote c then CHR ''%'' # template_scan (drop 1 (dropWhile (\<lambda>d. d \<noteq> c) t))
          else c # template_scan t)"
  by pat_completeness auto
termination
proof (relation "measure length")
qed (auto simp: less_Suc_eq_le length_dropWhile_le intro: le_trans [OF diff_le_self])

declare template_scan.simps [simp del]

definition normalize_log_template :: "string \<Rightarrow> string" where
  "normalize_log_template s = template_scan (trim_space s)"

definition truncate_bytes :: "string \<Rightarrow> int \<Rightarrow> string" where
  "truncate_bytes s mx =
     (if mx \<le> 0 \<or> int (length s) \<le> mx then s else take (nat mx) s @ ''...'')"

section \<open>Facts\<close>

lemma index_byte_join: "CHR '':'' \<notin> set k \<Longrightarrow> parts \<noteq> [] \<Longrightarrow>
  index_byte (colons (k # parts)) (CHR '':'') = Some (length k)"
  by (cases parts) (auto simp: colons_def index_byte_append)

lemma known_no_colon: "k \<in> set known \<Longrightarrow> CHR '':'' \<notin> set k"
  by (auto simp: known_def k_func_def k_class_def k_struct_def k_file_def k_binfunc_def
      k_binary_def k_bb_def k_insn_def k_obs_def)

lemma known_nonempty: "k \<in> set known \<Longrightarrow> k \<noteq> []"
  by (auto simp: known_def k_func_def k_class_def k_struct_def k_file_def k_binfunc_def
      k_binary_def k_bb_def k_insn_def k_obs_def)

lemma parse_colons:
  assumes "k \<in> set known" "parts \<noteq> []"
  shows "parse_id (colons (k # parts)) = (k, colons parts, True)"
proof -
  have "colons (k # parts) = k @ CHR '':'' # colons parts"
    using assms(2) by (simp add: colons_def join_Cons)
  with assms known_no_colon [OF assms(1)] known_nonempty [OF assms(1)] show ?thesis
    by (simp add: parse_id_def index_byte_append)
qed

text \<open>
  Claim C11. A symbol identifier is read back: for a known kind and a label without a colon,
  \<open>Parse\<close> returns the kind, and \<open>SplitSymbol\<close> on the rest returns the path (which may
  itself hold colons) and the label that \<open>Symbol\<close> was given.
\<close>

theorem symbol_roundtrip:
  assumes "kind \<in> set known" and "CHR '':'' \<notin> set label"
  shows "case parse_id (symbol kind path label) of (k, r, ok) \<Rightarrow>
           k = kind \<and> ok \<and> split_symbol r = (path, label)"
proof -
  have "colons [path, label] = path @ CHR '':'' # label"
    by (simp add: colons_def)
  with assms show ?thesis
    by (simp add: symbol_def parse_colons split_symbol_def last_index_byte_append)
qed

theorem symbol_roundtrip_witness:
  "case parse_id (symbol ''func'' ''c:/src/a.go'' ''Server.Run'') of (k, r, ok) \<Rightarrow>
     k = ''func'' \<and> ok \<and> split_symbol r = (''c:/src/a.go'', ''Server.Run'')"
  by (rule symbol_roundtrip) (simp_all add: known_def k_func_def)

text \<open>Every identifier of the package but the log-template one is recognised by \<open>Looks\<close>.\<close>

lemma looks_colons: "k \<in> set known \<Longrightarrow> parts \<noteq> [] \<Longrightarrow> looks (colons (k # parts))"
  by (simp add: looks_def parse_colons)

lemma observation_id_looks: "looks (observation_id p s src st txt)"
proof -
  have "observation_id p s src st txt =
      colons [k_obs, hex_bytes (take 12 (sha256 (join ''|'' [p, s, src, st, txt])))]"
    by (simp add: observation_id_def colons_def)
  then show ?thesis by (simp add: looks_colons known_def)
qed

lemma log_template_id_not_looks: "\<not> looks (log_template_id p t)"
proof -
  have "log_template_id p t = ''logtemplate'' @ CHR '':'' # hex_bytes (take 12 (sha256 (p @ ''|'' @ t)))"
    by (simp add: log_template_id_def)
  then have "index_byte (log_template_id p t) (CHR '':'') = Some 11"
    using index_byte_append [of "CHR '':''" "''logtemplate''"] by simp
  then show ?thesis
    by (simp add: looks_def parse_id_def log_template_id_def known_def numeral_eq_Suc
        k_func_def k_class_def k_struct_def k_file_def k_binfunc_def
        k_binary_def k_bb_def k_insn_def k_obs_def)
qed

subsection \<open>The log-template normaliser\<close>

text \<open>Bytes that a normalised template may hold: no digits, hex letters or quotes.\<close>

definition plain_char :: "char \<Rightarrow> bool" where
  "plain_char c = (\<not> is_digit c \<and> \<not> is_hex_letter c \<and> \<not> is_quote c)"

lemma plain_percent [simp]: "plain_char (CHR ''%'')"
  by (simp add: plain_char_def is_digit_def is_hex_letter_def is_quote_def)

lemma template_scan_Nil [simp]: "template_scan [] = []"
  by (subst template_scan.simps) simp

lemma template_scan_digit: "is_digit c \<Longrightarrow>
  template_scan (c # t) = CHR ''%'' # template_scan (dropWhile is_digit t)"
  by (subst template_scan.simps) simp

lemma template_scan_hex: "\<not> is_digit c \<Longrightarrow> is_hex_letter c \<Longrightarrow>
  template_scan (c # t) = CHR ''%'' # template_scan (dropWhile is_hex t)"
  by (subst template_scan.simps) simp

lemma template_scan_quote: "\<not> is_digit c \<Longrightarrow> \<not> is_hex_letter c \<Longrightarrow> is_quote c \<Longrightarrow>
  template_scan (c # t) = CHR ''%'' # template_scan (drop 1 (dropWhile (\<lambda>d. d \<noteq> c) t))"
  by (subst template_scan.simps) simp

lemma template_scan_other: "plain_char c \<Longrightarrow> template_scan (c # t) = c # template_scan t"
  by (subst template_scan.simps) (simp add: plain_char_def)

lemmas template_scan_cases =
  template_scan_digit template_scan_hex template_scan_quote template_scan_other

lemma char_kinds [consumes 0, case_names digit hex quote plain]:
  obtains "is_digit c" | "\<not> is_digit c" "is_hex_letter c"
    | "\<not> is_digit c" "\<not> is_hex_letter c" "is_quote c" | "plain_char c"
  by (auto simp: plain_char_def)

lemma template_scan_plain: "list_all plain_char s \<Longrightarrow> template_scan s = s"
proof (induction s)
  case (Cons c s)
  then show ?case by (simp add: template_scan_other)
qed simp

lemma template_scan_output: "list_all plain_char (template_scan s)"
proof (induction s rule: template_scan.induct)
  case (1 s)
  then show ?case
  proof (cases s)
    case (Cons c t)
    with 1 show ?thesis
      by (cases c rule: char_kinds) (simp_all add: template_scan_cases plain_char_def [of c])
  qed simp
qed

lemma template_scan_hd:
  "s \<noteq> [] \<Longrightarrow> \<not> is_space (hd s) \<Longrightarrow> template_scan s \<noteq> [] \<and> \<not> is_space (hd (template_scan s))"
proof (cases s)
  case (Cons c t)
  assume "\<not> is_space (hd s)"
  with Cons show ?thesis
    by (cases c rule: char_kinds) (simp_all add: template_scan_cases is_space_def)
qed simp

lemma last_suffix: "s = u @ v \<Longrightarrow> v \<noteq> [] \<Longrightarrow> last v = last s"
  by simp

lemma last_dropWhile: "dropWhile P s \<noteq> [] \<Longrightarrow> last (dropWhile P s) = last s"
  by (metis last_suffix takeWhile_dropWhile_id)

lemma last_drop_dropWhile:
  "drop 1 (dropWhile P t) \<noteq> [] \<Longrightarrow> last (drop 1 (dropWhile P t)) = last t"
  using last_dropWhile [of P t] by (cases "dropWhile P t") (auto split: if_splits)

lemma template_scan_last:
  "s \<noteq> [] \<Longrightarrow> \<not> is_space (last s) \<Longrightarrow> template_scan s \<noteq> [] \<and> \<not> is_space (last (template_scan s))"
proof (induction s rule: template_scan.induct)
  case (1 s)
  from "1.prems"(1) obtain c t where s: "s = c # t" by (cases s) auto
  then have lst: "t \<noteq> [] \<Longrightarrow> \<not> is_space (last t)" using "1.prems"(2) by simp
  have go: "\<not> is_space (last (CHR ''%'' # template_scan v))"
    if tail: "v \<noteq> [] \<Longrightarrow> last v = last t \<and> t \<noteq> []"
      and IH: "v \<noteq> [] \<Longrightarrow> \<not> is_space (last v) \<Longrightarrow>
        template_scan v \<noteq> [] \<and> \<not> is_space (last (template_scan v))" for v
  proof (cases "v = []")
    case False
    with tail lst have "\<not> is_space (last v)" by simp
    with False IH show ?thesis by simp
  qed (simp add: is_space_def)
  have dw: "dropWhile P t \<noteq> [] \<Longrightarrow> last (dropWhile P t) = last t \<and> t \<noteq> []" for P
    using last_dropWhile [of P t] by auto
  have dr: "drop 1 (dropWhile P t) \<noteq> [] \<Longrightarrow> last (drop 1 (dropWhile P t)) = last t \<and> t \<noteq> []" for P
    using last_drop_dropWhile [of P t] by auto
  show ?case
  proof (cases c rule: char_kinds)
    case digit
    then show ?thesis
      unfolding s template_scan_digit [OF digit] by (metis go dw "1.IH"(1) s list.distinct(1))
  next
    case hex
    then show ?thesis
      unfolding s template_scan_hex [OF hex] by (metis go dw "1.IH"(2) s list.distinct(1))
  next
    case quote
    then show ?thesis
      unfolding s template_scan_quote [OF quote] by (metis go dr "1.IH"(3) s list.distinct(1))
  next
    case plain
    then have "\<not> is_digit c" "\<not> is_hex_letter c" "\<not> is_quote c" by (simp_all add: plain_char_def)
    with "1.IH"(4) [OF s] lst "1.prems"(2) show ?thesis
      unfolding s template_scan_other [OF plain] by (cases "t = []") auto
  qed
qed

text \<open>
  Claim C12. Normalising a log template is idempotent: what \<open>NormalizeLogTemplate\<close> returns holds no
  digit, hex letter or quote and no outer white space, so normalising it again changes nothing.
\<close>

theorem normalize_log_template_idem:
  "normalize_log_template (normalize_log_template s) = normalize_log_template s
   \<and> list_all plain_char (normalize_log_template s)"
proof -
  let ?t = "trim_space s"
  have "trim_space (template_scan ?t) = template_scan ?t"
  proof (cases "?t = []")
    case False
    then have "\<not> is_space (hd ?t)" "\<not> is_space (last ?t)"
      using trim_space_ends [of s] by auto
    with False show ?thesis
      using template_scan_hd [of ?t] template_scan_last [of ?t] by (intro trim_space_id) auto
  qed simp
  then show ?thesis
    by (simp add: normalize_log_template_def template_scan_plain template_scan_output)
qed

end
