(* ===== verification/GraphState.thy ===== *)
theory GraphState
  imports MemoryGraph GraphCache GoFormat Ids
begin

text \<open>
  The persisted form of a graph, \<open>internal/graph/persistent.go\<close>: \<open>repoState\<close>, reading the
  graph file with its repairs and schema migrations, and the merge of a journal of unsaved
  changes into a state. The file is modelled by what \<open>gob\<close> carries: absent, unreadable or a
  \<open>repoState\<close>. Nil and empty node property maps are one value, since the code never tells
  them apart; those of edges differ.
\<close>

section \<open>States and journals\<close>

record gob_node =
  gob_kind :: string
  gob_props :: props

text \<open>\<open>gobEdge\<close> has the fields of an edge.\<close>

record repo_state =
  schema_version :: int
  st_nodes :: "gob_node store"
  st_edges :: "edge store"

record node_snap =
  snap_id :: string
  snap_kind :: string
  snap_props :: props
  snap_identity :: props

record edge_snap =
  esnap_id :: string
  esnap_kind :: string
  esnap_from :: string
  esnap_to :: string
  esnap_props :: "props option"

record journal =
  dirty :: "node_snap store"
  new_edges :: "edge_snap store"
  deleted_nodes :: "string list"
  deleted_edges :: "string list"
  needs_save :: bool

definition empty_journal :: journal where
  "empty_journal =
     \<lparr>dirty = [], new_edges = [], deleted_nodes = [], deleted_edges = [], needs_save = False\<rparr>"

definition journal_empty :: "journal \<Rightarrow> bool" where
  "journal_empty j \<longleftrightarrow> \<not> needs_save j \<and> dirty j = [] \<and> deleted_nodes j = [] \<and>
     new_edges j = [] \<and> deleted_edges j = []"

datatype disk_file = Absent | Broken string | Stored repo_state

definition current_schema :: int where "current_schema = 2"

definition empty_state :: repo_state where
  "empty_state = \<lparr>schema_version = current_schema, st_nodes = [], st_edges = []\<rparr>"

definition to_node :: "string \<Rightarrow> gob_node \<Rightarrow> node" where
  "to_node i g = \<lparr>node_id = i, node_kind = gob_kind g, node_props = gob_props g\<rparr>"

definition clone_state :: "repo_state \<Rightarrow> repo_state" where
  "clone_state st =
     \<lparr>schema_version = schema_version st, st_nodes = st_nodes st, st_edges = st_edges st\<rparr>"

section \<open>Migrations\<close>

definition install_state :: "repo_state \<Rightarrow> mem_repo \<Rightarrow> mem_repo" where
  "install_state st m =
     m\<lparr>nodes := map (\<lambda>(i, g). (i, to_node i g)) (st_nodes st),
       edges := map (\<lambda>(i, e). (i, e\<lparr>edge_id := i\<rparr>)) (st_edges st)\<rparr>"

definition snapshot_state :: "mem_repo \<Rightarrow> repo_state" where
  "snapshot_state m =
     \<lparr>schema_version = current_schema,
      st_nodes = map (\<lambda>(i, n). (i, \<lparr>gob_kind = node_kind n, gob_props = node_props n\<rparr>)) (nodes m),
      st_edges = map (\<lambda>(i, e). (i, e\<lparr>edge_id := i\<rparr>)) (edges m)\<rparr>"

text \<open>Schema 0 to 1 drops the legacy \<open>Type\<close> nodes.\<close>

definition drop_legacy_types :: "mem_repo \<Rightarrow> mem_repo" where
  "drop_legacy_types m =
     (case find_nodes ''Type'' [] m of
        Inl _ \<Rightarrow> m
      | Inr legacy \<Rightarrow> snd (remove_nodes (map node_id legacy) m))"

definition str_prop :: "node \<Rightarrow> string \<Rightarrow> string" where
  "str_prop n k = as_str (pget (node_props n) k)"

text \<open>The roots of the projects by their ids; a later project of the same id wins.\<close>

definition project_roots :: "mem_repo \<Rightarrow> string store" where
  "project_roots m =
     fold (\<lambda>p roots. if str_prop p ''id'' \<noteq> []
                       then AList.update (str_prop p ''id'') (str_prop p ''path'') roots else roots)
       (find_nodes_locked ''Project'' [] m) []"

definition symbol_prefix :: "string \<Rightarrow> string" where
  "symbol_prefix kind =
     (if kind = ''Function'' then k_func else if kind = ''Class'' then k_class
      else if kind = ''Struct'' then k_struct else [])"

definition set_prop :: "string \<Rightarrow> val \<Rightarrow> node \<Rightarrow> node" where
  "set_prop k v n = n\<lparr>node_props := put k v (node_props n)\<rparr>"

definition with_stable_id :: "string store \<Rightarrow> string \<Rightarrow> node \<Rightarrow> node" where
  "with_stable_id roots kind n =
     (if str_prop n ''stable_id'' \<noteq> [] then n
      else
        (let root_path = (case map_of roots (str_prop n ''project_id'') of None \<Rightarrow> [] | Some p \<Rightarrow> p);
             rp = rel root_path (str_prop n ''path'');
             n = set_prop ''rel_path'' (VStr rp) n
         in if kind = ''SourceFile'' then set_prop ''stable_id'' (VStr (file_id rp)) n
            else
              (let name = str_prop n ''name'';
                   owner = str_prop n ''owner'';
                   label = (if owner \<noteq> [] then owner @ ''.'' @ name else name)
               in set_prop ''qualified_name'' (VStr (rp @ '':'' @ label))
                    (set_prop ''stable_id'' (VStr (symbol (symbol_prefix kind) rp label)) n))))"

definition with_binary_id :: "node \<Rightarrow> node" where
  "with_binary_id n =
     (if str_prop n ''stable_id'' = []
      then set_prop ''stable_id'' (VStr (Ids.binary_id (str_prop n ''binary_id''))) n else n)"

definition with_bin_func_id :: "node \<Rightarrow> node" where
  "with_bin_func_id n =
     (if str_prop n ''stable_id'' = []
      then set_prop ''stable_id'' (VStr (bin_func_id (str_prop n ''binary_id'') (str_prop n ''address''))) n
      else n)"

text \<open>Changing in place the nodes \<open>FindNodes(kind, nil)\<close> lists.\<close>

definition update_kind :: "string \<Rightarrow> (node \<Rightarrow> node) \<Rightarrow> mem_repo \<Rightarrow> mem_repo" where
  "update_kind kind f m =
     m\<lparr>nodes := map (\<lambda>(i, n). (i, if node_kind n = kind then f n else n)) (nodes m)\<rparr>"

definition migrate_stable_ids :: "mem_repo \<Rightarrow> mem_repo" where
  "migrate_stable_ids m =
     (let roots = project_roots m;
          m = fold (\<lambda>kind. update_kind kind (with_stable_id roots kind))
                [''Function'', ''Class'', ''Struct'', ''SourceFile''] m;
          m = update_kind ''Binary'' with_binary_id m
      in update_kind ''BinaryFunction'' with_bin_func_id m)"

definition migrations :: "(mem_repo \<Rightarrow> mem_repo) list" where
  "migrations = [drop_legacy_types, migrate_stable_ids]"

section \<open>Reading the file\<close>

text \<open>The repairs of a decoded node: id, creation and update time are there.\<close>

definition repair_node :: "string \<Rightarrow> string \<Rightarrow> gob_node \<Rightarrow> gob_node" where
  "repair_node now key g =
     (let ps = gob_props g;
          ps = (if as_str (pget ps ''id'') = [] then put ''id'' (VStr key) ps else ps);
          ps = (if is_str (pget ps ''created_at'') then ps else put ''created_at'' (VStr now) ps);
          ps = (if is_str (pget ps ''updated_at'') then ps else put ''updated_at'' (VStr now) ps)
      in g\<lparr>gob_props := ps\<rparr>)"

text \<open>Edges are rekeyed by their ids; an edge without one draws a new id.\<close>

fun rekey_edges :: "(nat \<Rightarrow> string) \<Rightarrow> nat \<Rightarrow> edge store \<Rightarrow> edge store \<Rightarrow> edge store \<times> nat" where
  "rekey_edges gen k [] acc = (acc, k)"
| "rekey_edges gen k ((_, e) # es) acc =
     (if edge_id e = [] then rekey_edges gen (Suc k) es (AList.update (gen k) (e\<lparr>edge_id := gen k\<rparr>) acc)
      else rekey_edges gen k es (AList.update (edge_id e) e acc))"

definition newer_schema_error :: "int \<Rightarrow> string" where
  "newer_schema_error v =
     ''graph file schema '' @ itoa v @ '' is newer than this build supports ('' @ itoa current_schema
       @ ''); upgrade codeRAG''"

text \<open>\<open>readState\<close>: the state, whether it was migrated, and how many ids were drawn.\<close>

definition read_state :: "string \<Rightarrow> (nat \<Rightarrow> string) \<Rightarrow> nat \<Rightarrow> disk_file \<Rightarrow> (repo_state \<times> bool) res \<times> nat" where
  "read_state now gen k file =
     (case file of
        Absent \<Rightarrow> (Inr (empty_state, False), k)
      | Broken msg \<Rightarrow> (Inl (ErrMsg msg), k)
      | Stored st \<Rightarrow>
          (if current_schema < schema_version st
           then (Inl (ErrMsg (newer_schema_error (schema_version st))), k)
           else
             (let ns = map (\<lambda>(key, g). (key, repair_node now key g)) (st_nodes st);
                  (es, k) = rekey_edges gen k (st_edges st) [];
                  st = st\<lparr>st_nodes := ns, st_edges := es\<rparr>
              in if schema_version st < 0 then (Inl (Panic ''index out of range''), k)
                 else if schema_version st < current_schema
                 then (let tmp = install_state st (new_memory_repo gen);
                           tmp = fold (\<lambda>f. f) (drop (nat (schema_version st)) migrations) tmp
                       in (Inr (snapshot_state tmp, True), k))
                 else (Inr (st, False), k))))"

section \<open>Merging a journal\<close>

definition delete_node :: "string \<Rightarrow> repo_state \<Rightarrow> repo_state" where
  "delete_node i st =
     st\<lparr>st_nodes := AList.delete i (st_nodes st),
        st_edges := filter (\<lambda>(_, e). \<not> (edge_from e = i \<or> edge_to e = i)) (st_edges st)\<rparr>"

definition delete_edge :: "string \<Rightarrow> repo_state \<Rightarrow> repo_state" where
  "delete_edge i st = st\<lparr>st_edges := AList.delete i (st_edges st)\<rparr>"

text \<open>\<open>canon\<close>: the JSON of a value, \<open>fmt.Sprint\<close> where JSON fails.\<close>

definition canon :: "val \<Rightarrow> string" where
  "canon v = (case json v of None \<Rightarrow> show_v v | Some t \<Rightarrow> t)"

text \<open>
  The identity index: for a kind and a list of property names, the node of each tuple of
  canonical values. It is built from the nodes present when the pair is first asked for and
  kept for the rest of the merge; among nodes of one tuple the last visited wins.
\<close>

definition identity_index :: "string \<Rightarrow> string list \<Rightarrow> gob_node store \<Rightarrow> string store" where
  "identity_index kind names ns =
     fold (\<lambda>(i, g) idx.
             if gob_kind g = kind \<and> list_all (has_key (gob_props g)) names
             then AList.update (join [CHR 0x00] (map (\<lambda>n. canon (pget (gob_props g) n)) names)) i idx
             else idx) ns []"

type_synonym index = "((string \<times> string) \<times> string store) list"

definition lookup_identity ::
    "string \<Rightarrow> props \<Rightarrow> gob_node store \<Rightarrow> index \<Rightarrow> string \<times> index" where
  "lookup_identity kind identity ns index =
     (let names = sort (keys identity);
          ik = (kind, join '','' names);
          (idx, index) =
            (case map_of index ik of
               Some idx \<Rightarrow> (idx, index)
             | None \<Rightarrow> (let idx = identity_index kind names ns in (idx, AList.update ik idx index)));
          vals = join [CHR 0x00] (map (\<lambda>n. canon (pget identity n)) names)
      in (case map_of idx vals of None \<Rightarrow> [] | Some i \<Rightarrow> i, index))"

record merge_acc =
  acc_nodes :: "gob_node store"
  acc_index :: index
  acc_remap :: "string store"

text \<open>One unsaved node: it keeps its id, or takes over the node on disk of the same identity.\<close>

definition merge_node :: "node_snap \<Rightarrow> string \<Rightarrow> merge_acc \<Rightarrow> merge_acc" where
  "merge_node snap i a =
     (let (match, index) =
            (if map_of (acc_nodes a) (snap_id snap) = None \<and> snap_identity snap \<noteq> []
             then lookup_identity (snap_kind snap) (snap_identity snap) (acc_nodes a) (acc_index a)
             else ([], acc_index a));
          target = (if match = [] then snap_id snap else match);
          remap = (if match = [] then acc_remap a else AList.update i match (acc_remap a));
          ps = (case map_of (acc_nodes a) match of
                  Some g \<Rightarrow> (if match \<noteq> [] \<and> has_key (gob_props g) ''created_at''
                             then put ''created_at'' (pget (gob_props g) ''created_at'') (snap_props snap)
                             else snap_props snap)
                | None \<Rightarrow> snap_props snap);
          ps = put ''id'' (VStr target) ps
      in a\<lparr>acc_nodes := AList.update target \<lparr>gob_kind = snap_kind snap, gob_props = ps\<rparr> (acc_nodes a),
           acc_index := index, acc_remap := remap\<rparr>)"

definition edge_triple :: "string \<Rightarrow> string \<Rightarrow> string \<Rightarrow> string" where
  "edge_triple kind from to = kind @ ''|'' @ from @ ''|'' @ to"

definition add_triple :: "string \<Rightarrow> string \<Rightarrow> string list store \<Rightarrow> string list store" where
  "add_triple t eid m =
     AList.update t ((case map_of m t of None \<Rightarrow> [] | Some is \<Rightarrow> is) @ [eid]) m"

definition triples :: "edge store \<Rightarrow> string list store" where
  "triples es = fold (\<lambda>(eid, e). add_triple (edge_triple (edge_kind e) (edge_from e) (edge_to e)) eid) es []"

text \<open>
  One unsaved edge: its ends follow the remapped nodes, an edge with a missing end is left
  out, and so is one equal to an edge of the same triple.
\<close>

definition merge_edge ::
    "gob_node store \<Rightarrow> string store \<Rightarrow> edge_snap \<Rightarrow> string \<Rightarrow>
     edge store \<times> string list store \<Rightarrow> edge store \<times> string list store" where
  "merge_edge ns remap snap eid acc =
     (let (es, by_triple) = acc;
          from = (case map_of remap (esnap_from snap) of None \<Rightarrow> esnap_from snap | Some m \<Rightarrow> m);
          to = (case map_of remap (esnap_to snap) of None \<Rightarrow> esnap_to snap | Some m \<Rightarrow> m);
          t = edge_triple (esnap_kind snap) from to;
          others = (case map_of by_triple t of None \<Rightarrow> [] | Some is \<Rightarrow> is)
      in if map_of ns from = None \<or> map_of ns to = None then acc
         else if list_ex (\<lambda>j. deep_eq_map (case map_of es j of None \<Rightarrow> None | Some e \<Rightarrow> edge_props e)
                               (esnap_props snap)) others then acc
         else (AList.update eid \<lparr>edge_id = eid, edge_kind = esnap_kind snap, edge_from = from,
                                 edge_to = to, edge_props = esnap_props snap\<rparr> es,
               add_triple t eid by_triple))"

definition merge_journal :: "journal \<Rightarrow> repo_state \<Rightarrow> repo_state" where
  "merge_journal j st =
     (let st = fold delete_edge (deleted_edges j) (fold delete_node (deleted_nodes j) st);
          a = fold (\<lambda>i. case map_of (dirty j) i of None \<Rightarrow> id | Some snap \<Rightarrow> merge_node snap i)
                (sort (keys (dirty j)))
                \<lparr>acc_nodes = st_nodes st, acc_index = [], acc_remap = []\<rparr>;
          (es, _) = fold (\<lambda>i. case map_of (new_edges j) i of None \<Rightarrow> id
                              | Some snap \<Rightarrow> merge_edge (acc_nodes a) (acc_remap a) snap i)
                      (sort (keys (new_edges j))) (st_edges st, triples (st_edges st))
      in st\<lparr>st_nodes := acc_nodes a, st_edges := es\<rparr>)"

section \<open>What a merge keeps\<close>

text \<open>A predicate on states or accumulators that every step of a fold keeps.\<close>

lemma fold_keeps: "P a \<Longrightarrow> (\<And>x a. x \<in> set xs \<Longrightarrow> P a \<Longrightarrow> P (f x a)) \<Longrightarrow> P (fold f xs a)"
  by (induction xs arbitrary: a) auto

text \<open>Both ends of every edge are nodes.\<close>

definition closed_edges :: "gob_node store \<Rightarrow> edge store \<Rightarrow> bool" where
  "closed_edges ns es \<longleftrightarrow>
     (\<forall>(_, e) \<in> set es. map_of ns (edge_from e) \<noteq> None \<and> map_of ns (edge_to e) \<noteq> None)"

definition closed_state :: "repo_state \<Rightarrow> bool" where
  "closed_state st \<longleftrightarrow> closed_edges (st_nodes st) (st_edges st)"

lemma set_update_subset: "set (AList.update k v m) \<subseteq> insert (k, v) (set m)"
  by (induction m) auto

lemma set_delete_subset: "set (AList.delete k m) \<subseteq> set m"
  by (auto simp: AList.delete_eq)

lemma closed_delete_node [preserves]: "closed_state st \<Longrightarrow> closed_state (delete_node i st)"
  by (auto simp: closed_state_def closed_edges_def delete_node_def)

lemma closed_delete_edge [preserves]: "closed_state st \<Longrightarrow> closed_state (delete_edge i st)"
  using set_delete_subset [of i "st_edges st"]
  by (auto simp: closed_state_def closed_edges_def delete_edge_def)

lemma closed_edges_mono:
  "closed_edges ns es \<Longrightarrow> dom (map_of ns) \<subseteq> dom (map_of ns') \<Longrightarrow> closed_edges ns' es"
  by (fastforce simp: closed_edges_def)

lemma merge_node_grows: "dom (map_of (acc_nodes a)) \<subseteq> dom (map_of (acc_nodes (merge_node snap i a)))"
  by (auto simp: merge_node_def Let_def split: prod.splits)

lemma closed_merge_edge [preserves]:
  "closed_edges ns (fst acc) \<Longrightarrow> closed_edges ns (fst (merge_edge ns remap snap eid acc))"
  using set_update_subset
  by (cases acc) (fastforce simp: merge_edge_def Let_def closed_edges_def)

text \<open>The journal after its deletions, and the nodes of the merged state.\<close>

definition pruned :: "journal \<Rightarrow> repo_state \<Rightarrow> repo_state" where
  "pruned j st = fold delete_edge (deleted_edges j) (fold delete_node (deleted_nodes j) st)"

definition merged_nodes :: "journal \<Rightarrow> repo_state \<Rightarrow> merge_acc" where
  "merged_nodes j st =
     fold (\<lambda>i. case map_of (dirty j) i of None \<Rightarrow> id | Some snap \<Rightarrow> merge_node snap i)
       (sort (keys (dirty j))) \<lparr>acc_nodes = st_nodes (pruned j st), acc_index = [], acc_remap = []\<rparr>"

definition merged_edges :: "journal \<Rightarrow> repo_state \<Rightarrow> edge store" where
  "merged_edges j st =
     fst (fold (\<lambda>i. case map_of (new_edges j) i of None \<Rightarrow> id
                    | Some snap \<Rightarrow> merge_edge (acc_nodes (merged_nodes j st)) (acc_remap (merged_nodes j st)) snap i)
            (sort (keys (new_edges j))) (st_edges (pruned j st), triples (st_edges (pruned j st))))"

lemma merge_journal_parts:
  "merge_journal j st =
     (pruned j st)\<lparr>st_nodes := acc_nodes (merged_nodes j st), st_edges := merged_edges j st\<rparr>"
  unfolding merge_journal_def Let_def merged_edges_def merged_nodes_def pruned_def case_prod_beta
  by (rule refl)

lemma pruned_keeps:
  assumes "P st" "\<And>i st. P st \<Longrightarrow> P (delete_node i st)" "\<And>i st. P st \<Longrightarrow> P (delete_edge i st)"
  shows "P (pruned j st)"
  unfolding pruned_def
  by (rule fold_keeps [where P = P], rule fold_keeps [where P = P]) (simp_all add: assms)

lemma merged_nodes_keeps:
  assumes "P (st_nodes (pruned j st))"
    and "\<And>i snap a. map_of (dirty j) i = Some snap \<Longrightarrow> P (acc_nodes a) \<Longrightarrow> P (acc_nodes (merge_node snap i a))"
  shows "P (acc_nodes (merged_nodes j st))"
  unfolding merged_nodes_def
  by (rule fold_keeps [where P = "\<lambda>a. P (acc_nodes a)"]) (use assms in \<open>auto split: option.splits\<close>)

lemma merged_edges_keeps:
  assumes "P (st_edges (pruned j st))"
    and "\<And>i snap acc. map_of (new_edges j) i = Some snap \<Longrightarrow> P (fst acc) \<Longrightarrow>
      P (fst (merge_edge (acc_nodes (merged_nodes j st)) (acc_remap (merged_nodes j st)) snap i acc))"
  shows "P (merged_edges j st)"
  unfolding merged_edges_def
  by (rule fold_keeps [where P = "\<lambda>a. P (fst a)"]) (use assms in \<open>auto split: option.splits\<close>)

lemma merged_nodes_grow: "dom (map_of (st_nodes (pruned j st))) \<subseteq> dom (map_of (acc_nodes (merged_nodes j st)))"
  by (rule merged_nodes_keeps [where P = "\<lambda>ns. dom (map_of (st_nodes (pruned j st))) \<subseteq> dom (map_of ns)"])
    (use merge_node_grows in blast)+

lemma closed_merge_journal [preserves]:
  assumes "closed_state st"
  shows "closed_state (merge_journal j st)"
proof -
  have "closed_state (pruned j st)"
    using assms by (intro pruned_keeps [where P = closed_state] preserves)
  then have "closed_edges (acc_nodes (merged_nodes j st)) (st_edges (pruned j st))"
    unfolding closed_state_def by (rule closed_edges_mono) (rule merged_nodes_grow)
  then have "closed_edges (acc_nodes (merged_nodes j st)) (merged_edges j st)"
    by (rule merged_edges_keeps) (rule closed_merge_edge)
  then show ?thesis by (simp add: closed_state_def merge_journal_parts)
qed

text \<open>A removed node is in the merged state only if it was written again, or took an id over.\<close>

lemma pruned_no_deleted:
  assumes "i \<in> set (deleted_nodes j)"
  shows "map_of (st_nodes (pruned j st)) i = None"
    "(k, e) \<in> set (st_edges (pruned j st)) \<Longrightarrow> edge_from e \<noteq> i \<and> edge_to e \<noteq> i"
proof -
  let ?gone = "\<lambda>st. map_of (st_nodes st) i = None \<and> (\<forall>(_, e) \<in> set (st_edges st). edge_from e \<noteq> i \<and> edge_to e \<noteq> i)"
  have after: "?gone (fold delete_node xs st)" if "?gone st" for xs st
    using that by (rule fold_keeps) (auto simp: delete_node_def)
  have "?gone (fold delete_node xs st)" if "i \<in> set xs" for xs st
    using that
  proof (induction xs arbitrary: st)
    case (Cons x xs)
    show ?case
    proof (cases "x = i")
      case True
      have "?gone (delete_node i st)" by (auto simp: delete_node_def)
      then have "?gone (fold delete_node xs (delete_node i st))" by (rule after)
      then show ?thesis using True by simp
    qed (use Cons in auto)
  qed simp
  then have "?gone (fold delete_node (deleted_nodes j) st)" using assms by simp
  then have "?gone (pruned j st)"
    unfolding pruned_def
  proof (rule fold_keeps)
    fix k and a :: repo_state
    assume "?gone a"
    then show "?gone (delete_edge k a)"
      using set_delete_subset [of k "st_edges a"] by (auto simp: delete_edge_def)
  qed
  then show "map_of (st_nodes (pruned j st)) i = None"
    "(k, e) \<in> set (st_edges (pruned j st)) \<Longrightarrow> edge_from e \<noteq> i \<and> edge_to e \<noteq> i" by auto
qed

section \<open>Well-formed states\<close>

text \<open>
  A state as \<open>readState\<close> leaves it: of the current schema, every node with a non-empty id
  property and textual time stamps, every edge once, under its own non-empty id.
\<close>

definition node_ok :: "gob_node \<Rightarrow> bool" where
  "node_ok g \<longleftrightarrow> as_str (pget (gob_props g) ''id'') \<noteq> [] \<and>
     is_str (pget (gob_props g) ''created_at'') \<and> is_str (pget (gob_props g) ''updated_at'')"

definition edges_ok :: "edge store \<Rightarrow> bool" where
  "edges_ok es \<longleftrightarrow> distinct (keys es) \<and> list_all (\<lambda>(i, e). edge_id e = i \<and> i \<noteq> []) es"

definition state_ok :: "repo_state \<Rightarrow> bool" where
  "state_ok st \<longleftrightarrow> schema_version st = current_schema \<and> list_all (\<lambda>(_, g). node_ok g) (st_nodes st) \<and>
     edges_ok (st_edges st)"

definition snap_ok :: "node_snap \<Rightarrow> bool" where
  "snap_ok snap \<longleftrightarrow> snap_id snap \<noteq> [] \<and> is_str (pget (snap_props snap) ''created_at'') \<and>
     is_str (pget (snap_props snap) ''updated_at'')"

definition journal_ok :: "journal \<Rightarrow> bool" where
  "journal_ok j \<longleftrightarrow> list_all (\<lambda>(_, s). snap_ok s) (dirty j) \<and> list_all (\<lambda>(i, _). i \<noteq> []) (new_edges j)"

lemma repair_node_id: "node_ok g \<Longrightarrow> repair_node now key g = g"
  by (simp add: node_ok_def repair_node_def Let_def)

lemma repair_node_ok: "key \<noteq> [] \<Longrightarrow> node_ok (repair_node now key g)"
  by (auto simp: node_ok_def repair_node_def Let_def)

lemma rekey_edges_ok:
  "edges_ok (acc @ es) \<Longrightarrow> rekey_edges gen k es acc = (acc @ es, k)"
proof (induction gen k es acc rule: rekey_edges.induct)
  case (2 gen k i e es acc)
  then have e: "edge_id e = i" "i \<noteq> []" "i \<notin> set (keys acc)"
    by (auto simp: edges_ok_def)
  have "AList.update i e acc = acc @ [(i, e)]"
    using e(3) by (induction acc) auto
  with 2 e show ?case by simp
qed simp

text \<open>A well-formed state is read back from the file as it is.\<close>

lemma read_state_ok:
  assumes "state_ok st"
  shows "read_state now gen k (Stored st) = (Inr (st, False), k)"
proof -
  have "map (\<lambda>(key, g). (key, repair_node now key g)) (st_nodes st) = st_nodes st"
    using assms by (auto simp: state_ok_def list_all_iff repair_node_id intro!: map_idI)
  moreover have "rekey_edges gen k (st_edges st) [] = (st_edges st, k)"
    using assms by (simp add: rekey_edges_ok state_ok_def)
  ultimately show ?thesis
    using assms by (simp add: read_state_def state_ok_def current_schema_def Let_def)
qed

lemma list_all_update:
  "list_all P m \<Longrightarrow> P (k, v) \<Longrightarrow> list_all P (AList.update k v m)"
  using set_update_subset [of k v m] by (auto simp: list_all_iff)

lemma list_all_map_of: "list_all (\<lambda>(_, v). P v) m \<Longrightarrow> map_of m k = Some v \<Longrightarrow> P v"
  by (auto simp: list_all_iff dest: map_of_SomeD)

lemma pruned_ok: "state_ok st \<Longrightarrow> state_ok (pruned j st)"
proof (rule pruned_keeps [where P = state_ok])
  show "state_ok (delete_node i st)" if "state_ok st" for i st
    using that set_delete_subset [of i "st_nodes st"]
    by (auto simp: state_ok_def edges_ok_def delete_node_def list_all_iff)
  show "state_ok (delete_edge i st)" if "state_ok st" for i st
    using that set_delete_subset [of i "st_edges st"]
    by (auto simp: state_ok_def edges_ok_def delete_edge_def list_all_iff)
qed

lemma node_ok_merged:
  assumes "snap_ok snap" "list_all (\<lambda>(_, g). node_ok g) (acc_nodes a)"
  shows "list_all (\<lambda>(_, g). node_ok g) (acc_nodes (merge_node snap i a))"
proof -
  have g: "is_str (pget (gob_props g) ''created_at'')" if "map_of (acc_nodes a) m = Some g" for m g
    using list_all_map_of [OF assms(2) that] by (simp add: node_ok_def)
  show ?thesis
    using assms g
    by (auto simp: merge_node_def Let_def node_ok_def snap_ok_def
        split: prod.splits option.splits intro!: list_all_update)
qed

lemma edges_ok_update:
  assumes "edges_ok es" "i \<noteq> []" "edge_id e = i"
  shows "edges_ok (AList.update i e es)"
  using assms list_all_update [of "\<lambda>(i, e). edge_id e = i \<and> i \<noteq> []" es i e] by (simp add: edges_ok_def)

lemma merge_journal_ok:
  assumes "state_ok st" "journal_ok j"
  shows "state_ok (merge_journal j st)"
proof -
  have pruned: "state_ok (pruned j st)" using assms(1) by (rule pruned_ok)
  have "list_all (\<lambda>(_, g). node_ok g) (acc_nodes (merged_nodes j st))"
  proof (rule merged_nodes_keeps)
    fix i snap and a :: merge_acc
    assume "map_of (dirty j) i = Some snap"
    then have "snap_ok snap"
      using assms(2) list_all_map_of [of snap_ok "dirty j"] by (simp add: journal_ok_def)
    then show "list_all (\<lambda>(_, g). node_ok g) (acc_nodes a) \<Longrightarrow>
        list_all (\<lambda>(_, g). node_ok g) (acc_nodes (merge_node snap i a))"
      by (rule node_ok_merged)
  qed (use pruned in \<open>simp add: state_ok_def\<close>)
  moreover have "edges_ok (merged_edges j st)"
  proof (rule merged_edges_keeps)
    fix i snap and acc :: "edge store \<times> string list store"
    assume "map_of (new_edges j) i = Some snap" "edges_ok (fst acc)"
    moreover from this(1) have "i \<noteq> []"
      using assms(2) by (auto simp: journal_ok_def list_all_iff dest: map_of_SomeD)
    ultimately show "edges_ok (fst (merge_edge (acc_nodes (merged_nodes j st)) (acc_remap (merged_nodes j st)) snap i acc))"
      by (cases acc) (auto simp: merge_edge_def Let_def intro: edges_ok_update)
  qed (use pruned in \<open>simp add: state_ok_def\<close>)
  moreover have "schema_version (pruned j st) = current_schema" using pruned by (simp add: state_ok_def)
  ultimately show ?thesis by (simp add: merge_journal_parts state_ok_def)
qed

lemma merge_empty_journal [simp]: "merge_journal empty_journal st = st"
  by (simp add: merge_journal_def empty_journal_def Let_def)

section \<open>What reading delivers\<close>

definition keyed_file :: "disk_file \<Rightarrow> bool" where
  "keyed_file f \<longleftrightarrow> (case f of Stored st \<Rightarrow> list_all (\<lambda>(i, _). i \<noteq> []) (st_nodes st) | _ \<Rightarrow> True)"

lemma edges_ok_rekey:
  "edges_ok acc \<Longrightarrow> (\<forall>k. gen k \<noteq> []) \<Longrightarrow> edges_ok (fst (rekey_edges gen k es acc))"
proof (induction gen k es acc rule: rekey_edges.induct)
  case (2 gen k i e es acc)
  then show ?case
    using edges_ok_update [of acc "gen k" "e\<lparr>edge_id := gen k\<rparr>"] edges_ok_update [of acc "edge_id e" e]
    by simp
qed simp

definition node_kept :: "node \<Rightarrow> bool" where
  "node_kept n \<longleftrightarrow> as_str (pget (node_props n) ''id'') \<noteq> [] \<and>
     is_str (pget (node_props n) ''created_at'') \<and> is_str (pget (node_props n) ''updated_at'')"

definition repo_kept :: "mem_repo \<Rightarrow> bool" where
  "repo_kept m \<longleftrightarrow> list_all (\<lambda>(_, n). node_kept n) (nodes m) \<and> distinct (keys (edges m)) \<and>
     list_all (\<lambda>(i, _). i \<noteq> []) (edges m)"

lemma repo_kept_update_kind:
  "repo_kept m \<Longrightarrow> (\<And>n. node_kept n \<Longrightarrow> node_kept (f n)) \<Longrightarrow> repo_kept (update_kind kind f m)"
  by (auto simp: repo_kept_def update_kind_def list_all_iff)

lemma node_kept_stable [simp]:
  "node_kept n \<Longrightarrow> node_kept (with_stable_id roots kind n)"
  "node_kept n \<Longrightarrow> node_kept (with_binary_id n)"
  "node_kept n \<Longrightarrow> node_kept (with_bin_func_id n)"
  by (simp_all add: node_kept_def with_stable_id_def with_binary_id_def with_bin_func_id_def
      set_prop_def Let_def)

lemma repo_kept_drop: "repo_kept m \<Longrightarrow> repo_kept (drop_legacy_types m)"
  by (auto simp: drop_legacy_types_def remove_nodes_def bump_def repo_kept_def list_all_iff Let_def
      find_nodes_def)

lemma repo_kept_migrate: "repo_kept m \<Longrightarrow> repo_kept (migrate_stable_ids m)"
  unfolding migrate_stable_ids_def Let_def fold_simps
  by (intro repo_kept_update_kind) simp_all

lemma state_ok_snapshot: "repo_kept m \<Longrightarrow> state_ok (snapshot_state m)"
  by (auto simp: state_ok_def snapshot_state_def repo_kept_def edges_ok_def list_all_iff node_ok_def
      node_kept_def o_def case_prod_beta)

lemma repo_kept_install:
  "list_all (\<lambda>(_, g). node_ok g) (st_nodes st) \<Longrightarrow> edges_ok (st_edges st) \<Longrightarrow> repo_kept (install_state st m)"
  by (auto simp: repo_kept_def install_state_def node_kept_def node_ok_def edges_ok_def to_node_def
      list_all_iff o_def case_prod_beta)

text \<open>Whatever the file holds, the state read from it is well formed.\<close>

lemma read_state_gives_ok:
  assumes "read_state now gen k f = (Inr (st, migrated), k')"
    and "keyed_file f" "\<forall>k. gen k \<noteq> []"
  shows "state_ok st"
proof (cases f)
  case (Stored st0)
  define ns where "ns = map (\<lambda>(key, g). (key, repair_node now key g)) (st_nodes st0)"
  obtain es k1 where es: "rekey_edges gen k (st_edges st0) [] = (es, k1)" by fastforce
  let ?st1 = "st0\<lparr>st_nodes := ns, st_edges := es\<rparr>"
  have parts: "list_all (\<lambda>(_, g). node_ok g) (st_nodes ?st1)" "edges_ok (st_edges ?st1)"
    using assms(2,3) edges_ok_rekey [of "[]" gen k "st_edges st0"]
    by (auto simp: Stored keyed_file_def ns_def list_all_iff repair_node_ok es edges_ok_def)
  let ?m = "fold (\<lambda>f. f) (drop (nat (schema_version st0)) migrations) (install_state ?st1 (new_memory_repo gen))"
  have "repo_kept ?m"
    using repo_kept_install [OF parts]
    by (intro fold_keeps [where P = repo_kept])
      (auto simp: migrations_def repo_kept_drop repo_kept_migrate dest!: in_set_dropD)
  then have "state_ok (snapshot_state ?m)" by (rule state_ok_snapshot)
  moreover have "st = ?st1 \<and> schema_version st0 = current_schema \<or> st = snapshot_state ?m"
    using assms(1) by (auto simp: read_state_def Stored es ns_def [symmetric] Let_def split: if_splits)
  ultimately show ?thesis using parts by (auto simp: state_ok_def)
qed (use assms(1) in \<open>auto simp: read_state_def empty_state_def state_ok_def edges_ok_def\<close>)

text \<open>
  Claim C10. Merging unsaved changes into a state keeps it closed: when both ends of every edge
  exist before, they exist after, whatever the journal holds; no edge touches a removed node
  unless the node was written again, and the merged state is well formed when the state was.
\<close>

theorem merge_referential_integrity:
  assumes "closed_state st" "state_ok st" "journal_ok j"
  shows "closed_state (merge_journal j st) \<and> state_ok (merge_journal j st) \<and>
    (\<forall>i \<in> set (deleted_nodes j). map_of (st_nodes (merge_journal j st)) i = None \<longrightarrow>
       list_all (\<lambda>(_, e). edge_from e \<noteq> i \<and> edge_to e \<noteq> i) (st_edges (merge_journal j st)))"
proof -
  have closed: "closed_state (merge_journal j st)" using assms(1) by (rule closed_merge_journal)
  then have "edge_from e \<noteq> i \<and> edge_to e \<noteq> i"
    if "map_of (st_nodes (merge_journal j st)) i = None" "(k, e) \<in> set (st_edges (merge_journal j st))" for i k e
    using that by (auto simp: closed_state_def closed_edges_def)
  with closed merge_journal_ok [OF assms(2,3)] show ?thesis by (auto simp: list_all_iff)
qed

lemma merge_referential_integrity_witness:
  "closed_state (merge_journal
     (empty_journal\<lparr>new_edges := [(''e'', \<lparr>esnap_id = ''e'', esnap_kind = ''CALLS'', esnap_from = ''a'',
        esnap_to = ''b'', esnap_props = None\<rparr>)]\<rparr>) empty_state)"
proof -
  have "closed_state empty_state" "state_ok empty_state"
    "journal_ok (empty_journal\<lparr>new_edges := [(''e'', \<lparr>esnap_id = ''e'', esnap_kind = ''CALLS'', esnap_from = ''a'',
        esnap_to = ''b'', esnap_props = None\<rparr>)]\<rparr>)" by code_simp+
  then show ?thesis using merge_referential_integrity by blast
qed

end
