(* ===== verification/GraphQuery.thy ===== *)
theory GraphQuery
  imports GraphState
begin

text \<open>
  The read-only query language of \<open>internal/graph/persistent.go\<close>: \<open>parseAndExecuteQuery\<close>
  and its helpers. A query is recognised by regular expressions, not parsed. Patterns of
  \<open>LIKE\<close> are compiled at run time; \<open>regexp.Compile\<close> is the parameter \<open>compile\<close>.
\<close>

section \<open>Patterns\<close>

definition select_only_error :: string where
  "select_only_error = ''query_graph accepts one read-only SELECT or MATCH query''"

definition forbidden_keywords :: "string list" where
  "forbidden_keywords =
     [''INSERT'', ''UPDATE'', ''DELETE'', ''CREATE'', ''DROP'', ''ALTER'', ''TRUNCATE'']"

definition keyword_pattern :: "string \<Rightarrow> re" where
  "keyword_pattern kw = seq [WordB, lit kw, WordB]"

text \<open>\<open>(?i)\bFROM\s+(\w+)\b\<close>\<close>

definition from_pattern :: re where
  "from_pattern = seq [WordB, lit_ci ''FROM'', some space_cls, Grp 1 (some word_cls), WordB]"

text \<open>\<open>(?i)\bWHERE\s+(.+?)(?:\s+LIMIT\s+\d+|$)\<close>\<close>

definition where_pattern :: re where
  "where_pattern = seq [WordB, lit_ci ''WHERE'', some space_cls, Grp 1 (some_lazy dot),
     Alt (seq [some space_cls, lit_ci ''LIMIT'', some space_cls, some digit_cls]) Eol]"

text \<open>\<open>(?i)\bLIMIT\s+(\d+)\b\<close>\<close>

definition limit_pattern :: re where
  "limit_pattern = seq [WordB, lit_ci ''LIMIT'', some space_cls, Grp 1 (some digit_cls), WordB]"

text \<open>\<open>\s+AND\s+|\s*&&\s*\<close>\<close>

definition and_pattern :: re where
  "and_pattern = Alt (seq [some space_cls, lit ''AND'', some space_cls])
     (seq [Many True space_cls, lit ''&&'', Many True space_cls])"

text \<open>\<open>^\s*(\w+)\s+LIKE\s+('.+?')\s*$\<close>\<close>

definition quoted :: re where
  "quoted = seq [one (CHR 0x27), some_lazy dot, one (CHR 0x27)]"

definition like_pattern :: re where
  "like_pattern = seq [Bol, Many True space_cls, Grp 1 (some word_cls), some space_cls, lit ''LIKE'',
     some space_cls, Grp 2 quoted, Many True space_cls, Eol]"

text \<open>\<open>^\s*(\w+)\s*=\s*(:\w+|'.+?')\s*$\<close>\<close>

definition eq_pattern :: re where
  "eq_pattern = seq [Bol, Many True space_cls, Grp 1 (some word_cls), Many True space_cls, lit ''='',
     Many True space_cls, Grp 2 (Alt (seq [lit '':'', some word_cls]) quoted), Many True space_cls, Eol]"

section \<open>Conditions\<close>

fun to_str :: "val \<Rightarrow> string" where
  "to_str VNil = []"
| "to_str (VStr s) = s"
| "to_str (VBool b) = (if b then ''true'' else ''false'')"
| "to_str (VFlt x) = format_float x"
| "to_str (VInt i) = itoa i"
| "to_str v = show_v v"

definition split_where :: "string \<Rightarrow> string list" where
  "split_where s = filter (\<lambda>p. p \<noteq> []) (map trim_space (regexp_split and_pattern s))"

text \<open>The text between the quotes of a group, \<open>m[1 : len(m)-1]\<close>.\<close>

definition unquote :: "string \<Rightarrow> string" where
  "unquote s = butlast (tl s)"

text \<open>A parsed condition: a \<open>LIKE\<close> with its compiled pattern, or an equality of texts.\<close>

datatype condition = Like string re | Equals string string

fun holds :: "condition \<Rightarrow> node \<Rightarrow> bool" where
  "holds (Like p r) n = match_string r (to_str (pget (node_props n) p))"
| "holds (Equals p expected) n = (to_str (pget (node_props n) p) = expected)"

definition like_regexp :: "string \<Rightarrow> string" where
  "like_regexp pattern = ''^'' @ replace_all (replace_all pattern ''%'' ''.*'') ''_'' ''.'' @ ''$''"

definition parse_condition :: "(string \<Rightarrow> re res) \<Rightarrow> string \<Rightarrow> props \<Rightarrow> condition res" where
  "parse_condition compile clause params =
     (let clause = trim_space clause
      in case find_submatch like_pattern clause of
           Some m \<Rightarrow>
             (case compile (like_regexp (unquote (submatch m 2))) of
                Inl (ErrMsg e) \<Rightarrow> Inl (ErrMsg (''invalid LIKE pattern: '' @ e))
              | Inl e \<Rightarrow> Inl e
              | Inr r \<Rightarrow> Inr (Like (submatch m 1) r))
         | None \<Rightarrow>
             (case find_submatch eq_pattern clause of
                None \<Rightarrow> Inl (ErrMsg (''unsupported condition: '' @ clause))
              | Some m \<Rightarrow>
                  (let raw = submatch m 2
                   in if has_prefix raw '':''
                      then (let p = trim_prefix raw '':''
                            in case map_of params p of
                                 None \<Rightarrow> Inl (ErrMsg (''parameter '' @ p @ '' not found''))
                               | Some v \<Rightarrow> Inr (Equals (submatch m 1) (to_str v)))
                      else Inr (Equals (submatch m 1) (unquote raw)))))"

text \<open>The conditions of all clauses, or the first error; blank clauses are skipped.\<close>

fun parse_conditions :: "(string \<Rightarrow> re res) \<Rightarrow> string list \<Rightarrow> props \<Rightarrow> condition list res" where
  "parse_conditions compile [] params = Inr []"
| "parse_conditions compile (c # cs) params =
     (if trim_space c = [] then parse_conditions compile cs params
      else (case parse_condition compile (trim_space c) params of
              Inl e \<Rightarrow> Inl e
            | Inr f \<Rightarrow> (case parse_conditions compile cs params of
                          Inl e \<Rightarrow> Inl e
                        | Inr fs \<Rightarrow> Inr (f # fs))))"

section \<open>Execution\<close>

text \<open>The loop over the nodes: it stops once the results reach the limit.\<close>

fun select_nodes :: "int \<Rightarrow> (node \<Rightarrow> bool) \<Rightarrow> node list \<Rightarrow> nat \<Rightarrow> props list" where
  "select_nodes limit P [] found = []"
| "select_nodes limit P (n # ns) found =
     (if P n then present n # (if limit \<le> int (Suc found) then [] else select_nodes limit P ns (Suc found))
      else select_nodes limit P ns found)"

definition query_limit :: "string \<Rightarrow> int" where
  "query_limit q =
     (case find_submatch limit_pattern q of
        None \<Rightarrow> 1000
      | Some m \<Rightarrow> (case atoi_digits (submatch m 1) of None \<Rightarrow> 1000 | Some l \<Rightarrow> l))"

text \<open>The tests of the loop on a node: its kind, then every condition.\<close>

definition selected :: "string \<Rightarrow> condition list \<Rightarrow> node \<Rightarrow> bool" where
  "selected kind conds n = ((kind = [] \<or> node_kind n = kind) \<and> list_all (\<lambda>c. holds c n) conds)"

definition execute_query ::
    "(string \<Rightarrow> re res) \<Rightarrow> string \<Rightarrow> props \<Rightarrow> repo_state \<Rightarrow> props list res" where
  "execute_query compile query params st =
     (let q = trim_space query; upper = to_upper q
      in if \<not> has_prefix upper ''SELECT'' \<and> \<not> has_prefix upper ''MATCH''
         then Inl (ErrMsg select_only_error)
         else if contains upper '';'' then Inl (ErrMsg select_only_error)
         else if list_ex (\<lambda>kw. match_string (keyword_pattern kw) upper) forbidden_keywords
         then Inl (ErrMsg select_only_error)
         else
           (let kind = (case find_submatch from_pattern q of None \<Rightarrow> [] | Some m \<Rightarrow> submatch m 1);
                bad_kind = (case find_submatch from_pattern q of None \<Rightarrow> Inr () | Some _ \<Rightarrow> validate_kind kind)
            in case bad_kind of
                 Inl e \<Rightarrow> Inl e
               | Inr _ \<Rightarrow>
                   (let clauses = (case find_submatch where_pattern q of
                                     None \<Rightarrow> [] | Some m \<Rightarrow> split_where (submatch m 1))
                    in case parse_conditions compile clauses params of
                         Inl e \<Rightarrow> Inl e
                       | Inr conds \<Rightarrow>
                           Inr (select_nodes (query_limit q)
                                  (selected kind conds)
                                  (map (\<lambda>(i, g). to_node i g) (st_nodes st)) 0))))"

section \<open>What a query returns\<close>

lemma select_nodes_take:
  "select_nodes limit P ns found = map present (take (max 1 (nat limit - found)) (filter P ns))"
proof (induction ns arbitrary: found)
  case (Cons n ns)
  have "nat limit - Suc found > 0 \<Longrightarrow> max 1 (nat limit - found) = Suc (max 1 (nat limit - Suc found))"
    by simp
  moreover have "nat limit - Suc found = 0 \<Longrightarrow> max 1 (nat limit - found) = 1" by auto
  moreover have "limit \<le> int (Suc found) \<longleftrightarrow> nat limit - Suc found = 0" by linarith
  ultimately show ?case using Cons by (cases "nat limit - Suc found = 0") simp_all
qed simp

text \<open>The clauses after \<open>WHERE\<close>, none without one.\<close>

definition where_clauses :: "string \<Rightarrow> string list" where
  "where_clauses q = (case find_submatch where_pattern q of None \<Rightarrow> [] | Some m \<Rightarrow> split_where (submatch m 1))"

lemma execute_query_Inr:
  assumes "execute_query compile query params st = Inr rows" and q: "q = trim_space query"
  obtains conds where
    "has_prefix (to_upper q) ''SELECT'' \<or> has_prefix (to_upper q) ''MATCH''" "\<not> contains (to_upper q) '';''"
    "\<not> list_ex (\<lambda>kw. match_string (keyword_pattern kw) (to_upper q)) forbidden_keywords"
    "parse_conditions compile (where_clauses q) params = Inr conds"
    "rows = map present (take (max 1 (nat (query_limit q))) (filter
       (\<lambda>n. (case find_submatch from_pattern q of None \<Rightarrow> True | Some m \<Rightarrow> node_kind n = submatch m 1) \<and> list_all (\<lambda>c. holds c n) conds)
       (map (\<lambda>(i, g). to_node i g) (st_nodes st))))"
proof -
  let ?kind = "case find_submatch from_pattern q of None \<Rightarrow> [] | Some m \<Rightarrow> submatch m 1"
  obtain conds where rows: "rows = select_nodes (query_limit q)
      (selected ?kind conds) (map (\<lambda>(i, g). to_node i g) (st_nodes st)) 0"
    and head: "has_prefix (to_upper q) ''SELECT'' \<or> has_prefix (to_upper q) ''MATCH''" "\<not> contains (to_upper q) '';''"
    "\<not> list_ex (\<lambda>kw. match_string (keyword_pattern kw) (to_upper q)) forbidden_keywords"
    "parse_conditions compile (where_clauses q) params = Inr conds"
    and kind: "find_submatch from_pattern q \<noteq> None \<longrightarrow> kind_ok ?kind"
    using assms
    by (auto simp: execute_query_def where_clauses_def Let_def split: if_splits sum.splits option.splits)
  have "selected ?kind conds = (\<lambda>n. (case find_submatch from_pattern q of None \<Rightarrow> True | Some m \<Rightarrow> node_kind n = submatch m 1) \<and>
      list_all (\<lambda>c. holds c n) conds)"
    using kind by (auto simp: selected_def kind_ok_def fun_eq_iff split: option.split)
  with rows head that show ?thesis by (simp add: select_nodes_take)
qed

text \<open>
  Claim C6. \<open>query_graph\<close> answers only a text that starts with \<open>SELECT\<close> or \<open>MATCH\<close>, has no
  semicolon and no modifying keyword as a word. Its rows are the presented nodes, in iteration order,
  that have the kind named after \<open>FROM\<close>, when there is one, and meet every condition after \<open>WHERE\<close>;
  of these the first ones up to the limit, but one at least even under \<open>LIMIT 0\<close>.
\<close>

theorem query_rows:
  assumes "execute_query compile query params st = Inr rows" and "q = trim_space query"
  shows "(has_prefix (to_upper q) ''SELECT'' \<or> has_prefix (to_upper q) ''MATCH'') \<and> \<not> contains (to_upper q) '';'' \<and>
    \<not> list_ex (\<lambda>kw. match_string (keyword_pattern kw) (to_upper q)) forbidden_keywords \<and>
    (\<exists>conds. parse_conditions compile (where_clauses q) params = Inr conds \<and>
       rows = map present (take (max 1 (nat (query_limit q))) (filter
         (\<lambda>n. (case find_submatch from_pattern q of None \<Rightarrow> True | Some m \<Rightarrow> node_kind n = submatch m 1) \<and>
              list_all (\<lambda>c. holds c n) conds)
         (map (\<lambda>(i, g). to_node i g) (st_nodes st)))))"
  by (rule execute_query_Inr [OF assms]) (intro conjI exI; assumption)

definition demo_state :: repo_state where
  "demo_state = \<lparr>schema_version = 2,
     st_nodes = [(''a'', \<lparr>gob_kind = ''F'', gob_props = []\<rparr>), (''b'', \<lparr>gob_kind = ''F'', gob_props = []\<rparr>)],
     st_edges = []\<rparr>"

text \<open>A query with \<open>LIMIT 0\<close> gives one row.\<close>

lemma query_rows_witness:
  "\<exists>rows conds. execute_query (\<lambda>_. Inl ErrNotFound) ''MATCH FROM F LIMIT 0'' [] demo_state = Inr rows \<and> length rows = 1 \<and>
     rows = map present (take 1 (filter (\<lambda>n. node_kind n = ''F'' \<and> list_all (\<lambda>c. holds c n) conds)
       (map (\<lambda>(i, g). to_node i g) (st_nodes demo_state))))"
proof -
  let ?q = "''MATCH FROM F LIMIT 0''"
  let ?res = "execute_query (\<lambda>_. Inl ErrNotFound) ?q [] demo_state"
  have q: "trim_space ?q = ?q" "to_upper ?q = ?q" "has_prefix ?q ''MATCH''" "\<not> contains ?q '';''"
    "\<not> list_ex (\<lambda>kw. match_string (keyword_pattern kw) ?q) forbidden_keywords" by code_simp+
  have parts: "find_submatch where_pattern ?q = None" "query_limit ?q = 0" "kind_ok ''F''"
    "map_option (\<lambda>m. submatch m 1) (find_submatch from_pattern ?q) = Some ''F''" by code_simp+
  obtain m where m: "find_submatch from_pattern ?q = Some m" "submatch m 1 = ''F''"
    using parts(4) by (cases "find_submatch from_pattern ?q") simp_all
  have res: "?res = Inr [present (to_node ''a'' \<lparr>gob_kind = ''F'', gob_props = []\<rparr>)]"
    unfolding execute_query_def Let_def q m parts(1)
    using q(3-5) parts(2,3) m(2)
    by (simp add: select_nodes_take demo_state_def selected_def to_node_def)
  have one: "max 1 (nat 0) = 1" by simp
  from query_rows [OF res refl] obtain conds where
    rows: "[present (to_node ''a'' \<lparr>gob_kind = ''F'', gob_props = []\<rparr>)] =
     map present (take 1 (filter (\<lambda>n. node_kind n = ''F'' \<and> list_all (\<lambda>c. holds c n) conds)
       (map (\<lambda>(i, g). to_node i g) (st_nodes demo_state))))"
    unfolding q(1) parts(2) one m option.case by (elim conjE exE) (rule that)
  show ?thesis by (intro exI conjI) (rule res, simp, rule rows)
qed

end
