(* ===== verification/PersistentGraph.thy ===== *)
theory PersistentGraph
  imports GraphQuery
begin

text \<open>
  \<open>PersistentGraphRepository\<close> of \<open>internal/graph/persistent.go\<close>: a journal of unsaved
  changes over the state of a graph file that other processes may rewrite. With an empty path
  the repository delegates to an in-memory one.

  The state holds the fields of the Go struct (its mutex included, so that a second lock by
  the same goroutine is a deadlock) and the part of the world an operation reads: the graph
  file with its stat stamp, the stamp the next write will get, the clock in seconds, the
  supply of ids and which file operations fail.
\<close>

section \<open>State\<close>

type_synonym stamp = "int \<times> int"

record p_repo =
  db_path :: string
  read_cache :: pcache
  mem_part :: "mem_repo option"
  jrnl :: journal
  seen_stamp :: stamp
  cached_state :: "repo_state option"
  p_generation :: "64 word"
  mu_held :: bool
  disk :: disk_file
  file_stamp :: stamp
  next_stamp :: stamp
  clock :: string
  new_ids :: "nat \<Rightarrow> string"
  ids_drawn :: nat
  io_fault :: "string \<Rightarrow> string option"

definition stamp_of :: "p_repo \<Rightarrow> stamp" where
  "stamp_of r = (if disk r = Absent then (0, 0) else file_stamp r)"

definition fresh_id :: "p_repo \<Rightarrow> string \<times> p_repo" where
  "fresh_id r = (new_ids r (ids_drawn r), r\<lparr>ids_drawn := Suc (ids_drawn r)\<rparr>)"

definition bump_p :: "p_repo \<Rightarrow> p_repo" where
  "bump_p r = r\<lparr>p_generation := p_generation r + 1\<rparr>"

definition on_cache :: "(pcache \<Rightarrow> pcache) \<Rightarrow> p_repo \<Rightarrow> p_repo" where
  "on_cache f r = r\<lparr>read_cache := f (read_cache r)\<rparr>"

definition on_journal :: "(journal \<Rightarrow> journal) \<Rightarrow> p_repo \<Rightarrow> p_repo" where
  "on_journal f r = r\<lparr>jrnl := f (jrnl r)\<rparr>"

text \<open>
  \<open>r.mu.Lock(); defer r.mu.Unlock()\<close> around a body. A body that waits for the mutex it holds never
  returns, and the mutex stays locked; \<open>Deadlock\<close> is the result of a call that never returns.
\<close>

definition blocked :: "'a res \<Rightarrow> bool" where
  "blocked res = (case res of Inl Deadlock \<Rightarrow> True | _ \<Rightarrow> False)"

definition with_lock :: "(p_repo \<Rightarrow> 'a res \<times> p_repo) \<Rightarrow> p_repo \<Rightarrow> 'a res \<times> p_repo" where
  "with_lock f r =
     (if mu_held r then (Inl Deadlock, r)
      else (case f (r\<lparr>mu_held := True\<rparr>) of (res, r') \<Rightarrow>
              (res, if blocked res then r' else r'\<lparr>mu_held := False\<rparr>)))"

text \<open>A call on \<open>r.mem\<close>, a nil pointer unless the path is empty.\<close>

definition on_mem :: "(mem_repo \<Rightarrow> 'a res \<times> mem_repo) \<Rightarrow> p_repo \<Rightarrow> 'a res \<times> p_repo" where
  "on_mem f r =
     (case mem_part r of
        None \<Rightarrow> (Inl (Panic ''invalid memory address or nil pointer dereference''), r)
      | Some m \<Rightarrow> (case f m of (res, m') \<Rightarrow> (res, r\<lparr>mem_part := Some m'\<rparr>)))"

definition read_file :: "p_repo \<Rightarrow> (repo_state \<times> bool) res \<times> p_repo" where
  "read_file r =
     (case read_state (clock r) (new_ids r) (ids_drawn r) (disk r) of
        (res, k) \<Rightarrow> (res, r\<lparr>ids_drawn := k\<rparr>))"

text \<open>\<open>readEffectiveStateLocked\<close>. The state read anew is cached and then merged in place.\<close>

definition effective_state :: "p_repo \<Rightarrow> repo_state res \<times> p_repo" where
  "effective_state r =
     (if db_path r = [] then (Inr empty_state, r)
      else
        (let current = stamp_of r;
             reread = (\<lambda>r. case read_file r of
                (Inl e, r) \<Rightarrow> (Inl e, r)
              | (Inr (st, _), r) \<Rightarrow>
                  (let st = merge_journal (jrnl r) st
                   in (Inr st, r\<lparr>cached_state := Some st, seen_stamp := current\<rparr>)))
         in case cached_state r of
              None \<Rightarrow> reread r
            | Some st \<Rightarrow>
                (if current = seen_stamp r then (Inr (merge_journal (jrnl r) (clone_state st)), r)
                 else reread (bump_p r))))"

section \<open>Opening\<close>

definition load :: "p_repo \<Rightarrow> unit res \<times> p_repo" where
  "load r =
     (case disk r of
        Absent \<Rightarrow> (Inl ErrNotFound, r)
      | _ \<Rightarrow>
          (case io_fault r ''lock'' of
             Some e \<Rightarrow> (Inl (ErrMsg e), r)
           | None \<Rightarrow>
               (case read_file r of
                  (Inl e, r) \<Rightarrow> (Inl e, r)
                | (Inr (st, migrated), r) \<Rightarrow>
                    (Inr (), (on_journal (\<lambda>j. j\<lparr>needs_save := migrated\<rparr>) (on_cache cache_clear r))
                       \<lparr>cached_state := Some st, seen_stamp := stamp_of r\<rparr>))))"

text \<open>
  \<open>NewPersistentRepositoryWithCache\<close> in a world: a missing file is no error, any other
  failure is. A missing file is reported by \<open>os.Stat\<close> as \<open>ErrNotExist\<close>, here
  \<open>ErrNotFound\<close>.
\<close>

definition new_persistent :: "string \<Rightarrow> int \<Rightarrow> int \<Rightarrow> p_repo \<Rightarrow> unit res \<times> p_repo" where
  "new_persistent path max_nodes max_edges world =
     (let r = world\<lparr>db_path := path, read_cache := new_pcache max_nodes max_edges,
                    mem_part := (if path = [] then Some (new_memory_repo (new_ids world)) else None),
                    jrnl := empty_journal, seen_stamp := (0, 0), cached_state := None,
                    p_generation := 0, mu_held := False\<rparr>
      in if path = [] then (Inr (), r)
         else (case load r of
                 (Inl ErrNotFound, r) \<Rightarrow> (Inr (), r)
               | (Inl (ErrMsg e), r) \<Rightarrow> (Inl (ErrMsg (''load graph: '' @ e)), r)
               | (Inl e, r) \<Rightarrow> (Inl e, r)
               | (Inr u, r) \<Rightarrow> (Inr u, r)))"

section \<open>Upserts\<close>

text \<open>\<open>findNodeByIdentity\<close>: the first match in the iteration order of the map.\<close>

definition find_node_by_identity :: "repo_state \<Rightarrow> string \<Rightarrow> props \<Rightarrow> node option" where
  "find_node_by_identity st kind identity =
     find (\<lambda>n. node_kind n = kind \<and> list_all (\<lambda>(k, v). deep_eq (pget (node_props n) k) v) identity)
       (map (\<lambda>(i, g). to_node i g) (st_nodes st))"

definition upsert_node_in_memory ::
    "string \<Rightarrow> string \<Rightarrow> props \<Rightarrow> props \<Rightarrow> p_repo \<Rightarrow> node res \<times> p_repo" where
  "upsert_node_in_memory now kind identity properties =
     on_mem (upsert_node now kind identity properties)"

definition record_dirty :: "string \<Rightarrow> node_snap \<Rightarrow> p_repo \<Rightarrow> p_repo" where
  "record_dirty i snap = on_journal (\<lambda>j. j\<lparr>dirty := AList.update i snap (dirty j)\<rparr>)"

definition upsert_existing :: "string \<Rightarrow> string \<Rightarrow> props \<Rightarrow> props \<Rightarrow> node \<Rightarrow> p_repo \<Rightarrow> node res \<times> p_repo" where
  "upsert_existing now kind identity properties existing r =
     (let n = (clone_node existing)\<lparr>node_props :=
                 put ''updated_at'' (VStr now) (put_all properties (node_props existing))\<rparr>;
          r = on_cache (cache_put_node n) r;
          id_map = (case map_of (dirty (jrnl r)) (node_id existing) of
                      Some snap \<Rightarrow> snap_identity snap | None \<Rightarrow> identity)
      in (Inr n, record_dirty (node_id n)
             \<lparr>snap_id = node_id existing, snap_kind = kind, snap_props = node_props n,
              snap_identity = id_map\<rparr> r))"

definition upsert_fresh :: "string \<Rightarrow> string \<Rightarrow> props \<Rightarrow> props \<Rightarrow> p_repo \<Rightarrow> node res \<times> p_repo" where
  "upsert_fresh now kind identity properties r =
     (let (fresh, r) = (if has_key (put_all properties (put_all identity [])) ''id'' then ([], r)
                        else fresh_id r)
      in case new_node now fresh kind identity properties of
           Inl e \<Rightarrow> (Inl e, r)
         | Inr n0 \<Rightarrow>
             (let n = n0\<lparr>node_props := put ''updated_at'' (VStr now) (node_props n0)\<rparr>
              in (Inr n, record_dirty (node_id n)
                    \<lparr>snap_id = node_id n, snap_kind = kind, snap_props = node_props n,
                     snap_identity = identity\<rparr> (on_cache (cache_put_node n) r))))"

definition p_upsert_node :: "string \<Rightarrow> string \<Rightarrow> props \<Rightarrow> props \<Rightarrow> p_repo \<Rightarrow> node res \<times> p_repo" where
  "p_upsert_node now kind identity properties r =
     (case validate_kind kind of
        Inl e \<Rightarrow> (Inl e, r)
      | Inr _ \<Rightarrow>
          with_lock (\<lambda>r.
            if db_path r = [] then upsert_node_in_memory now kind identity properties r
            else (case effective_state (bump_p r) of
                    (Inl e, r) \<Rightarrow> (Inl e, r)
                  | (Inr st, r) \<Rightarrow>
                      (case find_node_by_identity st kind identity of
                         Some existing \<Rightarrow> upsert_existing now kind identity properties existing r
                       | None \<Rightarrow> upsert_fresh now kind identity properties r))) r)"

text \<open>The batch runs every item on \<open>r.mem\<close>; the errors of single items are dropped.\<close>

fun p_upsert_items :: "string \<Rightarrow> string \<Rightarrow> batch_node list \<Rightarrow> p_repo \<Rightarrow> node list res \<times> p_repo" where
  "p_upsert_items now kind [] r = (Inr [], r)"
| "p_upsert_items now kind (it # its) r =
     (case upsert_node_in_memory now kind (item_identity it) (item_properties it) r of
        (Inl (Panic e), r) \<Rightarrow> (Inl (Panic e), r)
      | (Inl _, r) \<Rightarrow> p_upsert_items now kind its r
      | (Inr n, r) \<Rightarrow>
          (case p_upsert_items now kind its r of
             (Inl e, r) \<Rightarrow> (Inl e, r)
           | (Inr ns, r) \<Rightarrow> (Inr (n # ns), r)))"

definition p_upsert_nodes_batch ::
    "string \<Rightarrow> string \<Rightarrow> batch_node list \<Rightarrow> p_repo \<Rightarrow> node list res \<times> p_repo" where
  "p_upsert_nodes_batch now kind items r =
     (case validate_kind kind of
        Inl e \<Rightarrow> (Inl e, r)
      | Inr _ \<Rightarrow>
          with_lock (\<lambda>r.
            if db_path r = [] then on_mem (upsert_nodes_batch now kind items) r
            else p_upsert_items now kind items (bump_p r)) r)"

section \<open>Links\<close>

text \<open>\<open>Link\<close>'s test for an equal edge; an empty end matches any.\<close>

definition same_or_any :: "string \<Rightarrow> string \<Rightarrow> string \<Rightarrow> props option \<Rightarrow> edge \<Rightarrow> bool" where
  "same_or_any kind from to properties e =
     (edge_kind e = kind \<and> (edge_from e = from \<or> from = []) \<and> (edge_to e = to \<or> to = []) \<and>
      deep_eq_map (edge_props e) properties)"

definition p_link :: "string \<Rightarrow> string \<Rightarrow> string \<Rightarrow> props option \<Rightarrow> p_repo \<Rightarrow> edge res \<times> p_repo" where
  "p_link kind from to properties r =
     (case validate_kind kind of
        Inl e \<Rightarrow> (Inl e, r)
      | Inr _ \<Rightarrow>
          with_lock (\<lambda>r.
            if db_path r = [] then on_mem (link kind from to properties) r
            else (case effective_state (bump_p r) of
                    (Inl e, r) \<Rightarrow> (Inl e, r)
                  | (Inr st, r) \<Rightarrow>
                      (case find (same_or_any kind from to properties) (map snd (st_edges st)) of
                         Some e \<Rightarrow> (Inr e, on_cache (cache_put_edge e) r)
                       | None \<Rightarrow>
                           (let (i, r) = fresh_id r;
                                e = new_edge i kind from to properties;
                                r = on_cache (cache_put_edge e) r
                            in (Inr e, on_journal (\<lambda>j. j\<lparr>new_edges := AList.update i
                                  \<lparr>esnap_id = i, esnap_kind = kind, esnap_from = from, esnap_to = to,
                                   esnap_props = clone_map properties\<rparr> (new_edges j)\<rparr>) r))))) r)"

text \<open>\<open>LinkBatch\<close> calls \<open>Link\<close> while it holds the mutex.\<close>

fun p_link_items :: "batch_edge list \<Rightarrow> p_repo \<Rightarrow> edge list res \<times> p_repo" where
  "p_link_items [] r = (Inr [], r)"
| "p_link_items (it # its) r =
     (case p_link (item_kind it) (item_from it) (item_to it) (item_props it) r of
        (Inl Deadlock, r) \<Rightarrow> (Inl Deadlock, r)
      | (Inl (Panic e), r) \<Rightarrow> (Inl (Panic e), r)
      | (Inl _, r) \<Rightarrow> p_link_items its r
      | (Inr e, r) \<Rightarrow>
          (case p_link_items its r of
             (Inl e, r) \<Rightarrow> (Inl e, r)
           | (Inr es, r) \<Rightarrow> (Inr (e # es), r)))"

definition p_link_batch :: "batch_edge list \<Rightarrow> p_repo \<Rightarrow> edge list res \<times> p_repo" where
  "p_link_batch items r =
     with_lock (\<lambda>r.
       if db_path r = [] then on_mem (link_batch items) r
       else p_link_items items (bump_p r)) r"

section \<open>Removals\<close>

definition add_once :: "string \<Rightarrow> string list \<Rightarrow> string list" where
  "add_once i xs = (if i \<in> set xs then xs else xs @ [i])"

definition p_remove_nodes :: "string list \<Rightarrow> p_repo \<Rightarrow> unit res \<times> p_repo" where
  "p_remove_nodes ids r =
     with_lock (\<lambda>r.
       if db_path r = [] then on_mem (remove_nodes ids) r
       else
         (let r = bump_p r;
              r = fold (\<lambda>i r. on_journal (\<lambda>j. j\<lparr>dirty := AList.delete i (dirty j),
                                               deleted_nodes := add_once i (deleted_nodes j)\<rparr>)
                                (on_cache (cache_remove_node i) r)) (remdups ids) r;
              gone = filter (\<lambda>(_, e). esnap_from e \<in> set ids \<or> esnap_to e \<in> set ids) (new_edges (jrnl r));
              r = fold (\<lambda>(i, _) r. on_cache (cache_remove_edge i)
                            (on_journal (\<lambda>j. j\<lparr>new_edges := AList.delete i (new_edges j)\<rparr>) r)) gone r
          in (Inr (), r))) r"

definition p_remove_edges :: "string list \<Rightarrow> p_repo \<Rightarrow> unit res \<times> p_repo" where
  "p_remove_edges ids r =
     with_lock (\<lambda>r.
       if db_path r = [] then on_mem (remove_edges ids) r
       else
         (let r = bump_p r;
              r = fold (\<lambda>i r. on_journal (\<lambda>j. j\<lparr>new_edges := AList.delete i (new_edges j),
                                               deleted_edges := add_once i (deleted_edges j)\<rparr>)
                                (on_cache (cache_remove_edge i) r)) (remdups ids) r
          in (Inr (), r))) r"

section \<open>Lookups\<close>

text \<open>\<open>GetNode\<close>: the cache first, then the effective state, then the journal.\<close>

definition p_get_node :: "string \<Rightarrow> p_repo \<Rightarrow> node res \<times> p_repo" where
  "p_get_node i r =
     with_lock (\<lambda>r.
       if db_path r = [] then on_mem (\<lambda>m. (get_node i m, m)) r
       else (case cache_get_node i (read_cache r) of
               (Some n, c) \<Rightarrow> (Inr n, r\<lparr>read_cache := c\<rparr>)
             | (None, c) \<Rightarrow>
                 (case effective_state r of
                    (Inl e, r) \<Rightarrow> (Inl e, r)
                  | (Inr st, r) \<Rightarrow>
                      (case map_of (st_nodes st) i of
                         Some g \<Rightarrow> (Inr (to_node i g), on_cache (cache_put_node (to_node i g)) r)
                       | None \<Rightarrow>
                           (case map_of (dirty (jrnl r)) i of
                              Some snap \<Rightarrow>
                                (let n = \<lparr>node_id = snap_id snap, node_kind = snap_kind snap,
                                          node_props = snap_props snap\<rparr>
                                 in (Inr n, on_cache (cache_put_node n) r))
                            | None \<Rightarrow> (Inl ErrNotFound, r)))))) r"

definition matching_nodes :: "string \<Rightarrow> props \<Rightarrow> repo_state \<Rightarrow> node list" where
  "matching_nodes kind filters st =
     sort_key node_id (filter (node_matches kind filters) (map (\<lambda>(i, g). to_node i g) (st_nodes st)))"

definition p_find_nodes :: "string \<Rightarrow> props \<Rightarrow> p_repo \<Rightarrow> node list res \<times> p_repo" where
  "p_find_nodes kind filters r =
     with_lock (\<lambda>r.
       if db_path r = [] then on_mem (\<lambda>m. (find_nodes kind filters m, m)) r
       else (case effective_state r of
               (Inl e, r) \<Rightarrow> (Inl e, r)
             | (Inr st, r) \<Rightarrow>
                 (let ns = matching_nodes kind filters st
                  in (Inr ns, on_cache (fold cache_put_node ns) r)))) r"

definition state_neighbors :: "string \<Rightarrow> string \<Rightarrow> direction \<Rightarrow> repo_state \<Rightarrow> (edge \<times> node) list" where
  "state_neighbors i kind dir st =
     concat (map (\<lambda>(_, e). if kind \<noteq> [] \<and> edge_kind e \<noteq> kind then []
                           else edge_neighbors (map (\<lambda>(j, g). (j, to_node j g)) (st_nodes st)) i dir e)
              (st_edges st))"

definition p_neighbors :: "string \<Rightarrow> string \<Rightarrow> direction \<Rightarrow> p_repo \<Rightarrow> (edge \<times> node) list res \<times> p_repo" where
  "p_neighbors i kind dir r =
     with_lock (\<lambda>r.
       if db_path r = [] then on_mem (\<lambda>m. (neighbors i kind dir m, m)) r
       else (case effective_state r of
               (Inl e, r) \<Rightarrow> (Inl e, r)
             | (Inr st, r) \<Rightarrow>
                 (let ens = state_neighbors i kind dir st
                  in (Inr ens, on_cache (fold (\<lambda>(e, n) c. cache_put_edge e (cache_put_node n c)) ens) r)))) r"

text \<open>\<open>QueryReadonly\<close> takes no lock.\<close>

definition p_query_readonly ::
    "(string \<Rightarrow> re res) \<Rightarrow> string \<Rightarrow> props \<Rightarrow> p_repo \<Rightarrow> props list res \<times> p_repo" where
  "p_query_readonly compile query params r =
     (case effective_state r of
        (Inl e, r) \<Rightarrow> (Inl e, r)
      | (Inr st, r) \<Rightarrow> (execute_query compile query params st, r))"

section \<open>Refreshing and saving\<close>

definition refresh :: "p_repo \<Rightarrow> unit res \<times> p_repo" where
  "refresh r =
     with_lock (\<lambda>r.
       if db_path r = [] \<or> \<not> journal_empty (jrnl r) \<or> stamp_of r = seen_stamp r then (Inr (), r)
       else (case io_fault r ''lock'' of
               Some e \<Rightarrow> (Inl (ErrMsg e), r)
             | None \<Rightarrow>
                 (case read_file r of
                    (Inl e, r) \<Rightarrow> (Inl e, r)
                  | (Inr (st, migrated), r) \<Rightarrow>
                      (let st = merge_journal (jrnl r) st
                       in (Inr (), (on_journal (\<lambda>j. j\<lparr>needs_save := migrated\<rparr>) (on_cache cache_clear r))
                                     \<lparr>cached_state := Some st, seen_stamp := stamp_of r\<rparr>))))) r"

definition first_fault :: "string list \<Rightarrow> p_repo \<Rightarrow> string option" where
  "first_fault stages r =
     (case filter (\<lambda>s. io_fault r s \<noteq> None) stages of [] \<Rightarrow> None | s # _ \<Rightarrow> io_fault r s)"

text \<open>\<open>Save\<close>: read the file again, merge the journal, write a temporary file, rename it.\<close>

definition save :: "p_repo \<Rightarrow> unit res \<times> p_repo" where
  "save r =
     with_lock (\<lambda>r.
       if db_path r = [] \<or> journal_empty (jrnl r) then (Inr (), r)
       else (case first_fault [''mkdir'', ''lock''] r of
               Some e \<Rightarrow> (Inl (ErrMsg e), r)
             | None \<Rightarrow>
                 (case read_file r of
                    (Inl e, r) \<Rightarrow> (Inl e, r)
                  | (Inr (st, _), r) \<Rightarrow>
                      (let st = merge_journal (jrnl r) st
                       in case first_fault [''encode'', ''write'', ''rename''] r of
                            Some e \<Rightarrow> (Inl (ErrMsg e), r)
                          | None \<Rightarrow>
                              (Inr (), (on_cache cache_clear r)
                                 \<lparr>disk := Stored st, file_stamp := next_stamp r, cached_state := Some st,
                                  seen_stamp := next_stamp r, jrnl := empty_journal\<rparr>))))) r"

definition close_repo :: "p_repo \<Rightarrow> unit res \<times> p_repo" where
  "close_repo r =
     (case save r of
        (Inl e, r) \<Rightarrow> (Inl e, r)
      | (Inr _, r) \<Rightarrow> (Inr (), on_cache cache_clear r))"

section \<open>Reports\<close>

definition p_graph_snapshot :: "p_repo \<Rightarrow> snapshot res \<times> p_repo" where
  "p_graph_snapshot r =
     with_lock (\<lambda>r.
       if db_path r = [] then on_mem (\<lambda>m. (graph_snapshot m, m)) r
       else (case effective_state r of
               (Inl e, r) \<Rightarrow> (Inl e, r)
             | (Inr st, r) \<Rightarrow>
                 (Inr \<lparr>snap_nodes = sort_key node_id (map (\<lambda>(i, g). to_node i g) (st_nodes st)),
                       snap_edges = sort_key edge_id (map (\<lambda>(i, e). e\<lparr>edge_id := i\<rparr>) (st_edges st)),
                       snap_generation = p_generation r\<rparr>, r))) r"

text \<open>\<open>Generation\<close> reads the state only to notice a rewritten file.\<close>

definition p_generation_of :: "p_repo \<Rightarrow> (64 word) res \<times> p_repo" where
  "p_generation_of r =
     with_lock (\<lambda>r.
       if db_path r = [] then on_mem (\<lambda>m. (Inr (generation m), m)) r
       else (case effective_state r of (_, r) \<Rightarrow> (Inr (p_generation r), r))) r"

text \<open>\<open>Counts\<close> and \<open>EdgesOfKind\<close> give nil when the state cannot be read.\<close>

definition p_counts :: "p_repo \<Rightarrow> (nat store \<times> nat store) option res \<times> p_repo" where
  "p_counts r =
     with_lock (\<lambda>r.
       if db_path r = [] then on_mem (\<lambda>m. (Inr (Some (counts m)), m)) r
       else (case effective_state r of
               (Inl _, r) \<Rightarrow> (Inr None, r)
             | (Inr st, r) \<Rightarrow>
                 (Inr (Some (fold (\<lambda>(_, g). count_up (gob_kind g)) (st_nodes st) [],
                             fold (\<lambda>(_, e). count_up (edge_kind e)) (st_edges st) [])), r))) r"

definition p_edges_of_kind :: "string \<Rightarrow> p_repo \<Rightarrow> (string \<times> string) list res \<times> p_repo" where
  "p_edges_of_kind kind r =
     with_lock (\<lambda>r.
       if db_path r = [] then on_mem (\<lambda>m. (Inr (edges_of_kind kind m), m)) r
       else (case effective_state r of
               (Inl _, r) \<Rightarrow> (Inr [], r)
             | (Inr st, r) \<Rightarrow>
                 (Inr (map (\<lambda>e. (edge_from e, edge_to e))
                        (filter (\<lambda>e. edge_kind e = kind) (map snd (st_edges st)))), r))) r"

definition p_cache_nodes :: "p_repo \<Rightarrow> nat res \<times> p_repo" where
  "p_cache_nodes r =
     with_lock (\<lambda>r.
       if db_path r = [] then on_mem (\<lambda>m. (Inr (node_count m), m)) r
       else (Inr (cache_node_count (read_cache r)), r)) r"

definition p_cache_edges :: "p_repo \<Rightarrow> nat res \<times> p_repo" where
  "p_cache_edges r =
     with_lock (\<lambda>r.
       if db_path r = [] then on_mem (\<lambda>m. (Inr (edge_count m), m)) r
       else (Inr (cache_edge_count (read_cache r)), r)) r"

definition persistent_ops :: "p_repo repo_ops" where
  "persistent_ops =
     \<lparr>op_upsert = p_upsert_node, op_get = p_get_node, op_find = p_find_nodes, op_link = p_link,
      op_neighbors = p_neighbors, op_remove_nodes = p_remove_nodes, op_remove_edges = p_remove_edges\<rparr>"

section \<open>Saving\<close>

lemma blocked_simps [simp]:
  "\<not> blocked (Inr x)" "blocked (Inl e) \<longleftrightarrow> e = Deadlock"
  by (simp_all add: blocked_def split: err.split)

lemma with_lock_free [simp]:
  "\<not> mu_held r \<Longrightarrow> with_lock f r =
     (case f (r\<lparr>mu_held := True\<rparr>) of (res, r') \<Rightarrow> (res, if blocked res then r' else r'\<lparr>mu_held := False\<rparr>))"
  by (simp add: with_lock_def)

lemma with_lock_okD: "with_lock f r = (Inr v, r') \<Longrightarrow> \<not> mu_held r"
  by (auto simp: with_lock_def)

lemma first_fault_upd [simp]: "first_fault xs (r\<lparr>mu_held := b\<rparr>) = first_fault xs r"
  "first_fault xs (r\<lparr>ids_drawn := k\<rparr>) = first_fault xs r"
  by (simp_all add: first_fault_def split: list.split)

lemma save_ok:
  assumes "save r = (Inr u, r')" "db_path r \<noteq> []" "\<not> journal_empty (jrnl r)"
    and rd: "read_state (clock r) (new_ids r) (ids_drawn r) (disk r) = (Inr (st0, m), k)"
  shows "disk r' = Stored (merge_journal (jrnl r) st0)" "jrnl r' = empty_journal"
    "cached_state r' = Some (merge_journal (jrnl r) st0)" "stamp_of r' = seen_stamp r'" "db_path r' = db_path r"
proof -
  have held: "\<not> mu_held r" using assms(1) unfolding save_def by (rule with_lock_okD)
  have nofault: "first_fault [''mkdir'', ''lock''] r = None" "first_fault [''encode'', ''write'', ''rename''] r = None"
    using assms held by (auto simp: save_def read_file_def Let_def split: option.splits)
  let ?r' = "((on_cache cache_clear (r\<lparr>mu_held := True, ids_drawn := k\<rparr>))
       \<lparr>disk := Stored (merge_journal (jrnl r) st0), file_stamp := next_stamp r,
        cached_state := Some (merge_journal (jrnl r) st0), seen_stamp := next_stamp r,
        jrnl := empty_journal\<rparr>)\<lparr>mu_held := False\<rparr>"
  have "r' = ?r'"
    using assms held nofault by (simp add: save_def read_file_def Let_def)
  then show "disk r' = Stored (merge_journal (jrnl r) st0)" "jrnl r' = empty_journal"
    "cached_state r' = Some (merge_journal (jrnl r) st0)" "stamp_of r' = seen_stamp r'" "db_path r' = db_path r"
    by (simp_all add: stamp_of_def on_cache_def)
qed

text \<open>
  Claim C7. A successful \<open>Save\<close> loses nothing and leaves nothing to do: the file holds the
  state that was on disk merged with the journal, the journal is empty, the repository's own
  view is that state, and any process that opens the file reads exactly that state, with no
  repair and no migration pending.
\<close>

theorem save_then_reopen:
  assumes "save r = (Inr u, r')" "db_path r \<noteq> []" "\<not> journal_empty (jrnl r)"
    and "journal_ok (jrnl r)" "keyed_file (disk r)" "\<forall>k. new_ids r k \<noteq> []"
    and "read_state (clock r) (new_ids r) (ids_drawn r) (disk r) = (Inr (st0, m), k)"
  shows "disk r' = Stored (merge_journal (jrnl r) st0) \<and> jrnl r' = empty_journal \<and>
    effective_state r' = (Inr (merge_journal (jrnl r) st0), r') \<and>
    read_state now gen d (disk r') = (Inr (merge_journal (jrnl r) st0, False), d)"
proof -
  let ?st = "merge_journal (jrnl r) st0"
  have r': "disk r' = Stored ?st" "jrnl r' = empty_journal" "cached_state r' = Some ?st"
    "stamp_of r' = seen_stamp r'" "db_path r' = db_path r"
    using save_ok [OF assms(1-3,7)] by simp_all
  have "state_ok ?st"
    using read_state_gives_ok [OF assms(7,5,6)] assms(4) by (rule merge_journal_ok)
  then show ?thesis
    using r' assms(2) by (simp add: effective_state_def read_state_ok clone_state_def)
qed

text \<open>No operation changes the supply of ids.\<close>

lemma new_ids_simps [simp]:
  "new_ids (snd (read_file r)) = new_ids r" "new_ids (on_cache f r) = new_ids r"
  "new_ids (on_journal g r) = new_ids r" "new_ids (bump_p r) = new_ids r"
  "new_ids (snd (fresh_id r)) = new_ids r" "new_ids (record_dirty i s r) = new_ids r"
  by (simp_all add: read_file_def on_cache_def on_journal_def bump_p_def fresh_id_def record_dirty_def
      split: prod.split)

lemma new_ids_effective [simp]: "new_ids (snd (effective_state r)) = new_ids r"
proof -
  have "new_ids r' = new_ids (bump_p r)" if "read_file (bump_p r) = (x, r')" for x r'
    using that new_ids_simps(1) [of "bump_p r"] by simp
  moreover have "new_ids r' = new_ids r" if "read_file r = (x, r')" for x r'
    using that new_ids_simps(1) [of r] by simp
  ultimately show ?thesis
    by (auto simp: effective_state_def Let_def split: option.split prod.split sum.split)
qed

lemma new_ids_upsert [simp]:
  "new_ids (snd (upsert_existing now kind identity properties n r)) = new_ids r"
  "new_ids (snd (upsert_fresh now kind identity properties r)) = new_ids r"
  by (auto simp: upsert_existing_def upsert_fresh_def fresh_id_def Let_def split: prod.split sum.split option.split)

lemma new_ids_p_upsert [simp]: "new_ids (snd (p_upsert_node now kind identity properties r)) = new_ids r"
proof -
  have eff: "new_ids r2 = new_ids r1" if "effective_state r1 = (x, r2)" for x r1 r2
    using new_ids_effective [of r1] that by simp
  have mem: "new_ids r2 = new_ids r1" if "on_mem g r1 = (x, r2)" for x r1 r2 and g :: "mem_repo \<Rightarrow> node res \<times> mem_repo"
    using that by (auto simp: on_mem_def split: option.splits prod.splits)
  have ex: "new_ids r2 = new_ids r1" if "upsert_existing now kind identity properties n r1 = (x, r2)" for x n r1 r2
    using new_ids_upsert(1) [of now kind identity properties n r1] that by simp
  have fr: "new_ids r2 = new_ids r1" if "upsert_fresh now kind identity properties r1 = (x, r2)" for x r1 r2
    using new_ids_upsert(2) [of now kind identity properties r1] that by simp
  show ?thesis
    unfolding p_upsert_node_def with_lock_def upsert_node_in_memory_def
    by (auto split: sum.split prod.split option.split dest!: eff mem ex fr)
qed

definition demo_world :: p_repo where
  "demo_world =
     \<lparr>db_path = ''graph.db'', read_cache = new_pcache 4 4, mem_part = None, jrnl = empty_journal,
      seen_stamp = (0, 0), cached_state = None, p_generation = 0, mu_held = False, disk = Absent,
      file_stamp = (0, 0), next_stamp = (1, 1), clock = ''now'', new_ids = demo_ids, ids_drawn = 0,
      io_fault = (\<lambda>_. None)\<rparr>"

lemma demo_ids_not_Nil: "\<forall>k. demo_ids k \<noteq> []"
  by (simp add: demo_ids_def)

lemma save_then_reopen_witness:
  "let r = snd (p_upsert_node ''t1'' ''Function'' [(''name'', VStr ''f'')] [] demo_world);
       r' = snd (save r)
   in disk r' = Stored (merge_journal (jrnl r) empty_state) \<and>
      read_state ''later'' demo_ids 7 (disk r') = (Inr (merge_journal (jrnl r) empty_state, False), 7)"
proof -
  let ?r = "snd (p_upsert_node ''t1'' ''Function'' [(''name'', VStr ''f'')] [] demo_world)"
  let ?r' = "snd (save ?r)"
  have facts: "is_ok (fst (save ?r))" "db_path ?r \<noteq> []" "\<not> journal_empty (jrnl ?r)" "journal_ok (jrnl ?r)"
    "keyed_file (disk ?r)" "disk ?r = Absent" by code_simp+
  have saved: "save ?r = (Inr (), ?r')"
    using facts(1) by (cases "save ?r") (auto simp: is_ok_def split: sum.splits)
  have gen: "\<forall>k. new_ids ?r k \<noteq> []" using demo_ids_not_Nil by (simp add: demo_world_def)
  have rd: "read_state (clock ?r) (new_ids ?r) (ids_drawn ?r) (disk ?r) = (Inr (empty_state, False), ids_drawn ?r)"
    unfolding facts(6) by (simp add: read_state_def)
  from save_then_reopen [OF saved facts(2-5) gen rd] show ?thesis unfolding Let_def by blast
qed

section \<open>Batches on a graph file\<close>

lemma p_link_locked:
  "mu_held r \<Longrightarrow> kind_ok kind \<Longrightarrow> p_link kind from to properties r = (Inl Deadlock, r)"
  by (simp add: p_link_def with_lock_def)

lemma p_link_invalid: "\<not> kind_ok kind \<Longrightarrow>
  p_link kind from to properties r = (Inl (ErrMsg (''invalid graph type: '' @ kind)), r)"
  by (simp add: p_link_def)

lemma p_link_items_locked:
  "mu_held r \<Longrightarrow> p_link_items items r =
     (if list_ex (\<lambda>it. kind_ok (item_kind it)) items then Inl Deadlock else Inr [], r)"
proof (induction items)
  case (Cons it its)
  then show ?case by (cases "kind_ok (item_kind it)") (simp_all add: p_link_locked p_link_invalid)
qed simp

text \<open>
  Claim C8. On a graph file the batch operations cannot do their work: \<open>LinkBatch\<close> blocks for
  ever on its own mutex as soon as one item has a valid kind (it calls \<open>Link\<close>, which locks
  again), and \<open>UpsertNodesBatch\<close> panics on any item, since it runs on the in-memory
  repository that exists only for an empty path.
\<close>

theorem persistent_batches_fail:
  assumes "db_path r \<noteq> []" "mem_part r = None" "\<not> mu_held r"
  shows "fst (p_link_batch links r) =
      (if list_ex (\<lambda>it. kind_ok (item_kind it)) links then Inl Deadlock else Inr []) \<and>
    (kind_ok kind \<longrightarrow> items \<noteq> [] \<longrightarrow>
      fst (p_upsert_nodes_batch now kind items r) =
        Inl (Panic ''invalid memory address or nil pointer dereference''))"
proof (intro conjI impI)
  show "fst (p_link_batch links r) =
      (if list_ex (\<lambda>it. kind_ok (item_kind it)) links then Inl Deadlock else Inr [])"
    using assms by (simp add: p_link_batch_def with_lock_def bump_p_def p_link_items_locked)
  assume "kind_ok kind" "items \<noteq> []"
  then show "fst (p_upsert_nodes_batch now kind items r) =
      Inl (Panic ''invalid memory address or nil pointer dereference'')"
    using assms
    by (cases items)
      (simp_all add: p_upsert_nodes_batch_def with_lock_def bump_p_def upsert_node_in_memory_def on_mem_def)
qed

lemma persistent_batches_fail_witness:
  "fst (p_link_batch [\<lparr>item_kind = ''CALLS'', item_from = ''a'', item_to = ''b'', item_props = None\<rparr>] demo_world)
     = Inl Deadlock"
proof -
  have "db_path demo_world \<noteq> []" "mem_part demo_world = None" "\<not> mu_held demo_world" "kind_ok ''CALLS''"
    by code_simp+
  then show ?thesis by (simp add: persistent_batches_fail)
qed

section \<open>The read cache stays bounded\<close>

text \<open>The cache is in order and the mutex is as it was.\<close>

definition calm :: "p_repo \<Rightarrow> p_repo \<Rightarrow> bool" where
  "calm r r' \<longleftrightarrow> (pcache_ok (read_cache r) \<longrightarrow> pcache_ok (read_cache r')) \<and> mu_held r' = mu_held r"

lemma calm_refl [simp, intro]: "calm r r"
  by (simp add: calm_def)

lemma calm_trans: "calm r r1 \<Longrightarrow> calm r1 r2 \<Longrightarrow> calm r r2"
  by (auto simp: calm_def)

lemma calm_on_journal [simp]: "calm r (on_journal f r') \<longleftrightarrow> calm r r'"
  and calm_bump [simp]: "calm r (bump_p r') \<longleftrightarrow> calm r r'" "calm (bump_p r) r' \<longleftrightarrow> calm r r'"
  and calm_record [simp]: "calm r (record_dirty i s r') \<longleftrightarrow> calm r r'"
  by (simp_all add: calm_def on_journal_def bump_p_def record_dirty_def)

lemma calm_on_cache: "calm r r' \<Longrightarrow> (\<And>c. pcache_ok c \<Longrightarrow> pcache_ok (f c)) \<Longrightarrow> calm r (on_cache f r')"
  by (simp add: calm_def on_cache_def)

lemma calm_put [simp]:
  "calm r r' \<Longrightarrow> calm r (on_cache (cache_put_node n) r')"
  "calm r r' \<Longrightarrow> calm r (on_cache (cache_put_edge e) r')"
  "calm r r' \<Longrightarrow> calm r (on_cache (cache_remove_node i) r')"
  "calm r r' \<Longrightarrow> calm r (on_cache (cache_remove_edge i) r')"
  "calm r r' \<Longrightarrow> calm r (on_cache cache_clear r')"
  by (simp_all add: calm_on_cache pcache_ok_ops)

lemma calm_put_all [simp]:
  "calm r r' \<Longrightarrow> calm r (on_cache (fold cache_put_node ns) r')"
  "calm r r' \<Longrightarrow> calm r (on_cache (fold (\<lambda>(e, n) c. cache_put_edge e (cache_put_node n c)) ens) r')"
  by (auto intro!: calm_on_cache fold_keeps [where P = pcache_ok] simp: pcache_ok_ops)

lemma calm_read_file: "read_file r = (x, r') \<Longrightarrow> calm r r'"
  by (auto simp: read_file_def calm_def split: prod.splits)

lemma calm_effective: "effective_state r = (x, r') \<Longrightarrow> calm r r'"
  using calm_read_file [of r] calm_read_file [of "bump_p r"]
  by (auto simp: effective_state_def Let_def calm_def bump_p_def
      split: if_splits option.splits prod.splits sum.splits)

lemma calm_on_mem: "on_mem f r = (x, r') \<Longrightarrow> calm r r'"
  by (auto simp: on_mem_def calm_def split: option.splits prod.splits)

lemma calm_fresh_id: "fresh_id r = (x, r') \<Longrightarrow> calm r r'"
  by (auto simp: fresh_id_def calm_def)

text \<open>
  What a call leaves: the cache in order, and the mutex held exactly when it was before or the call
  never returns.
\<close>

definition settles :: "p_repo \<Rightarrow> 'a res \<times> p_repo \<Rightarrow> bool" where
  "settles r y \<longleftrightarrow> (pcache_ok (read_cache r) \<longrightarrow> pcache_ok (read_cache (snd y))) \<and>
     (mu_held (snd y) \<longleftrightarrow> mu_held r \<or> blocked (fst y))"

lemma settles_error [simp]: "settles r (Inl (ErrMsg e), r)"
  by (simp add: settles_def)

lemma settles_with_lock:
  assumes "\<And>r x r'. mu_held r \<Longrightarrow> f r = (x, r') \<Longrightarrow> calm r r'"
  shows "settles r (with_lock f r)"
proof (cases "f (r\<lparr>mu_held := True\<rparr>)")
  case (Pair x r')
  with assms [OF _ Pair] show ?thesis by (simp add: with_lock_def settles_def calm_def)
qed

lemma calm_upsert_existing: "upsert_existing now kind identity properties n r = (x, r') \<Longrightarrow> calm r r'"
  by (auto simp: upsert_existing_def Let_def)

lemma calm_upsert_fresh: "upsert_fresh now kind identity properties r = (x, r') \<Longrightarrow> calm r r'"
  by (auto simp: upsert_fresh_def Let_def dest: calm_fresh_id split: if_splits prod.splits sum.splits)

lemmas calm_parts = calm_read_file calm_effective calm_on_mem calm_fresh_id
  calm_upsert_existing calm_upsert_fresh

text \<open>Every operation keeps the cache in order and, when it returns, has released the mutex.\<close>

lemma settles_p_upsert_node [preserves]: "settles r (p_upsert_node now kind identity properties r)"
  unfolding p_upsert_node_def upsert_node_in_memory_def
  by (auto split: sum.split if_splits prod.splits sum.splits option.splits
      intro!: settles_with_lock dest!: calm_parts)
    (blast intro: calm_trans)+

lemma calm_upsert_items: "p_upsert_items now kind items r = (x, r') \<Longrightarrow> calm r r'"
proof (induction items arbitrary: r x r')
  case (Cons it its)
  obtain y r1 where y: "upsert_node_in_memory now kind (item_identity it) (item_properties it) r = (y, r1)"
    by fastforce
  then have "calm r r1" unfolding upsert_node_in_memory_def by (rule calm_on_mem)
  moreover have "calm r1 r'" using Cons.prems y Cons.IH
    by (auto split: sum.splits err.splits prod.splits)
  ultimately show ?case by (rule calm_trans)
qed simp

lemma settles_p_upsert_nodes_batch [preserves]: "settles r (p_upsert_nodes_batch now kind items r)"
  unfolding p_upsert_nodes_batch_def
  by (auto split: sum.split if_splits intro!: settles_with_lock intro: calm_trans
      dest!: calm_parts calm_upsert_items)

lemma settles_p_link [preserves]: "settles r (p_link kind from to properties r)"
  unfolding p_link_def
  by (auto split: sum.split if_splits prod.splits sum.splits option.splits
      simp: Let_def intro!: settles_with_lock dest!: calm_parts)
    (blast intro: calm_trans calm_put)+

lemma calm_link_items: "mu_held r \<Longrightarrow> p_link_items items r = (x, r') \<Longrightarrow> calm r r'"
proof (induction items arbitrary: r x r')
  case (Cons it its)
  obtain y r1 where y: "p_link (item_kind it) (item_from it) (item_to it) (item_props it) r = (y, r1)"
    by fastforce
  then have "calm r r1"
    using Cons.prems(1) by (cases "kind_ok (item_kind it)") (auto simp: p_link_locked p_link_invalid)
  moreover have "mu_held r1" using calculation Cons.prems(1) by (simp add: calm_def)
  then have "calm r1 r'" using Cons.prems(2) y Cons.IH [of r1]
    by (auto split: sum.splits err.splits prod.splits)
  ultimately show ?case by (rule calm_trans)
qed simp

lemma calm_link_items_bump: "p_link_items items (bump_p r) = (x, r') \<Longrightarrow> mu_held r \<Longrightarrow> calm r r'"
  using calm_link_items [of "bump_p r" items x r'] by (simp add: bump_p_def) (simp add: calm_def)

lemma settles_p_link_batch [preserves]: "settles r (p_link_batch items r)"
  unfolding p_link_batch_def
  by (auto split: if_splits intro!: settles_with_lock dest!: calm_parts dest: calm_link_items_bump)

lemma settles_p_remove_nodes [preserves]: "settles r (p_remove_nodes ids r)"
  unfolding p_remove_nodes_def
  by (auto split: if_splits simp: Let_def intro!: settles_with_lock fold_keeps [where P = "calm r" for r]
      dest: calm_on_mem)

lemma settles_p_remove_edges [preserves]: "settles r (p_remove_edges ids r)"
  unfolding p_remove_edges_def
  by (auto split: if_splits simp: Let_def intro!: settles_with_lock fold_keeps [where P = "calm r" for r]
      dest: calm_on_mem)

lemma calm_cache_get: "cache_get_node i (read_cache r) = (x, c) \<Longrightarrow> calm r (r\<lparr>read_cache := c\<rparr>)"
  using pcache_ok_ops(2) [of "read_cache r" i] by (simp add: calm_def)

lemma settles_lookups [preserves]:
  "settles r (p_get_node i r)" "settles r (p_find_nodes kind filters r)"
  "settles r (p_neighbors i kind dir r)"
  unfolding p_get_node_def p_find_nodes_def p_neighbors_def
  by (auto split: if_splits prod.splits sum.splits option.splits simp: Let_def
      intro!: settles_with_lock dest!: calm_parts dest: calm_cache_get)

lemma calm_query [preserves]: "calm r (snd (p_query_readonly compile query params r))"
  unfolding p_query_readonly_def by (auto split: prod.splits sum.splits dest!: calm_parts)

lemma calm_set_state:
  "calm r r' \<Longrightarrow> calm r (r'\<lparr>cached_state := s, seen_stamp := t\<rparr>)"
  "calm r r' \<Longrightarrow> calm r (r'\<lparr>disk := d, file_stamp := fs, cached_state := s, seen_stamp := t, jrnl := j\<rparr>)"
  by (simp_all add: calm_def)

lemma settles_refresh [preserves]: "settles r (refresh r)"
  unfolding refresh_def
  by (auto split: if_splits prod.splits sum.splits option.splits simp: Let_def calm_set_state
      intro!: settles_with_lock dest!: calm_parts)

lemma settles_save [preserves]: "settles r (save r)"
  unfolding save_def
  by (auto split: if_splits prod.splits sum.splits option.splits simp: Let_def calm_set_state
      intro!: settles_with_lock dest!: calm_parts)

lemma settles_close [preserves]: "settles r (close_repo r)"
  using settles_save [of r] by (auto simp: close_repo_def settles_def on_cache_def pcache_ok_ops split: prod.splits sum.splits)

lemma settles_reports [preserves]:
  "settles r (p_graph_snapshot r)" "settles r (p_generation_of r)" "settles r (p_counts r)"
  "settles r (p_edges_of_kind kind r)" "settles r (p_cache_nodes r)" "settles r (p_cache_edges r)"
  unfolding p_graph_snapshot_def p_generation_of_def p_counts_def p_edges_of_kind_def p_cache_nodes_def
    p_cache_edges_def
  by (auto split: if_splits prod.splits sum.splits option.splits intro!: settles_with_lock dest!: calm_parts)

text \<open>
  One call, with whether it never returns, or a change of the world: another process rewrites the
  file, time passes. \<open>QueryReadonly\<close> takes no lock, so it never waits.
\<close>

inductive p_step :: "p_repo \<Rightarrow> bool \<Rightarrow> p_repo \<Rightarrow> bool" where
  upsert: "p_step r (blocked (fst (p_upsert_node now kind identity properties r))) (snd (p_upsert_node now kind identity properties r))"
| batch: "p_step r (blocked (fst (p_upsert_nodes_batch now kind items r))) (snd (p_upsert_nodes_batch now kind items r))"
| link: "p_step r (blocked (fst (p_link kind from to properties r))) (snd (p_link kind from to properties r))"
| link_batch: "p_step r (blocked (fst (p_link_batch links r))) (snd (p_link_batch links r))"
| remove_nodes: "p_step r (blocked (fst (p_remove_nodes ids r))) (snd (p_remove_nodes ids r))"
| remove_edges: "p_step r (blocked (fst (p_remove_edges ids r))) (snd (p_remove_edges ids r))"
| get: "p_step r (blocked (fst (p_get_node i r))) (snd (p_get_node i r))"
| find: "p_step r (blocked (fst (p_find_nodes kind filters r))) (snd (p_find_nodes kind filters r))"
| neighbors: "p_step r (blocked (fst (p_neighbors i kind dir r))) (snd (p_neighbors i kind dir r))"
| refresh: "p_step r (blocked (fst (refresh r))) (snd (refresh r))"
| save: "p_step r (blocked (fst (save r))) (snd (save r))"
| close: "p_step r (blocked (fst (close_repo r))) (snd (close_repo r))"
| snapshot: "p_step r (blocked (fst (p_graph_snapshot r))) (snd (p_graph_snapshot r))"
| generation: "p_step r (blocked (fst (p_generation_of r))) (snd (p_generation_of r))"
| counts: "p_step r (blocked (fst (p_counts r))) (snd (p_counts r))"
| edges: "p_step r (blocked (fst (p_edges_of_kind kind r))) (snd (p_edges_of_kind kind r))"
| cached_nodes: "p_step r (blocked (fst (p_cache_nodes r))) (snd (p_cache_nodes r))"
| cached_edges: "p_step r (blocked (fst (p_cache_edges r))) (snd (p_cache_edges r))"
| query: "p_step r False (snd (p_query_readonly compile query params r))"
| world: "p_step r False (r\<lparr>disk := d, file_stamp := t, next_stamp := t', clock := c, io_fault := faults\<rparr>)"

inductive_simps p_step_iff: "p_step r b r'"

text \<open>A run, with whether one of its calls never returned; the calls after it are of other goroutines.\<close>

inductive p_run :: "p_repo \<Rightarrow> bool \<Rightarrow> p_repo \<Rightarrow> bool" for r0 where
  start: "p_run r0 False r0"
| step: "p_run r0 stuck r \<Longrightarrow> p_step r b r' \<Longrightarrow> p_run r0 (stuck \<or> b) r'"

lemmas settled = settles_p_upsert_node settles_p_upsert_nodes_batch settles_p_link settles_p_link_batch
  settles_p_remove_nodes settles_p_remove_edges settles_lookups settles_refresh settles_save settles_close
  settles_reports

lemma settles_step: "p_step r b r' \<Longrightarrow> (pcache_ok (read_cache r) \<longrightarrow> pcache_ok (read_cache r')) \<and> (mu_held r' \<longleftrightarrow> mu_held r \<or> b)"
proof (induction rule: p_step.induct)
  case (query r compile query params)
  then show ?case using calm_query [of r compile query params] by (simp add: calm_def)
next
  case (world r d t t' c faults)
  then show ?case by simp
qed (rule settled [unfolded settles_def])+

lemma settles_run:
  "p_run r0 stuck r \<Longrightarrow> pcache_ok (read_cache r0) \<Longrightarrow> \<not> mu_held r0 \<Longrightarrow> pcache_ok (read_cache r) \<and> (mu_held r \<longleftrightarrow> stuck)"
  by (induction rule: p_run.induct) (auto dest: settles_step)

lemma new_persistent_calm:
  "new_persistent path max_nodes max_edges w = (x, r) \<Longrightarrow> pcache_ok (read_cache r) \<and> \<not> mu_held r"
proof -
  let ?r = "w\<lparr>db_path := path, read_cache := new_pcache max_nodes max_edges,
      mem_part := (if path = [] then Some (new_memory_repo (new_ids w)) else None),
      jrnl := empty_journal, seen_stamp := (0, 0), cached_state := None,
      p_generation := 0, mu_held := False\<rparr>"
  have "calm ?r (snd (load ?r))"
    unfolding load_def
    by (auto split: disk_file.splits option.splits prod.splits sum.splits simp: calm_set_state
        dest!: calm_parts)
  then have "calm ?r r" if "new_persistent path max_nodes max_edges w = (x, r)"
    using that unfolding new_persistent_def Let_def
    by (auto split: if_splits prod.splits sum.splits err.splits)
  then show "new_persistent path max_nodes max_edges w = (x, r) \<Longrightarrow> ?thesis"
    by (auto simp: calm_def pcache_ok_ops)
qed

text \<open>
  Claim C9. Whatever calls run on an opened repository and whatever other processes do to the
  file in between, the mutex is held between calls exactly when one of the calls never returned
  (a \<open>LinkBatch\<close> that waits for itself, and every call after it), and the read cache holds at most
  its limit of nodes and edges, each once, listed exactly once in the order of use.
\<close>

theorem persistent_cache_invariant:
  assumes "new_persistent path max_nodes max_edges w = (x, r0)" "p_run r0 stuck r"
  shows "(mu_held r \<longleftrightarrow> stuck) \<and>
    int (cache_node_count (read_cache r)) \<le> lru_limit (node_lru (read_cache r)) \<and>
    int (cache_edge_count (read_cache r)) \<le> lru_limit (edge_lru (read_cache r)) \<and>
    distinct (use_order (node_lru (read_cache r))) \<and>
    set (use_order (node_lru (read_cache r))) = set (keys (lru_entries (node_lru (read_cache r))))"
  using new_persistent_calm [OF assms(1)] settles_run [OF assms(2)]
  by (simp add: pcache_ok_def cache_node_count_def cache_edge_count_def lru_ok_lengths)
    (simp add: lru_ok_def)

text \<open>After a lookup the mutex is free; a link in a batch keeps it for ever.\<close>

lemma persistent_cache_invariant_witness:
  "\<not> mu_held (snd (p_find_nodes ''Function'' [] (snd (new_persistent ''graph.db'' 1 1 demo_world)))) \<and>
   mu_held (snd (p_link_batch [\<lparr>item_kind = ''CALLS'', item_from = ''a'', item_to = ''b'', item_props = None\<rparr>]
     (snd (new_persistent ''graph.db'' 1 1 demo_world))))"
proof -
  let ?r0 = "snd (new_persistent ''graph.db'' 1 1 demo_world)"
  let ?find = "p_find_nodes ''Function'' [] ?r0"
  let ?batch = "p_link_batch [\<lparr>item_kind = ''CALLS'', item_from = ''a'', item_to = ''b'', item_props = None\<rparr>] ?r0"
  have "\<not> blocked (fst ?find)" "blocked (fst ?batch)" by code_simp+
  then have "p_run ?r0 False (snd ?find)" "p_run ?r0 True (snd ?batch)"
    using p_run.step [OF p_run.start p_step.find [of ?r0 "''Function''" "[]"]]
      p_run.step [OF p_run.start p_step.link_batch [of ?r0 "[\<lparr>item_kind = ''CALLS'', item_from = ''a'', item_to = ''b'', item_props = None\<rparr>]"]]
    by simp_all
  with persistent_cache_invariant [OF prod.collapse [symmetric], of "''graph.db''" 1 1 demo_world] show ?thesis by blast
qed

section \<open>An update that is lost\<close>

text \<open>
  A node is created and not saved; meanwhile another process saves a node of the same
  identity with a smaller id. The next update of the identity goes to the other process's
  node, but the merge still applies the first version of the unsaved node afterwards, so a
  lookup (and a save) shows the old property.
\<close>

definition other_file :: disk_file where
  "other_file = Stored \<lparr>schema_version = 2,
     st_nodes = [(''a'', \<lparr>gob_kind = ''F'', gob_props = [(''created_at'', VStr ''t0''), (''id'', VStr ''a''),
       (''name'', VStr ''x''), (''updated_at'', VStr ''t0'')]\<rparr>)], st_edges = []\<rparr>"

definition lost_update_run :: "p_repo \<times> node list res" where
  "lost_update_run =
     (let r = snd (p_upsert_node ''t1'' ''F'' [(''name'', VStr ''x'')] [(''v'', VInt 1)] demo_world);
          r = r\<lparr>disk := other_file, file_stamp := (5, 5)\<rparr>;
          r = snd (p_upsert_node ''t2'' ''F'' [(''name'', VStr ''x'')] [(''v'', VInt 2)] r)
      in case p_find_nodes ''F'' [(''name'', VStr ''x'')] r of (ns, r) \<Rightarrow> (r, ns))"

text \<open>
  An update can be lost when another process saved the same identity: after the
  run above the journal holds the new value of the property, and the lookup returns the old.
\<close>

theorem lost_update:
  "case lost_update_run of (r, ns) \<Rightarrow>
     map_option (\<lambda>s. pget (snap_props s) ''v'') (map_of (dirty (jrnl r)) ''a'') = Some (VInt 2) \<and>
     map_sum id (map (\<lambda>n. (node_id n, pget (node_props n) ''v''))) ns = Inr [(''a'', VInt 1)]"
  by code_simp

section \<open>A stale read\<close>

text \<open>
  \<open>GetNode\<close> answers from the cache without looking at the file, so a node that another
  process removed is still found, while \<open>FindNodes\<close> no longer lists it.
\<close>

definition stale_run :: "node res \<times> node list res" where
  "stale_run =
     (let r = demo_world\<lparr>disk := other_file, file_stamp := (5, 5)\<rparr>;
          r = snd (p_get_node ''a'' r);
          r = r\<lparr>disk := Stored empty_state, file_stamp := (6, 6)\<rparr>;
          (n, r) = p_get_node ''a'' r
      in (n, fst (p_find_nodes ''F'' [] r)))"

lemma stale_read: "is_ok (fst stale_run) \<and> snd stale_run = Inr []"
  by code_simp

section \<open>The repository with an empty path\<close>

text \<open>With an empty path the repository is the in-memory one behind its mutex.\<close>

definition delegating :: "p_repo \<Rightarrow> bool" where
  "delegating r \<longleftrightarrow> db_path r = [] \<and> \<not> mu_held r \<and> (\<exists>m. mem_part r = Some m \<and> mem_ok m)"

definition delegate_view :: "p_repo \<Rightarrow> string \<Rightarrow> node option" where
  "delegate_view r = (case mem_part r of None \<Rightarrow> Map.empty | Some m \<Rightarrow> map_of (nodes m))"

text \<open>The in-memory repository never waits.\<close>

lemma mem_returns [simp]:
  "\<not> blocked (fst (upsert_node now kind identity properties m))" "\<not> blocked (fst (remove_nodes ids m))"
  "\<not> blocked (find_nodes kind filters m)"
  by (auto simp: upsert_node_def upsert_locked_def validate_kind_def remove_nodes_def find_nodes_def Let_def
      split: list.split val.split prod.split)

lemma delegated:
  assumes "delegating r" "mem_part r = Some m" "\<not> blocked (fst (f m))"
  shows "with_lock (\<lambda>r. if db_path r = [] then on_mem f r else g r) r =
    (fst (f m), r\<lparr>mem_part := Some (snd (f m))\<rparr>)"
  using assms by (cases "f m") (auto simp: delegating_def on_mem_def)

lemma p_upsert_delegated:
  assumes "delegating r" "mem_part r = Some m"
  shows "p_upsert_node now kind identity properties r =
    (fst (upsert_node now kind identity properties m),
     if kind_ok kind then r\<lparr>mem_part := Some (snd (upsert_node now kind identity properties m))\<rparr> else r)"
  unfolding p_upsert_node_def upsert_node_in_memory_def delegated [OF assms mem_returns(1)]
  by (simp add: upsert_node_def)

lemma delegating_next:
  "delegating r \<Longrightarrow> mem_ok m \<Longrightarrow> delegating (r\<lparr>mem_part := Some m\<rparr>)"
  by (auto simp: delegating_def)

interpretation delegated: graph_repo persistent_ops delegating delegate_view
proof (unfold_locales, goal_cases)
  case (1 r i n)
  then show ?case by (auto simp: delegating_def delegate_view_def mem_okD(4))
next
  case (2 r kind filters ns r')
  then obtain m where m: "mem_part r = Some m" "mem_ok m" by (auto simp: delegating_def)
  then have "ns = find_nodes_locked kind filters m" "r' = r\<lparr>mem_part := Some m\<rparr>"
    using 2 by (auto simp: persistent_ops_def p_find_nodes_def delegated find_nodes_def)
  with m 2(1) show ?case
    by (simp add: delegating_next delegate_view_def set_find_locked sorted_find_locked)
next
  case (3 r kind filters)
  then obtain m where m: "mem_part r = Some m" "mem_ok m" by (auto simp: delegating_def)
  then show ?case
    using 3 by (simp add: persistent_ops_def p_find_nodes_def delegated delegating_next delegate_view_def)
next
  case (4 r now kind identity properties n r')
  then obtain m where m: "mem_part r = Some m" "mem_ok m" by (auto simp: delegating_def)
  let ?up = "upsert_node now kind identity properties m"
  have n: "fst ?up = Inr n" and r'': "r' = (if kind_ok kind then r\<lparr>mem_part := Some (snd ?up)\<rparr> else r)"
    using 4(2) p_upsert_delegated [OF 4(1) m(1)] by (simp_all add: persistent_ops_def)
  then have up: "upsert_node now kind identity properties m = (Inr n, snd ?up)" by (metis prod.collapse)
  have "kind_ok kind" using upsert_node_okD [OF up] by simp
  with r'' have r': "r' = r\<lparr>mem_part := Some (snd ?up)\<rparr>" by simp
  have "mem_ok (snd ?up)"
    using mem_ok_upsert_node [OF m(2) no_id_brings_no_future_id [OF 4(5,6,3,4)], of now kind] by simp
  then have "delegating r'" unfolding r' by (rule delegating_next [OF 4(1)])
  with mem_upsert_contract [OF m(2) up 4(3-6)] show ?case
    by (simp add: delegate_view_def m r')
next
  case (5 r ids u r')
  then obtain m where m: "mem_part r = Some m" "mem_ok m" by (auto simp: delegating_def)
  then have "r' = r\<lparr>mem_part := Some (snd (remove_nodes ids m))\<rparr>"
    using 5 by (auto simp: persistent_ops_def p_remove_nodes_def delegated)
  with 5(1) m show ?case
    by (simp add: delegating_next mem_ok_remove_nodes delegate_view_def map_of_remove_nodes)
qed

end
