(* ===== verification/QueryIndex.thy ===== *)
theory QueryIndex
  imports PersistentGraph "HOL-Library.Product_Lexorder"
begin

text \<open>
  \<open>internal/graph/query_index.go\<close>: an index over one project's part of a graph snapshot,
  rebuilt when the repository's generation moved. The optional interfaces the code tests for
  with type assertions (\<open>GraphSnapshotProvider\<close>, \<open>GraphGenerationProvider\<close>) are options of
  the record \<open>source\<close>. Nodes and edges are values, so the clones handed out are the stored
  ones. The mutex protects single fields reads only; operations are atomic here.
\<close>

section \<open>State\<close>

datatype index_state = IndexReady | IndexPartial | IndexRebuilding | IndexStale | IndexFailed

record 'r source =
  src_ops :: "'r repo_ops"
  src_snapshot :: "('r \<Rightarrow> snapshot res \<times> 'r) option"
  src_generation :: "('r \<Rightarrow> 64 word \<times> 'r) option"

type_synonym adjacency_key = "string \<times> string \<times> direction"
type_synonym edge_nodes = "(edge \<times> node) list"

text \<open>What a rebuild replaces at once.\<close>

record index_tables =
  nodes_by_id :: "node store"
  nodes_by_kind :: "string list store"
  stable_by_id :: "string list store"
  by_name :: "string list store"
  by_qualified :: "string list store"
  by_path :: "string list store"
  outgoing :: "(adjacency_key \<times> edge_nodes) list"
  incoming :: "(adjacency_key \<times> edge_nodes) list"
  outgoing_all :: "edge_nodes store"
  incoming_all :: "edge_nodes store"

record query_index =
  has_repo :: bool
  index_project :: string
  tables :: index_tables
  graph_generation :: "64 word"
  index_generation :: "64 word"
  index_status :: index_state
  last_err :: "err option"

definition empty_tables :: index_tables where
  "empty_tables =
     \<lparr>nodes_by_id = [], nodes_by_kind = [], stable_by_id = [], by_name = [], by_qualified = [],
      by_path = [], outgoing = [], incoming = [], outgoing_all = [], incoming_all = []\<rparr>"

definition new_query_index :: "bool \<Rightarrow> string \<Rightarrow> query_index" where
  "new_query_index repo project =
     \<lparr>has_repo = repo, index_project = project, tables = empty_tables, graph_generation = 0,
      index_generation = 0, index_status = IndexStale, last_err = None\<rparr>"

section \<open>Helpers\<close>

definition str_value :: "val \<Rightarrow> string" where
  "str_value v = trim_space (as_str v)"

definition prop_text :: "node \<Rightarrow> string \<Rightarrow> string" where
  "prop_text n k = str_value (pget (node_props n) k)"

definition path_keys :: "node \<Rightarrow> string list" where
  "path_keys n =
     fold (\<lambda>key acc. let v = prop_text n key
                     in if v \<noteq> [] \<and> v \<notin> set acc then acc @ [v] else acc)
       [''path'', ''rel_path'', ''file_id''] []"

definition sort_edge_nodes :: "edge_nodes \<Rightarrow> edge_nodes" where
  "sort_edge_nodes = sort_key (\<lambda>(e, n). (edge_id e, node_id n))"

definition clone_edge_nodes :: "edge_nodes \<Rightarrow> edge_nodes" where
  "clone_edge_nodes items = map (\<lambda>(e, n). (clone_edge e, clone_node n)) items"

definition sorted_node_values :: "node store \<Rightarrow> node list" where
  "sorted_node_values m = map (\<lambda>i. clone_node (the (map_of m i))) (sort (keys m))"

section \<open>Snapshots\<close>

text \<open>One node's neighbours added to the edges seen so far.\<close>

definition add_neighbor_edges :: "node store \<Rightarrow> string \<Rightarrow> edge_nodes \<Rightarrow> edge store \<Rightarrow> edge store" where
  "add_neighbor_edges node_by_id project ens es =
     fold (\<lambda>(e, n) es.
             if map_of node_by_id (node_id n) = None \<or> prop_text n ''project_id'' \<noteq> project
                \<or> map_of es (edge_id e) \<noteq> None then es
             else AList.update (edge_id e) (clone_edge e) es) ens es"

fun scan_edges ::
    "'r repo_ops \<Rightarrow> node store \<Rightarrow> string \<Rightarrow> node list \<Rightarrow> edge store \<Rightarrow> 'r \<Rightarrow> edge store res \<times> 'r" where
  "scan_edges G node_by_id project [] es r = (Inr es, r)"
| "scan_edges G node_by_id project (n # ns) es r =
     (if map_of node_by_id (node_id n) = None then scan_edges G node_by_id project ns es r
      else (case op_neighbors G (node_id n) [] DirBoth r of
              (Inl e, r) \<Rightarrow> (Inl e, r)
            | (Inr ens, r) \<Rightarrow>
                scan_edges G node_by_id project ns (add_neighbor_edges node_by_id project ens es) r))"

definition scan_snapshot :: "'r repo_ops \<Rightarrow> string \<Rightarrow> 'r \<Rightarrow> snapshot res \<times> 'r" where
  "scan_snapshot G project r =
     (case op_find G [] [(''project_id'', VStr project)] r of
        (Inl e, r) \<Rightarrow> (Inl e, r)
      | (Inr ns, r) \<Rightarrow>
          (let node_by_id = fold (\<lambda>n m. if prop_text n ''project_id'' \<noteq> project then m
                                         else AList.update (node_id n) (clone_node n) m) ns []
           in case scan_edges G node_by_id project ns [] r of
                (Inl e, r) \<Rightarrow> (Inl e, r)
              | (Inr es, r) \<Rightarrow>
                  (Inr \<lparr>snap_nodes = sorted_node_values node_by_id,
                        snap_edges = sort_key edge_id (map snd es), snap_generation = 0\<rparr>, r)))"

definition take_snapshot :: "'r source \<Rightarrow> string \<Rightarrow> 'r \<Rightarrow> snapshot res \<times> 'r" where
  "take_snapshot S project r =
     (case src_snapshot S of
        Some f \<Rightarrow> f r
      | None \<Rightarrow> scan_snapshot (src_ops S) project r)"

section \<open>Building the tables\<close>

definition in_project :: "string \<Rightarrow> node \<Rightarrow> bool" where
  "in_project project n = (prop_text n ''project_id'' = project)"

text \<open>A table of ids by a text property; nodes without the property are left out.\<close>

definition ids_by :: "string \<Rightarrow> node list \<Rightarrow> string list store" where
  "ids_by key ns =
     fold (\<lambda>n m. if prop_text n key \<noteq> [] then push (prop_text n key) (node_id n) m else m) ns []"

text \<open>The edges with both ends in the table, with the nodes at their ends.\<close>

definition linked_edges :: "node store \<Rightarrow> edge list \<Rightarrow> (edge \<times> node \<times> node) list" where
  "linked_edges ids es =
     concat (map (\<lambda>e. case (map_of ids (edge_from e), map_of ids (edge_to e)) of
                        (Some f, Some t) \<Rightarrow> [(clone_edge e, f, t)]
                      | _ \<Rightarrow> []) es)"

definition index_tables_of :: "string \<Rightarrow> snapshot \<Rightarrow> index_tables" where
  "index_tables_of project sn =
     (let ns = map clone_node (filter (in_project project) (snap_nodes sn));
          ids = fold (\<lambda>n. AList.update (node_id n) n) ns [];
          es = linked_edges ids (snap_edges sn)
      in \<lparr>nodes_by_id = ids,
          nodes_by_kind = map_slots sort (fold (\<lambda>n. push (node_kind n) (node_id n)) ns []),
          stable_by_id = map_slots sort (ids_by ''stable_id'' ns),
          by_name = map_slots sort (ids_by ''name'' ns),
          by_qualified = map_slots sort (ids_by ''qualified_name'' ns),
          by_path = map_slots sort (fold (\<lambda>n m. fold (\<lambda>k. push k (node_id n)) (path_keys n) m) ns []),
          outgoing = map_slots sort_edge_nodes
            (fold (\<lambda>(e, f, t). push (edge_from e, edge_kind e, DirOut) (e, t)) es []),
          incoming = map_slots sort_edge_nodes
            (fold (\<lambda>(e, f, t). push (edge_to e, edge_kind e, DirIn) (e, f)) es []),
          outgoing_all = map_slots sort_edge_nodes (fold (\<lambda>(e, f, t). push (edge_from e) (e, t)) es []),
          incoming_all = map_slots sort_edge_nodes (fold (\<lambda>(e, f, t). push (edge_to e) (e, f)) es [])\<rparr>)"

definition replace_tables :: "snapshot \<Rightarrow> query_index \<Rightarrow> query_index" where
  "replace_tables sn idx =
     idx\<lparr>tables := index_tables_of (index_project idx) sn, graph_generation := snap_generation sn\<rparr>"

section \<open>The state machine\<close>

definition fail_index :: "err \<Rightarrow> query_index \<Rightarrow> query_index" where
  "fail_index e idx = idx\<lparr>index_status := IndexFailed, last_err := Some e\<rparr>"

definition no_source_error :: err where
  "no_source_error = ErrMsg ''graph query index requires a repository and project''"

definition rebuild :: "'r source \<Rightarrow> query_index \<Rightarrow> 'r \<Rightarrow> unit res \<times> query_index \<times> 'r" where
  "rebuild S idx r =
     (if \<not> has_repo idx \<or> index_project idx = []
      then (Inl no_source_error, fail_index no_source_error idx, r)
      else
        (let idx = idx\<lparr>index_status := IndexRebuilding\<rparr>
         in case take_snapshot S (index_project idx) r of
              (Inl e, r) \<Rightarrow> (Inl e, fail_index e idx, r)
            | (Inr sn, r) \<Rightarrow>
                (let idx = replace_tables sn idx
                 in (Inr (), idx\<lparr>index_generation := index_generation idx + 1,
                                 index_status := IndexReady, last_err := None\<rparr>, r))))"

definition refresh_index :: "'r source \<Rightarrow> query_index \<Rightarrow> 'r \<Rightarrow> unit res \<times> query_index \<times> 'r" where
  "refresh_index S idx r =
     (if index_status idx = IndexReady
      then (case src_generation S of
              None \<Rightarrow> (Inr (), idx, r)
            | Some gen \<Rightarrow>
                (case gen r of (g, r) \<Rightarrow>
                   if g = graph_generation idx then (Inr (), idx, r) else rebuild S idx r))
      else rebuild S idx r)"

definition invalidate_index :: "query_index \<Rightarrow> query_index" where
  "invalidate_index idx =
     idx\<lparr>index_status := IndexStale, index_generation := index_generation idx + 1\<rparr>"

section \<open>Lookups\<close>

text \<open>A lookup that refreshes first; \<open>d\<close> is what it returns when the refresh fails.\<close>

definition refreshed ::
    "'r source \<Rightarrow> 'a \<Rightarrow> (query_index \<Rightarrow> 'a) \<Rightarrow> query_index \<Rightarrow> 'r \<Rightarrow> 'a \<times> query_index \<times> 'r" where
  "refreshed S d f idx r =
     (case refresh_index S idx r of
        (Inl _, idx, r) \<Rightarrow> (d, idx, r)
      | (Inr _, idx, r) \<Rightarrow> (f idx, idx, r))"

definition get_indexed :: "string \<Rightarrow> query_index \<Rightarrow> node option" where
  "get_indexed i idx = map_option clone_node (map_of (nodes_by_id (tables idx)) i)"

definition index_node :: "'r source \<Rightarrow> string \<Rightarrow> query_index \<Rightarrow> 'r \<Rightarrow> node option \<times> query_index \<times> 'r" where
  "index_node S i = refreshed S None (get_indexed i)"

text \<open>The nodes of a list of ids that are in the table.\<close>

definition nodes_of_ids :: "index_tables \<Rightarrow> string list \<Rightarrow> node list" where
  "nodes_of_ids t is = concat (map (\<lambda>i. case map_of (nodes_by_id t) i of None \<Rightarrow> [] | Some n \<Rightarrow> [clone_node n]) is)"

definition index_nodes_by_kind ::
    "'r source \<Rightarrow> string \<Rightarrow> query_index \<Rightarrow> 'r \<Rightarrow> node list \<times> query_index \<times> 'r" where
  "index_nodes_by_kind S kind =
     refreshed S [] (\<lambda>idx. nodes_of_ids (tables idx) (slot (nodes_by_kind (tables idx)) kind))"

definition copy_ids :: "string list \<Rightarrow> string list" where
  "copy_ids is = is"

definition index_stable_ids :: "'r source \<Rightarrow> string \<Rightarrow> query_index \<Rightarrow> 'r \<Rightarrow> string list \<times> query_index \<times> 'r" where
  "index_stable_ids S k = refreshed S [] (\<lambda>idx. copy_ids (slot (stable_by_id (tables idx)) k))"

definition index_by_name :: "'r source \<Rightarrow> string \<Rightarrow> query_index \<Rightarrow> 'r \<Rightarrow> string list \<times> query_index \<times> 'r" where
  "index_by_name S k = refreshed S [] (\<lambda>idx. copy_ids (slot (by_name (tables idx)) k))"

definition index_by_qualified :: "'r source \<Rightarrow> string \<Rightarrow> query_index \<Rightarrow> 'r \<Rightarrow> string list \<times> query_index \<times> 'r" where
  "index_by_qualified S k = refreshed S [] (\<lambda>idx. copy_ids (slot (by_qualified (tables idx)) k))"

definition index_by_path :: "'r source \<Rightarrow> string \<Rightarrow> query_index \<Rightarrow> 'r \<Rightarrow> string list \<times> query_index \<times> 'r" where
  "index_by_path S k = refreshed S [] (\<lambda>idx. copy_ids (slot (by_path (tables idx)) k))"

text \<open>Both neighbour lookups sort a copy of the slots the direction asks for.\<close>

definition both_slots :: "edge_nodes \<Rightarrow> edge_nodes \<Rightarrow> direction \<Rightarrow> edge_nodes" where
  "both_slots out inn dir =
     (case dir of
        DirOut \<Rightarrow> sort_edge_nodes (clone_edge_nodes out)
      | DirIn \<Rightarrow> sort_edge_nodes (clone_edge_nodes inn)
      | DirBoth \<Rightarrow> sort_edge_nodes (clone_edge_nodes (out @ inn))
      | DirOther _ \<Rightarrow> [])"

definition all_neighbors :: "string \<Rightarrow> direction \<Rightarrow> query_index \<Rightarrow> edge_nodes" where
  "all_neighbors i dir idx =
     both_slots (slot (outgoing_all (tables idx)) i) (slot (incoming_all (tables idx)) i) dir"

definition kind_neighbors :: "string \<Rightarrow> string \<Rightarrow> direction \<Rightarrow> query_index \<Rightarrow> edge_nodes" where
  "kind_neighbors i kind dir idx =
     (if kind = [] then all_neighbors i dir idx
      else both_slots (slot (outgoing (tables idx)) (i, kind, DirOut))
             (slot (incoming (tables idx)) (i, kind, DirIn)) dir)"

text \<open>The second result, false when the refresh failed, is None here.\<close>

definition index_neighbors ::
    "'r source \<Rightarrow> string \<Rightarrow> string \<Rightarrow> direction \<Rightarrow> query_index \<Rightarrow> 'r \<Rightarrow> edge_nodes option \<times> query_index \<times> 'r" where
  "index_neighbors S i kind dir = refreshed S None (\<lambda>idx. Some (kind_neighbors i kind dir idx))"

text \<open>The lookups without a refresh.\<close>

definition find_by_stable_id :: "string \<Rightarrow> query_index \<Rightarrow> node list" where
  "find_by_stable_id k idx = nodes_of_ids (tables idx) (slot (stable_by_id (tables idx)) k)"

definition find_by_name :: "string \<Rightarrow> query_index \<Rightarrow> node list" where
  "find_by_name k idx = nodes_of_ids (tables idx) (slot (by_name (tables idx)) k)"

definition find_by_path :: "string \<Rightarrow> query_index \<Rightarrow> node list" where
  "find_by_path k idx = nodes_of_ids (tables idx) (slot (by_path (tables idx)) k)"

definition index_generations :: "query_index \<Rightarrow> 64 word \<times> 64 word" where
  "index_generations idx = (graph_generation idx, index_generation idx)"

definition index_state_of :: "query_index \<Rightarrow> index_state \<times> err option" where
  "index_state_of idx = (index_status idx, last_err idx)"

section \<open>The sources of the two repositories\<close>

definition mem_source :: "mem_repo source" where
  "mem_source = \<lparr>src_ops = mem_ops, src_snapshot = Some (\<lambda>r. (graph_snapshot r, r)),
                 src_generation = Some (\<lambda>r. (generation r, r))\<rparr>"

text \<open>A deadlock or panic inside \<open>Generation\<close> cannot happen between calls; 0 stands for it.\<close>

definition persistent_source :: "p_repo source" where
  "persistent_source = \<lparr>src_ops = persistent_ops, src_snapshot = Some p_graph_snapshot,
     src_generation = Some (\<lambda>r. case p_generation_of r of (Inr g, r) \<Rightarrow> (g, r) | (Inl _, r) \<Rightarrow> (0, r))\<rparr>"

section \<open>Lookups against a scan of the snapshot\<close>

text \<open>What a client without the index would compute.\<close>

definition scan_nodes :: "(node \<Rightarrow> bool) \<Rightarrow> string \<Rightarrow> snapshot \<Rightarrow> node list" where
  "scan_nodes P project sn =
     sort_key node_id (filter (\<lambda>n. in_project project n \<and> P n) (snap_nodes sn))"

definition scan_out :: "(edge \<Rightarrow> bool) \<Rightarrow> string \<Rightarrow> snapshot \<Rightarrow> string \<Rightarrow> edge_nodes" where
  "scan_out P project sn i =
     sort_edge_nodes (concat (map (\<lambda>e.
       if edge_from e = i \<and> P e
       then [(clone_edge e, t). t \<leftarrow> scan_nodes (\<lambda>n. node_id n = edge_to e) project sn,
                                f \<leftarrow> scan_nodes (\<lambda>n. node_id n = i) project sn]
       else []) (snap_edges sn)))"

lemma clone_node_id [simp]: "clone_node n = n"
  by (simp add: clone_node_def)

lemma map_clone_node [simp]: "map clone_node ns = ns"
  by (simp add: map_idI)

lemma clone_edge_idem [simp]: "clone_edge (clone_edge e) = clone_edge e"
  by (simp add: clone_edge_def split: option.split)

lemma clone_edge_fields [simp]:
  "edge_id (clone_edge e) = edge_id e" "edge_kind (clone_edge e) = edge_kind e"
  "edge_from (clone_edge e) = edge_from e" "edge_to (clone_edge e) = edge_to e"
  by (simp_all add: clone_edge_def)

lemma sort_map_key: "sort (map f xs) = map f (sort_key f xs)"
proof (rule properties_for_sort)
  show "mset (map f (sort_key f xs)) = mset (map f xs)" by simp
  show "sorted (map f (sort_key f xs))" by (rule sorted_sort_key)
qed

lemma fold_update_map_of:
  assumes "distinct (map node_id ns)"
  shows "map_of (fold (\<lambda>n. AList.update (node_id n) n) ns m) i =
    (case find (\<lambda>n. node_id n = i) ns of Some n \<Rightarrow> Some n | None \<Rightarrow> map_of m i)"
  using assms
proof (induction ns arbitrary: m)
  case (Cons n ns)
  have "find (\<lambda>k. node_id k = node_id n) ns = None"
    using Cons.prems by (simp add: find_None_iff) (metis image_eqI)
  with Cons show ?case by (auto split: option.splits)
qed simp

lemma find_by_id:
  assumes "distinct (map node_id ns)"
  shows "find (\<lambda>n. node_id n = i) ns = Some n \<longleftrightarrow> n \<in> set ns \<and> node_id n = i"
  using assms
  by (induction ns) (auto simp: rev_image_eqI)

lemma ids_table:
  assumes "distinct (map node_id ns)"
  shows "map_of (fold (\<lambda>n. AList.update (node_id n) n) ns []) i = Some n \<longleftrightarrow> n \<in> set ns \<and> node_id n = i"
proof -
  have "map_of (fold (\<lambda>n. AList.update (node_id n) n) ns []) i = find (\<lambda>n. node_id n = i) ns"
    by (simp add: fold_update_map_of [OF assms] split: option.split)
  then show ?thesis by (simp only: find_by_id [OF assms])
qed

lemma nodes_of_ids_sorted:
  assumes "\<And>n. n \<in> set ns \<Longrightarrow> map_of (nodes_by_id t) (node_id n) = Some n"
  shows "nodes_of_ids t (sort (map node_id ns)) = sort_key node_id ns"
proof -
  have "concat (map (\<lambda>i. case map_of (nodes_by_id t) i of None \<Rightarrow> [] | Some n \<Rightarrow> [clone_node n]) (map node_id ms)) = ms"
    if "set ms \<subseteq> set ns" for ms
    using that assms by (induction ms) auto
  then show ?thesis by (simp add: nodes_of_ids_def sort_map_key)
qed

lemma distinct_path_keys: "distinct (path_keys n)"
  unfolding path_keys_def Let_def by simp

lemma set_path_keys:
  "k \<in> set (path_keys n) \<longleftrightarrow> k \<noteq> [] \<and> k \<in> {prop_text n ''path'', prop_text n ''rel_path'', prop_text n ''file_id''}"
  unfolding path_keys_def Let_def by auto

lemma sort_Nil: "sort [] = []"
  by simp

lemma index_ids:
  defines "ns project sn \<equiv> filter (in_project project) (snap_nodes sn)"
  shows "slot (nodes_by_kind (index_tables_of project sn)) k =
      sort (map node_id (filter (\<lambda>n. node_kind n = k) (ns project sn)))"
    and "k \<noteq> [] \<Longrightarrow> slot (stable_by_id (index_tables_of project sn)) k =
      sort (map node_id (filter (\<lambda>n. prop_text n ''stable_id'' = k) (ns project sn)))"
    and "k \<noteq> [] \<Longrightarrow> slot (by_name (index_tables_of project sn)) k =
      sort (map node_id (filter (\<lambda>n. prop_text n ''name'' = k) (ns project sn)))"
    and "k \<noteq> [] \<Longrightarrow> slot (by_qualified (index_tables_of project sn)) k =
      sort (map node_id (filter (\<lambda>n. prop_text n ''qualified_name'' = k) (ns project sn)))"
    and "slot (by_path (index_tables_of project sn)) k =
      sort (map node_id (filter (\<lambda>n. k \<in> set (path_keys n)) (ns project sn)))"
  unfolding index_tables_of_def Let_def ids_by_def ns_def
  by (simp_all add: slot_fold_push slot_fold_push_if slot_fold_pushes distinct_path_keys)
    (auto intro!: arg_cong [where f = "\<lambda>xs. sort (map node_id xs)"] filter_cong)

lemma index_node_table:
  assumes "distinct (map node_id (snap_nodes sn))"
  shows "map_of (nodes_by_id (index_tables_of project sn)) i = Some n \<longleftrightarrow>
    n \<in> set (snap_nodes sn) \<and> in_project project n \<and> node_id n = i"
proof -
  have "distinct (map node_id (filter (in_project project) (snap_nodes sn)))"
    using assms by (rule distinct_map_filter)
  from ids_table [OF this] show ?thesis by (auto simp: index_tables_of_def Let_def)
qed

lemma index_scan:
  assumes "distinct (map node_id (snap_nodes sn))"
  shows "nodes_of_ids (index_tables_of project sn)
      (sort (map node_id (filter (\<lambda>n. in_project project n \<and> P n) (snap_nodes sn)))) = scan_nodes P project sn"
  using index_node_table [OF assms]
  by (subst nodes_of_ids_sorted) (auto simp: scan_nodes_def conj_commute)

lemma linked_edges_iff:
  "(e', f, t) \<in> set (linked_edges ids es) \<longleftrightarrow>
     (\<exists>e \<in> set es. e' = clone_edge e \<and> map_of ids (edge_from e) = Some f \<and> map_of ids (edge_to e) = Some t)"
  by (auto simp: linked_edges_def split: option.splits intro: rev_bexI)

lemma set_sort_edge_nodes [simp]: "set (sort_edge_nodes ens) = set ens"
  by (simp add: sort_edge_nodes_def)

lemma sort_edge_nodes_Nil [simp]: "sort_edge_nodes [] = []"
  by (simp add: sort_edge_nodes_def)

lemma slot_fold_push_triples:
  "slot (fold (\<lambda>(e, f, t). push (key e f t) (val e f t)) es m) k =
     slot m k @ map (\<lambda>(e, f, t). val e f t) (filter (\<lambda>(e, f, t). key e f t = k) es)"
  by (induction es arbitrary: m) auto

lemma outgoing_slot:
  "set (slot (outgoing (index_tables_of project sn)) (i, kind, DirOut)) =
     {(e, t) | e f t. (e, f, t) \<in> set (linked_edges (nodes_by_id (index_tables_of project sn)) (snap_edges sn)) \<and>
        edge_from e = i \<and> edge_kind e = kind}"
  "set (slot (outgoing_all (index_tables_of project sn)) i) =
     {(e, t) | e f t. (e, f, t) \<in> set (linked_edges (nodes_by_id (index_tables_of project sn)) (snap_edges sn)) \<and>
        edge_from e = i}"
  by (force simp: index_tables_of_def Let_def slot_fold_push_triples)+

lemma incoming_slot:
  "set (slot (incoming (index_tables_of project sn)) (i, kind, DirIn)) =
     {(e, f) | e f t. (e, f, t) \<in> set (linked_edges (nodes_by_id (index_tables_of project sn)) (snap_edges sn)) \<and>
        edge_to e = i \<and> edge_kind e = kind}"
  "set (slot (incoming_all (index_tables_of project sn)) i) =
     {(e, f) | e f t. (e, f, t) \<in> set (linked_edges (nodes_by_id (index_tables_of project sn)) (snap_edges sn)) \<and>
        edge_to e = i}"
  by (force simp: index_tables_of_def Let_def slot_fold_push_triples)+

text \<open>An edge of the snapshot seen from a node of the project, and the node at its far end.\<close>

definition project_node :: "string \<Rightarrow> snapshot \<Rightarrow> string \<Rightarrow> node \<Rightarrow> bool" where
  "project_node project sn i n \<longleftrightarrow> n \<in> set (snap_nodes sn) \<and> in_project project n \<and> node_id n = i"

definition touches :: "string \<Rightarrow> snapshot \<Rightarrow> string \<Rightarrow> string \<Rightarrow> direction \<Rightarrow> edge \<times> node \<Rightarrow> bool" where
  "touches project sn i kind dir p \<longleftrightarrow>
     (\<exists>e \<in> set (snap_edges sn). fst p = clone_edge e \<and> (kind = [] \<or> edge_kind e = kind) \<and>
        (\<exists>f t. project_node project sn (edge_from e) f \<and> project_node project sn (edge_to e) t \<and>
           (dir \<in> {DirOut, DirBoth} \<and> edge_from e = i \<and> snd p = t \<or>
            dir \<in> {DirIn, DirBoth} \<and> edge_to e = i \<and> snd p = f)))"

lemma set_both_slots:
  "set (both_slots out inn dir) =
     (if dir \<in> {DirOut, DirBoth} then {(clone_edge e, n) | e n. (e, n) \<in> set out} else {}) \<union>
     (if dir \<in> {DirIn, DirBoth} then {(clone_edge e, n) | e n. (e, n) \<in> set inn} else {})"
  by (cases dir) (force simp: both_slots_def clone_edge_nodes_def)+

lemma index_edge_nodes:
  assumes "distinct (map node_id (snap_nodes sn))"
  shows "(e', f, t) \<in> set (linked_edges (nodes_by_id (index_tables_of project sn)) (snap_edges sn)) \<longleftrightarrow>
    (\<exists>e \<in> set (snap_edges sn). e' = clone_edge e \<and> project_node project sn (edge_from e) f \<and>
       project_node project sn (edge_to e) t)"
  using index_node_table [OF assms] by (simp add: linked_edges_iff project_node_def)

lemma kind_neighbors_touches:
  assumes "distinct (map node_id (snap_nodes sn))" "tables idx = index_tables_of project sn"
  shows "p \<in> set (kind_neighbors i kind dir idx) \<longleftrightarrow> touches project sn i kind dir p"
proof -
  let ?L = "set (linked_edges (nodes_by_id (index_tables_of project sn)) (snap_edges sn))"
  have idem: "clone_edge e' = e'" if "(e', f, t) \<in> ?L" for e' f t
    using that by (auto simp: linked_edges_iff)
  have "p \<in> set (kind_neighbors i kind dir idx) \<longleftrightarrow>
      (\<exists>e f t. (e, f, t) \<in> ?L \<and> fst p = e \<and> (kind = [] \<or> edge_kind e = kind) \<and>
         (dir \<in> {DirOut, DirBoth} \<and> edge_from e = i \<and> snd p = t \<or>
          dir \<in> {DirIn, DirBoth} \<and> edge_to e = i \<and> snd p = f))"
    unfolding kind_neighbors_def all_neighbors_def assms(2)
    by (cases p) (force simp: set_both_slots outgoing_slot incoming_slot idem)
  also have "\<dots> \<longleftrightarrow> touches project sn i kind dir p"
    unfolding index_edge_nodes [OF assms(1)] touches_def by (auto 0 4)
  finally show ?thesis .
qed

section \<open>Coherence with the repository\<close>

text \<open>A call that may write to the in-memory repository.\<close>

inductive mem_write :: "mem_repo \<Rightarrow> mem_repo \<Rightarrow> bool" where
  upsert: "brings_no_future_id r identity properties \<Longrightarrow>
    mem_write r (snd (upsert_node now kind identity properties r))"
| batch: "\<forall>it \<in> set items. brings_no_future_id r (item_identity it) (item_properties it) \<Longrightarrow>
    mem_write r (snd (upsert_nodes_batch now kind items r))"
| link: "mem_write r (snd (link kind from to properties r))"
| link_batch: "mem_write r (snd (link_batch links r))"
| remove_nodes: "mem_write r (snd (remove_nodes ids r))"
| remove_edges: "mem_write r (snd (remove_edges ids r))"

lemma mem_write_ok: "mem_write r r' \<Longrightarrow> mem_ok r \<Longrightarrow> mem_ok r'"
  by (induction rule: mem_write.induct) (simp_all add: preserves)

text \<open>A write that touches the repository counts one up in the generation.\<close>

lemma generation_frame [simp]:
  "generation (bump r) = generation r + 1"
  "next_id r = (i, r1) \<Longrightarrow> generation r1 = generation r"
  "add_edge kind from to properties r = (e, r1) \<Longrightarrow> generation r1 = generation r"
  by (auto simp: bump_def next_id_def add_edge_def Let_def)

lemma generation_upsert_locked [simp]:
  "generation (snd (upsert_locked now kind identity properties r)) = generation r"
proof (cases "find_nodes_locked kind identity r")
  case (Cons old ns)
  then show ?thesis by (simp add: upsert_locked_old)
next
  case Nil
  let ?ps = "put_all properties (put_all identity [])"
  obtain fresh r1 where nx: "(if has_key ?ps ''id'' then ([], r) else next_id r) = (fresh, r1)"
    by (cases "if has_key ?ps ''id'' then ([], r) else next_id r")
  then have g: "generation r1 = generation r" by (auto split: if_splits)
  show ?thesis
    by (simp only: upsert_locked_def Nil list.case Let_def nx prod.case) (simp add: g split: val.split)
qed

lemma generation_upsert_items [simp]: "generation (snd (upsert_items now kind items r)) = generation r"
proof (induction items arbitrary: r)
  case (Cons it items)
  have "generation r1 = generation r"
    if "upsert_locked now kind (item_identity it) (item_properties it) r = (x, r1)" for x r1
    using generation_upsert_locked [of now kind "item_identity it" "item_properties it" r] that by simp
  with Cons show ?case unfolding upsert_items_Cons by (auto split: prod.split)
qed simp

lemma generation_link_items [simp]: "generation (snd (link_items items r)) = generation r"
  by (induction items r rule: link_items.induct) (auto simp: Let_def split: prod.splits)

lemma mem_write_generation: "mem_write r r' \<Longrightarrow> r' = r \<or> generation r' = generation r + 1"
proof (induction rule: mem_write.induct)
  case (link_batch r links)
  then show ?case
    using generation_link_items [of links "bump r"]
    by (cases "link_items links (bump r)") (simp add: link_batch_def)
qed (auto simp: upsert_node_def upsert_nodes_batch_def link_def remove_nodes_def remove_edges_def Let_def
      split: option.split prod.split)

text \<open>
  Runs of one index over a repository, with the number of calls so far: the index is rebuilt,
  refreshed or invalidated at any time, the repository written at any time.
\<close>

inductive index_run :: "(nat \<Rightarrow> string) \<Rightarrow> string \<Rightarrow> nat \<Rightarrow> query_index \<Rightarrow> mem_repo \<Rightarrow> bool"
  for gen project where
  start: "index_run gen project 0 (new_query_index True project) (new_memory_repo gen)"
| written: "index_run gen project k idx r \<Longrightarrow> mem_write r r' \<Longrightarrow> index_run gen project (Suc k) idx r'"
| rebuild: "index_run gen project k idx r \<Longrightarrow>
    index_run gen project (Suc k) (fst (snd (rebuild mem_source idx r))) r"
| refresh: "index_run gen project k idx r \<Longrightarrow>
    index_run gen project (Suc k) (fst (snd (refresh_index mem_source idx r))) r"
| invalidate: "index_run gen project k idx r \<Longrightarrow> index_run gen project (Suc k) (invalidate_index idx) r"

inductive_cases index_run_SucE: "index_run gen project (Suc k) idx r"

definition snap_of :: "mem_repo \<Rightarrow> snapshot" where
  "snap_of r = \<lparr>snap_nodes = sort_key node_id (map snd (nodes r)),
                snap_edges = sort_key edge_id (map snd (edges r)), snap_generation = generation r\<rparr>"

lemma rebuild_mem:
  "rebuild mem_source idx r =
     (if \<not> has_repo idx \<or> index_project idx = []
      then (Inl no_source_error, fail_index no_source_error idx, r)
      else (Inr (), idx\<lparr>tables := index_tables_of (index_project idx) (snap_of r),
                        graph_generation := generation r, index_generation := index_generation idx + 1,
                        index_status := IndexReady, last_err := None\<rparr>, r))"
  by (simp add: rebuild_def take_snapshot_def mem_source_def graph_snapshot_def snap_of_def Let_def
      replace_tables_def)

lemma refresh_mem:
  "refresh_index mem_source idx r =
     (if index_status idx = IndexReady \<and> generation r = graph_generation idx then (Inr (), idx, r)
      else rebuild mem_source idx r)"
  by (auto simp: refresh_index_def mem_source_def)

text \<open>What every run keeps; \<open>g\<close> counts the writes, \<open>j\<close> those the tables have seen.\<close>

definition coherent :: "string \<Rightarrow> nat \<Rightarrow> query_index \<Rightarrow> mem_repo \<Rightarrow> bool" where
  "coherent project k idx r \<longleftrightarrow>
     mem_ok r \<and> has_repo idx \<and> index_project idx = project \<and>
     (\<exists>g j. j \<le> g \<and> g \<le> k \<and> generation r = of_nat g \<and> graph_generation idx = of_nat j \<and>
        (index_status idx = IndexReady \<and> j = g \<longrightarrow> tables idx = index_tables_of project (snap_of r)))"

lemma coherent_rebuild: "coherent project k idx r \<Longrightarrow> coherent project (Suc k) (fst (snd (rebuild mem_source idx r))) r"
  by (auto simp: coherent_def rebuild_mem fail_index_def intro: le_SucI)

lemma index_run_coherent:
  assumes "index_run gen project k idx r" "inj gen"
  shows "coherent project k idx r"
  using assms(1)
proof (induction rule: index_run.induct)
  case start
  then show ?case
    using mem_ok_new [OF assms(2)]
    by (simp add: coherent_def new_query_index_def) (simp add: new_memory_repo_def)
next
  case (written k idx r r')
  then obtain g j where gj: "j \<le> g" "g \<le> k" "generation r = of_nat g" "graph_generation idx = of_nat j"
    "index_status idx = IndexReady \<and> j = g \<longrightarrow> tables idx = index_tables_of project (snap_of r)"
    and rest: "mem_ok r'" "has_repo idx" "index_project idx = project"
    using mem_write_ok [OF written.hyps(2)] by (auto simp: coherent_def)
  from mem_write_generation [OF written.hyps(2)] show ?case
  proof
    assume "r' = r"
    with gj rest show ?thesis by (auto simp: coherent_def intro: le_SucI)
  next
    assume "generation r' = generation r + 1"
    then have "generation r' = of_nat (Suc g)" using gj(3) by simp
    with gj(1,2,4) rest show ?thesis
      unfolding coherent_def by (intro conjI exI [of _ "Suc g"] exI [of _ j]) auto
  qed
next
  case (rebuild k idx r)
  then show ?case by (simp add: coherent_rebuild)
next
  case (refresh k idx r)
  then show ?case
    using coherent_rebuild [of project k idx r]
    by (auto simp: refresh_mem) (auto simp: coherent_def intro: le_SucI)
next
  case (invalidate k idx r)
  then show ?case by (auto simp: coherent_def invalidate_index_def intro: le_SucI)
qed

lemma refresh_coherent:
  assumes "coherent project k idx r" "k < 2 ^ 64" "project \<noteq> []"
  obtains idx' where "refresh_index mem_source idx r = (Inr (), idx', r)"
    "tables idx' = index_tables_of project (snap_of r)" "index_project idx' = project"
proof (cases "index_status idx = IndexReady \<and> generation r = graph_generation idx")
  case True
  from assms(1) obtain g j where gj: "j \<le> g" "g \<le> k" "generation r = of_nat g" "graph_generation idx = of_nat j"
    "index_status idx = IndexReady \<and> j = g \<longrightarrow> tables idx = index_tables_of project (snap_of r)"
    by (auto simp: coherent_def)
  have "(of_nat g :: 64 word) = of_nat j" using gj(3,4) True by simp
  then have "g mod 2 ^ 64 = j mod 2 ^ 64" by (simp add: of_nat_eq_iff [symmetric] word_of_nat_eq_iff take_bit_nat_def)
  then have "j = g" using gj(1,2) assms(2) by simp
  with gj(5) True assms that [of idx] show ?thesis by (simp add: refresh_mem coherent_def)
next
  case False
  with assms show ?thesis by (intro that) (auto simp: refresh_mem rebuild_mem coherent_def)
qed

lemma snap_of_distinct: "mem_ok r \<Longrightarrow> distinct (map node_id (snap_nodes (snap_of r)))"
proof -
  assume ok: "mem_ok r"
  then have "map node_id (map snd (nodes r)) = keys (nodes r)" by (auto simp: mem_ok_def)
  then have "distinct (map node_id (map snd (nodes r)))" using mem_okD(1) [OF ok] by (simp only:)
  moreover have "mset (map node_id (sort_key node_id (map snd (nodes r)))) = mset (map node_id (map snd (nodes r)))"
    by (simp add: multiset.map_comp)
  ultimately have "distinct (map node_id (sort_key node_id (map snd (nodes r))))"
    using mset_eq_imp_distinct_iff by blast
  then show ?thesis by (simp add: snap_of_def)
qed

lemma snap_of_nodes:
  assumes "mem_ok r"
  shows "n \<in> set (snap_nodes (snap_of r)) \<and> node_id n = i \<longleftrightarrow> map_of (nodes r) i = Some n"
proof
  assume n: "n \<in> set (snap_nodes (snap_of r)) \<and> node_id n = i"
  then obtain j where j: "(j, n) \<in> set (nodes r)" by (auto simp: snap_of_def)
  then have "map_of (nodes r) j = Some n" using mem_okD(1) [OF assms] by (rule map_of_is_SomeI [rotated])
  moreover from mem_okD(4) [OF assms this] n have "j = i" by simp
  ultimately show "map_of (nodes r) i = Some n" by simp
next
  assume n: "map_of (nodes r) i = Some n"
  then have "(i, n) \<in> set (nodes r)" by (rule map_of_SomeD)
  with mem_okD(4) [OF assms n] show "n \<in> set (snap_nodes (snap_of r)) \<and> node_id n = i"
    by (auto simp: snap_of_def intro: rev_image_eqI)
qed

text \<open>
  Claim C13. The tables of a rebuild answer exactly what a scan of the snapshot would: the ids
  listed for a kind, a name, a qualified name, a stable id or a path resolve to the nodes of
  the project with that value, in id order, and the neighbours of a node are exactly the
  edges of the snapshot between nodes of the project, by direction and kind.
\<close>

theorem index_answers_as_scan:
  assumes "distinct (map node_id (snap_nodes sn))"
  shows "nodes_of_ids (index_tables_of project sn) (slot (nodes_by_kind (index_tables_of project sn)) k) =
      scan_nodes (\<lambda>n. node_kind n = k) project sn \<and>
    nodes_of_ids (index_tables_of project sn) (slot (by_path (index_tables_of project sn)) k) =
      scan_nodes (\<lambda>n. k \<in> set (path_keys n)) project sn \<and>
    (k \<noteq> [] \<longrightarrow>
      nodes_of_ids (index_tables_of project sn) (slot (by_name (index_tables_of project sn)) k) =
        scan_nodes (\<lambda>n. prop_text n ''name'' = k) project sn \<and>
      nodes_of_ids (index_tables_of project sn) (slot (by_qualified (index_tables_of project sn)) k) =
        scan_nodes (\<lambda>n. prop_text n ''qualified_name'' = k) project sn \<and>
      nodes_of_ids (index_tables_of project sn) (slot (stable_by_id (index_tables_of project sn)) k) =
        scan_nodes (\<lambda>n. prop_text n ''stable_id'' = k) project sn) \<and>
    (tables idx = index_tables_of project sn \<longrightarrow>
      (p \<in> set (kind_neighbors i kind dir idx) \<longleftrightarrow> touches project sn i kind dir p))"
  using kind_neighbors_touches [OF assms] by (simp add: index_ids index_scan [OF assms])

definition demo_snapshot :: snapshot where
  "demo_snapshot =
     \<lparr>snap_nodes = [\<lparr>node_id = ''b'', node_kind = ''F'', node_props = [(''name'', VStr ''x''), (''project_id'', VStr ''p'')]\<rparr>,
                    \<lparr>node_id = ''a'', node_kind = ''F'', node_props = [(''name'', VStr ''x''), (''project_id'', VStr ''p'')]\<rparr>],
      snap_edges = [], snap_generation = 0\<rparr>"

lemma index_answers_as_scan_witness:
  "nodes_of_ids (index_tables_of ''p'' demo_snapshot)
     (slot (by_name (index_tables_of ''p'' demo_snapshot)) ''x'') =
   scan_nodes (\<lambda>n. prop_text n ''name'' = ''x'') ''p'' demo_snapshot"
proof -
  have "distinct (map node_id (snap_nodes demo_snapshot))" by code_simp
  from index_answers_as_scan [OF this, of "''p''" "''x''"] show ?thesis by simp
qed

text \<open>
  Claim C14. The index never answers from an outdated graph: after fewer than \<open>2^64\<close> calls, in
  any order, of writes to the in-memory repository, rebuilds, refreshes and invalidations, a
  lookup that refreshes first succeeds, leaves the repository alone and answers for the graph
  as it is now (the generation counter cannot have come round).
\<close>

theorem index_lookup_current:
  assumes "index_run gen project k idx r" "inj gen" "k < 2 ^ 64" "project \<noteq> []"
  shows "fst (index_nodes_by_kind mem_source kind idx r) = scan_nodes (\<lambda>n. node_kind n = kind) project (snap_of r) \<and>
    fst (index_node mem_source i idx r) =
      (case map_of (nodes r) i of
         None \<Rightarrow> None
       | Some n \<Rightarrow> if in_project project n then Some n else None) \<and>
    snd (snd (index_node mem_source i idx r)) = r"
proof -
  have coh: "coherent project k idx r" using assms(1,2) by (rule index_run_coherent)
  then have ok: "mem_ok r" by (simp add: coherent_def)
  from refresh_coherent [OF coh assms(3,4)] obtain idx' where
    idx': "refresh_index mem_source idx r = (Inr (), idx', r)" "tables idx' = index_tables_of project (snap_of r)"
    by blast
  have node: "map_of (nodes_by_id (tables idx')) i = Some n \<longleftrightarrow> map_of (nodes r) i = Some n \<and> in_project project n" for n
    using index_node_table [OF snap_of_distinct [OF ok]] snap_of_nodes [OF ok, of n i] idx'(2) by auto
  have "map_of (nodes_by_id (tables idx')) i =
      (case map_of (nodes r) i of None \<Rightarrow> None | Some n \<Rightarrow> if in_project project n then Some n else None)"
  proof (cases "map_of (nodes_by_id (tables idx')) i")
    case None
    have "\<not> (map_of (nodes r) i = Some n \<and> in_project project n)" for n
      using None unfolding node [symmetric] by simp
    with None show ?thesis by (simp split: option.split)
  next
    case (Some n)
    then have "map_of (nodes r) i = Some n \<and> in_project project n" by (simp only: node)
    with Some show ?thesis by simp
  qed
  then show ?thesis
    using idx' index_scan [OF snap_of_distinct [OF ok]]
    by (simp add: index_nodes_by_kind_def index_node_def refreshed_def get_indexed_def index_ids
        split: option.split)
qed

lemma index_lookup_current_witness:
  "fst (index_nodes_by_kind mem_source ''F'' (new_query_index True ''p'')
     (snd (link ''CALLS'' ''a'' ''b'' None (new_memory_repo demo_ids)))) =
   scan_nodes (\<lambda>n. node_kind n = ''F'') ''p'' (snap_of (snd (link ''CALLS'' ''a'' ''b'' None (new_memory_repo demo_ids))))"
  using index_lookup_current [OF index_run.written [OF index_run.start mem_write.link] inj_demo_ids, of "''p''"]
  by simp

end
