(* ===== verification/GoFloat.thy ===== *)
theory GoFloat
  imports GoFormat
begin

text \<open>
  Arithmetic on \<open>float64\<close>: every operation gives the double nearest to the exact result, ties
  to even, as IEEE 754 and the Go specification have it. There is one zero: the code never
  divides by a signed zero or prints one.
\<close>

section \<open>Rounding\<close>

fun f64_neg :: "f64 \<Rightarrow> f64" where
  "f64_neg (Fin q) = Fin (- q)"
| "f64_neg PosInf = NegInf"
| "f64_neg NegInf = PosInf"
| "f64_neg NaN = NaN"

definition round_double :: "rat \<Rightarrow> f64" where
  "round_double q =
     (if q = 0 then Fin 0 else if 0 < q then nearest_double q else f64_neg (nearest_double (- q)))"

definition f64_of_int :: "int \<Rightarrow> f64" where
  "f64_of_int i = round_double (of_int i)"

section \<open>Sums, products and quotients\<close>

fun f64_add :: "f64 \<Rightarrow> f64 \<Rightarrow> f64" where
  "f64_add (Fin a) (Fin b) = round_double (a + b)"
| "f64_add NaN _ = NaN"
| "f64_add _ NaN = NaN"
| "f64_add PosInf NegInf = NaN"
| "f64_add NegInf PosInf = NaN"
| "f64_add PosInf _ = PosInf"
| "f64_add _ PosInf = PosInf"
| "f64_add NegInf _ = NegInf"
| "f64_add _ NegInf = NegInf"

definition f64_sub :: "f64 \<Rightarrow> f64 \<Rightarrow> f64" where
  "f64_sub a b = f64_add a (f64_neg b)"

text \<open>The infinity with the sign of a non-zero factor; a zero factor gives \<open>NaN\<close>.\<close>

definition signed_inf :: "bool \<Rightarrow> f64" where
  "signed_inf positive = (if positive then PosInf else NegInf)"

fun f64_mul :: "f64 \<Rightarrow> f64 \<Rightarrow> f64" where
  "f64_mul (Fin a) (Fin b) = round_double (a * b)"
| "f64_mul NaN _ = NaN"
| "f64_mul _ NaN = NaN"
| "f64_mul (Fin a) b = (if a = 0 then NaN else signed_inf ((0 < a) = (b = PosInf)))"
| "f64_mul a (Fin b) = (if b = 0 then NaN else signed_inf ((0 < b) = (a = PosInf)))"
| "f64_mul a b = signed_inf (a = b)"

fun f64_div :: "f64 \<Rightarrow> f64 \<Rightarrow> f64" where
  "f64_div (Fin a) (Fin b) =
     (if b \<noteq> 0 then round_double (a / b) else if a = 0 then NaN else signed_inf (0 < a))"
| "f64_div NaN _ = NaN"
| "f64_div _ NaN = NaN"
| "f64_div (Fin a) b = Fin 0"
| "f64_div a (Fin b) = signed_inf ((0 \<le> b) = (a = PosInf))"
| "f64_div a b = NaN"

definition f64_le :: "f64 \<Rightarrow> f64 \<Rightarrow> bool" where
  "f64_le a b \<longleftrightarrow> f64_less a b \<or> f64_eq a b"

text \<open>Away from \<open>NaN\<close> the order is total, so a slice can be sorted by a score, best first.\<close>

lemma f64_not_NaN: "f64_less a b \<Longrightarrow> a \<noteq> NaN \<and> b \<noteq> NaN" "f64_eq a b \<Longrightarrow> a \<noteq> NaN \<and> b \<noteq> NaN"
  by (cases a; cases b; simp)+

lemma f64_order: "weak_order_on {p. f p \<noteq> NaN} (\<lambda>a b. f64_less (f b) (f a))"
proof -
  have asym: "f64_less a b \<Longrightarrow> \<not> f64_less b a" for a b
    by (cases a; cases b) auto
  have trans: "a \<noteq> NaN \<Longrightarrow> b \<noteq> NaN \<Longrightarrow> c \<noteq> NaN \<Longrightarrow> \<not> f64_less b a \<Longrightarrow> \<not> f64_less c b \<Longrightarrow> \<not> f64_less c a" for a b c
    by (cases a; cases b; cases c) auto
  show ?thesis
    unfolding weak_order_on_def mem_Collect_eq
  proof (intro conjI ballI impI, goal_cases)
    case (1 x y)
    then show ?case by (intro asym)
  next
    case (2 x y z)
    show ?case by (rule trans [of _ "f y"]) (use 2 in simp_all)
  qed
qed

lemma f64_less_irrefl [simp]: "\<not> f64_less a a"
  by (cases a) auto

section \<open>Square roots\<close>

text \<open>The integer square root, bit pair by bit pair.\<close>

function isqrt :: "nat \<Rightarrow> nat" where
  "isqrt n =
     (if n = 0 then 0
      else let r = 2 * isqrt (n div 4) in if (r + 1) * (r + 1) \<le> n then r + 1 else r)"
  by pat_completeness auto
termination by (relation "measure id") auto

declare isqrt.simps [simp del]

lemma isqrt_bounds: "isqrt n * isqrt n \<le> n \<and> n < (isqrt n + 1) * (isqrt n + 1)"
proof (induction n rule: isqrt.induct)
  case (1 n)
  show ?case
  proof (cases "n = 0")
    case False
    let ?q = "isqrt (n div 4)"
    from 1 False have lo: "?q * ?q \<le> n div 4" and hi: "n div 4 < (?q + 1) * (?q + 1)" by auto
    from lo have "4 * (?q * ?q) \<le> n" by linarith
    then have lo': "(2 * ?q) * (2 * ?q) \<le> n" by (simp add: algebra_simps)
    from hi have "n < 4 * ((?q + 1) * (?q + 1))" by linarith
    then have hi': "n < (2 * ?q + 2) * (2 * ?q + 2)" by (simp add: algebra_simps)
    show ?thesis
      using False lo' hi' by (subst (1 2 3 4) isqrt.simps) (simp add: Let_def)
  qed (simp add: isqrt.simps)
qed

text \<open>
  \<open>math.Sqrt\<close>: the operand is scaled to an integer of more than 110 bits, so that its integer
  root has more bits than a double and a half-way point; a remainder becomes a last bit that
  keeps the value off the half-way points.
\<close>

definition sqrt_shift :: "rat \<Rightarrow> int" where
  "sqrt_shift q = (let (a, b) = quotient_of q in max 0 ((112 + bitlen b - bitlen a) div 2 + 1))"

definition sqrt_approx :: "rat \<Rightarrow> rat" where
  "sqrt_approx q =
     (let k = sqrt_shift q;
          x = q * pow2 (2 * k);
          s = isqrt (nat \<lfloor>x\<rfloor>)
      in if of_nat (s * s) = x then of_nat s / pow2 k else (2 * of_nat s + 1) / pow2 (k + 1))"

fun f64_sqrt :: "f64 \<Rightarrow> f64" where
  "f64_sqrt (Fin q) = (if q < 0 then NaN else if q = 0 then Fin 0 else nearest_double (sqrt_approx q))"
| "f64_sqrt PosInf = PosInf"
| "f64_sqrt _ = NaN"

declare f64_sqrt.simps [simp del]

text \<open>The approximation of a square that is representable is exact.\<close>

lemma isqrt_square: "isqrt (m * m) = m"
proof -
  have "isqrt (m * m) * isqrt (m * m) \<le> m * m" "m * m < (isqrt (m * m) + 1) * (isqrt (m * m) + 1)"
    using isqrt_bounds [of "m * m"] by auto
  then show ?thesis
    by (metis less_Suc_eq_le mult_less_cancel2 nat_neq_iff not_less Suc_eq_plus1
        mult_strict_mono' le_antisym mult_le_mono zero_le)
qed

lemma round_double_1 [simp]: "round_double 1 = Fin 1"
  by (simp add: round_double_def nearest_double_def pow2_def round_half_even_def Let_def)

end
