(* ===== verification/SemanticCache.thy ===== *)
theory SemanticCache
  imports GoFloat
begin

text \<open>
  \<open>internal/cache/semantic.go\<close>: a list of past results searched by the similarity of their
  query. The vocabulary of an embedding (a \<open>map[string]float64\<close>) is kept sorted, the order in
  which the vector is written. A score tie is resolved as the stable sort Go uses on short
  slices does, by age. Queries are ASCII bytes: \<open>unicode.ToLower\<close> maps two other code points
  to ASCII letters.
\<close>

section \<open>Configuration and entries\<close>

record semantic_config =
  sem_enabled :: bool
  sem_threshold :: f64
  sem_max_results :: int
  sem_max_entries :: int

record cache_entry =
  ce_key :: string
  ce_tool :: string
  ce_args :: "props option"
  ce_result :: "props option"
  ce_project :: string
  ce_repo :: string
  ce_commit :: string
  ce_binary :: string
  ce_parser :: string
  ce_analysis :: string
  ce_schema :: string
  ce_created :: string
  ce_updated :: string
  ce_confidence :: f64
  ce_model :: string
  ce_model_version :: string
  ce_agent :: string
  ce_evidence :: "string list"
  ce_graph_refs :: "string list"
  ce_freshness :: string
  ce_embedding :: "f64 list option"

record semantic_cache =
  sem_entries :: "cache_entry list"
  sem_config :: semantic_config

definition new_semantic_cache :: "semantic_config \<Rightarrow> semantic_cache" where
  "new_semantic_cache cfg =
     \<lparr>sem_entries = [],
      sem_config = (if sem_max_entries cfg \<le> 0 then cfg\<lparr>sem_max_entries := 10000\<rparr> else cfg)\<rparr>"

section \<open>Embeddings\<close>

definition stopwords :: "string list" where
  "stopwords =
     [''the'', ''a'', ''an'', ''of'', ''to'', ''in'', ''for'', ''on'', ''with'', ''at'', ''by'', ''from'',
      ''is'', ''are'', ''was'', ''were'', ''this'', ''that'', ''these'', ''those'', ''and'', ''or'', ''but'',
      ''what'', ''which'', ''how'', ''why'', ''when'', ''where'', ''who'', ''whom'', ''whose'',
      ''does'', ''do'', ''did'', ''has'', ''have'', ''had'', ''be'', ''been'', ''being'',
      ''show'', ''get'', ''find'', ''list'', ''give'', ''tell'', ''explain'', ''describe'']"

definition token_char :: "char \<Rightarrow> bool" where
  "token_char c \<longleftrightarrow> is_lower c \<or> is_digit c \<or> c = CHR ''_''"

definition tokenize :: "string \<Rightarrow> string list" where
  "tokenize text =
     filter (\<lambda>f. 2 < length f \<and> f \<notin> set stopwords) (fields_func (\<lambda>c. \<not> token_char c) (to_lower text))"

definition count_token :: "string \<Rightarrow> f64 store \<Rightarrow> f64 store" where
  "count_token t m = put t (f64_add (case map_of m t of None \<Rightarrow> Fin 0 | Some x \<Rightarrow> x) (Fin 1)) m"

definition vocabulary :: "string list \<Rightarrow> f64 store" where
  "vocabulary ts = fold count_token ts []"

definition sum_squares :: "f64 list \<Rightarrow> f64" where
  "sum_squares xs = fold (\<lambda>v acc. f64_add acc (f64_mul v v)) xs (Fin 0)"

definition normalize :: "f64 list \<Rightarrow> f64 list" where
  "normalize xs =
     (let mag = f64_sqrt (sum_squares xs)
      in if f64_eq mag (Fin 0) then [] else map (\<lambda>v. f64_div v mag) xs)"

definition embed_query :: "string \<Rightarrow> f64 list" where
  "embed_query query = normalize (map snd (vocabulary (tokenize query)))"

definition cosine_similarity :: "f64 list \<Rightarrow> f64 list \<Rightarrow> f64" where
  "cosine_similarity a b =
     (if a = [] \<or> b = [] then Fin 0
      else let mag_a = sum_squares a; mag_b = sum_squares b
           in if f64_eq mag_a (Fin 0) \<or> f64_eq mag_b (Fin 0) then Fin 0
              else f64_div (fold (\<lambda>(x, y) dot. f64_add dot (f64_mul x y)) (zip a b) (Fin 0))
                     (f64_mul (f64_sqrt mag_a) (f64_sqrt mag_b)))"

section \<open>Indexing and searching\<close>

text \<open>The entry indexed is shared with the caller, who sees its embedding filled in.\<close>

definition with_embedding :: "string \<Rightarrow> cache_entry \<Rightarrow> cache_entry" where
  "with_embedding query e =
     (if ce_embedding e = None then e\<lparr>ce_embedding := Some (embed_query query)\<rparr> else e)"

definition sem_index :: "cache_entry option \<Rightarrow> string \<Rightarrow> semantic_cache \<Rightarrow> semantic_cache" where
  "sem_index entry query s =
     (case entry of
        None \<Rightarrow> s
      | Some e \<Rightarrow>
          (if \<not> sem_enabled (sem_config s) then s
           else let es = sem_entries s @ [with_embedding query e];
                    excess = length es - nat (sem_max_entries (sem_config s))
                in s\<lparr>sem_entries := drop excess es\<rparr>))"

definition in_scope :: "string \<Rightarrow> string \<Rightarrow> string \<Rightarrow> string \<Rightarrow> cache_entry \<Rightarrow> bool" where
  "in_scope project repo commit binary e \<longleftrightarrow>
     ce_project e = project \<and>
     (ce_repo e = [] \<or> ce_repo e = repo) \<and>
     (ce_commit e = [] \<or> ce_commit e = commit) \<and>
     (ce_binary e = [] \<or> ce_binary e = binary) \<and>
     (case ce_embedding e of None \<Rightarrow> False | Some v \<Rightarrow> v \<noteq> [])"

definition score :: "f64 list \<Rightarrow> cache_entry \<Rightarrow> f64" where
  "score target e = cosine_similarity target (case ce_embedding e of None \<Rightarrow> [] | Some v \<Rightarrow> v)"

text \<open>\<open>sort.Slice\<close> by falling score.\<close>

definition sort_scores :: "(cache_entry \<times> f64) list \<Rightarrow> (cache_entry \<times> f64) list" where
  "sort_scores = sort_by (\<lambda>a b. f64_less (snd b) (snd a))"

definition sem_search ::
    "string \<Rightarrow> string \<Rightarrow> string \<Rightarrow> string \<Rightarrow> string \<Rightarrow> int \<Rightarrow> semantic_cache \<Rightarrow> cache_entry option" where
  "sem_search query project repo commit binary max_results s =
     (if \<not> sem_enabled (sem_config s) then None
      else let target = embed_query query;
               results = filter (\<lambda>(e, sim). f64_le (sem_threshold (sem_config s)) sim)
                 (map (\<lambda>e. (e, score target e)) (filter (in_scope project repo commit binary) (sem_entries s)))
           in (case sort_scores results of [] \<Rightarrow> None | (e, _) # _ \<Rightarrow> Some e))"

definition sem_clear :: "semantic_cache \<Rightarrow> semantic_cache" where
  "sem_clear s = s\<lparr>sem_entries := []\<rparr>"

section \<open>The job registry\<close>

text \<open>
  \<open>JobRegistry\<close>: one job per key until it is released; the channel \<open>Done\<close> of a new job is
  identified by the number of jobs made before it.
\<close>

record job =
  job_claimed :: bool
  job_completed :: bool
  job_result :: "props option"
  job_error :: string
  job_done :: nat

record job_registry =
  jobs_by_key :: "job store"
  jobs_made :: nat

definition new_job_registry :: job_registry where
  "new_job_registry = \<lparr>jobs_by_key = [], jobs_made = 0\<rparr>"

definition acquire_job :: "string \<Rightarrow> job_registry \<Rightarrow> job \<times> job_registry" where
  "acquire_job key j =
     (case map_of (jobs_by_key j) key of
        Some existing \<Rightarrow> (existing, j)
      | None \<Rightarrow>
          (let new = \<lparr>job_claimed = False, job_completed = False, job_result = None, job_error = [],
                      job_done = jobs_made j\<rparr>
           in (new, j\<lparr>jobs_by_key := AList.update key new (jobs_by_key j), jobs_made := jobs_made j + 1\<rparr>)))"

definition release_job :: "string \<Rightarrow> job_registry \<Rightarrow> job_registry" where
  "release_job key j = j\<lparr>jobs_by_key := AList.delete key (jobs_by_key j)\<rparr>"

definition get_job :: "string \<Rightarrow> job_registry \<Rightarrow> job option" where
  "get_job key j = map_of (jobs_by_key j) key"

section \<open>What the index keeps\<close>

lemma sem_index_entries:
  assumes "sem_enabled (sem_config s)"
  shows "sem_entries (sem_index (Some e) q s) =
      (let es = sem_entries s @ [with_embedding q e]
       in drop (length es - nat (sem_max_entries (sem_config s))) es)"
    and "sem_config (sem_index (Some e) q s) = sem_config s"
  using assms by (simp_all add: sem_index_def Let_def)

lemma new_semantic_cache_max: "0 < sem_max_entries (sem_config (new_semantic_cache cfg))"
  by (simp add: new_semantic_cache_def)

lemma sem_index_fold:
  assumes "sem_enabled (sem_config s)"
  defines "m \<equiv> nat (sem_max_entries (sem_config s))"
  assumes "sem_entries s = drop (length es - m) es"
  shows "sem_entries (fold (\<lambda>(e, q). sem_index (Some e) q) items s) =
    (let all = es @ map (\<lambda>(e, q). with_embedding q e) items in drop (length all - m) all)"
  using assms(1,3) unfolding m_def
proof (induction items arbitrary: s es)
  case (Cons it items)
  obtain e q where it: "it = (e, q)" by (cases it)
  let ?s = "sem_index (Some e) q s" and ?m = "nat (sem_max_entries (sem_config s))"
  let ?es = "es @ [with_embedding q e]"
  have cfg: "sem_config ?s = sem_config s" using Cons.prems by (simp add: sem_index_def Let_def)
  have "sem_entries ?s = drop (length ?es - ?m) ?es"
    using Cons.prems by (cases "length es \<le> ?m") (auto simp: sem_index_entries Let_def Suc_diff_le not_le)
  with Cons.IH [of ?s ?es] Cons.prems(1) cfg it show ?case by simp
qed simp

section \<open>What a search finds\<close>

definition candidates ::
    "string \<Rightarrow> string \<Rightarrow> string \<Rightarrow> string \<Rightarrow> string \<Rightarrow> semantic_cache \<Rightarrow> (cache_entry \<times> f64) list" where
  "candidates query project repo commit binary s =
     filter (\<lambda>(e, sim). f64_le (sem_threshold (sem_config s)) sim)
       (map (\<lambda>e. (e, score (embed_query query) e)) (filter (in_scope project repo commit binary) (sem_entries s)))"

lemma sem_search_candidates:
  "sem_enabled (sem_config s) \<Longrightarrow>
   sem_search query project repo commit binary k s =
     (case sort_scores (candidates query project repo commit binary s) of [] \<Rightarrow> None | (e, _) # _ \<Rightarrow> Some e)"
  by (simp add: sem_search_def candidates_def Let_def)

lemma candidates_order:
  "weak_order_on (set (candidates query project repo commit binary s)) (\<lambda>a b. f64_less (snd b) (snd a))"
  by (rule weak_order_on_subset [OF f64_order])
    (auto simp: candidates_def f64_le_def dest: f64_not_NaN)

lemma in_candidates:
  "(e, x) \<in> set (candidates query project repo commit binary s) \<longleftrightarrow>
   e \<in> set (sem_entries s) \<and> in_scope project repo commit binary e \<and>
   x = score (embed_query query) e \<and> f64_le (sem_threshold (sem_config s)) x"
  by (auto simp: candidates_def)

text \<open>
  Claim C20. A semantic search answers with a stored entry of the project whose repository,
  commit and binary agree where the entry names them, whose similarity reaches the threshold
  and is not exceeded by any other such entry; it finds nothing exactly when the search is
  disabled or no such entry reaches the threshold.
\<close>

theorem semantic_search_best:
  "(case sem_search query project repo commit binary k s of
      Some e \<Rightarrow> sem_enabled (sem_config s) \<and> e \<in> set (sem_entries s) \<and>
        in_scope project repo commit binary e \<and>
        f64_le (sem_threshold (sem_config s)) (score (embed_query query) e) \<and>
        \<not> (\<exists>e' \<in> set (sem_entries s). in_scope project repo commit binary e' \<and>
             f64_le (sem_threshold (sem_config s)) (score (embed_query query) e') \<and>
             f64_less (score (embed_query query) e) (score (embed_query query) e'))
    | None \<Rightarrow> \<not> (sem_enabled (sem_config s) \<and>
        (\<exists>e \<in> set (sem_entries s). in_scope project repo commit binary e \<and>
           f64_le (sem_threshold (sem_config s)) (score (embed_query query) e))))"
proof (cases "sem_enabled (sem_config s)")
  case True
  let ?c = "candidates query project repo commit binary s"
  note search = sem_search_candidates [OF True, of query project repo commit binary k]
  note member = in_candidates [of _ _ query project repo commit binary s]
  show ?thesis
  proof (cases "sort_scores ?c")
    case Nil
    then have "set ?c = {}" using set_sort_by [of _ ?c] unfolding sort_scores_def by (metis list.set(1))
    with True Nil member show ?thesis by (auto simp: search)
  next
    case (Cons y ys)
    obtain e x where y: "y = (e, x)" by (cases y)
    have best: "\<forall>z \<in> set ys. \<not> f64_less x (snd z)"
      using sorted_sort_by [OF candidates_order order.refl, of query project repo commit binary s] Cons y by (simp add: sort_scores_def)
    have all: "set ?c = insert (e, x) (set ys)" using set_sort_by [of _ ?c] Cons y unfolding sort_scores_def by (metis list.simps(15))
    then have e: "(e, x) \<in> set ?c" by simp
    have "\<not> f64_less x (score (embed_query query) e')"
      if "(e', score (embed_query query) e') \<in> set ?c" for e'
      using that all best by auto
    with True Cons y e member show ?thesis by (auto simp: search)
  qed
qed (simp add: sem_search_def)

text \<open>
  The index holds the entries indexed since it was made or cleared, the oldest
  dropped beyond the configured maximum, each with the embedding of the query it was indexed
  under unless it came with one.
\<close>

theorem semantic_keeps_latest:
  assumes "sem_enabled cfg"
  shows "sem_entries (fold (\<lambda>(e, q). sem_index (Some e) q) items (sem_clear (new_semantic_cache cfg))) =
    (let all = map (\<lambda>(e, q). with_embedding q e) items;
         limit = nat (if sem_max_entries cfg \<le> 0 then 10000 else sem_max_entries cfg)
     in drop (length all - limit) all)"
  using sem_index_fold [of "sem_clear (new_semantic_cache cfg)" "[]" items] assms
  by (simp add: sem_clear_def new_semantic_cache_def Let_def)

section \<open>Embeddings carry no words\<close>

lemma f64_sqrt_1: "f64_sqrt (Fin 1) = Fin 1"
proof -
  have shift: "sqrt_shift 1 = 57" by (simp add: sqrt_shift_def Let_def)
  have "isqrt (nat \<lfloor>1 * pow2 114\<rfloor>) = 2 ^ 57"
    using isqrt_square [of "2 ^ 57"] by (simp add: pow2_def)
  then have "sqrt_approx 1 = 1" by (simp add: sqrt_approx_def shift Let_def pow2_def)
  then show ?thesis using round_double_1 by (simp add: round_double_def f64_sqrt.simps)
qed

lemma sum_squares_1: "sum_squares [Fin 1] = Fin 1"
  by (simp add: sum_squares_def)

lemma embed_one_word: "tokenize q = [w] \<Longrightarrow> embed_query q = [Fin 1]"
  by (simp add: embed_query_def vocabulary_def count_token_def normalize_def sum_squares_1 f64_sqrt_1)

lemma cosine_one_word: "cosine_similarity [Fin 1] [Fin 1] = Fin 1"
  by (simp add: cosine_similarity_def sum_squares_1 f64_sqrt_1)

text \<open>
  An embedding forgets which words a query has: after one result was indexed under
  a query of one significant word, a query of any other single word in the same scope gets
  that result, at every threshold up to 1.
\<close>

theorem semantic_confuses_words:
  assumes "tokenize q = [w]" "tokenize q' = [w']"
    and "sem_enabled cfg" "f64_le (sem_threshold cfg) (Fin 1)" "ce_embedding e = None"
  shows "sem_search q' (ce_project e) (ce_repo e) (ce_commit e) (ce_binary e) k
      (sem_index (Some e) q (new_semantic_cache cfg)) = Some (e\<lparr>ce_embedding := Some [Fin 1]\<rparr>)"
  using assms new_semantic_cache_max [of cfg]
  by (simp add: sem_search_def sem_index_def with_embedding_def new_semantic_cache_def Let_def
      embed_one_word in_scope_def score_def cosine_one_word sort_scores_def drop_Cons')

definition demo_entry :: cache_entry where
  "demo_entry =
     \<lparr>ce_key = ''k'', ce_tool = ''ask'', ce_args = None, ce_result = Some [(''answer'', VStr ''yes'')],
      ce_project = ''p'', ce_repo = [], ce_commit = [], ce_binary = [], ce_parser = [], ce_analysis = [],
      ce_schema = [], ce_created = [], ce_updated = [], ce_confidence = Fin 1, ce_model = [],
      ce_model_version = [], ce_agent = [], ce_evidence = [], ce_graph_refs = [], ce_freshness = ''VALID'',
      ce_embedding = None\<rparr>"

definition demo_semantic :: semantic_config where
  "demo_semantic = \<lparr>sem_enabled = True, sem_threshold = Fin 1, sem_max_results = 5, sem_max_entries = 3\<rparr>"

lemma semantic_keeps_latest_witness:
  "sem_entries (fold (\<lambda>(e, q). sem_index (Some e) q) (replicate 4 (demo_entry, ''parser''))
     (sem_clear (new_semantic_cache demo_semantic))) = replicate 3 (with_embedding ''parser'' demo_entry)"
  using semantic_keeps_latest [of demo_semantic "replicate 4 (demo_entry, ''parser'')"]
  by (simp add: demo_semantic_def)

lemma semantic_confuses_words_witness:
  "sem_search ''find the parser'' ''p'' [] [] [] 5
     (sem_index (Some demo_entry) ''what is deleted?'' (new_semantic_cache demo_semantic)) =
   Some (demo_entry\<lparr>ce_embedding := Some [Fin 1]\<rparr>)"
proof -
  have "tokenize ''what is deleted?'' = [''deleted'']" "tokenize ''find the parser'' = [''parser'']"
    by code_simp+
  from semantic_confuses_words [OF this, of demo_semantic demo_entry 5] show ?thesis
    by (simp add: demo_semantic_def demo_entry_def f64_le_def)
qed

section \<open>Jobs\<close>

inductive job_reach :: "job_registry \<Rightarrow> bool" where
  new: "job_reach new_job_registry"
| acquire: "job_reach j \<Longrightarrow> job_reach (snd (acquire_job key j))"
| release: "job_reach j \<Longrightarrow> job_reach (release_job key j)"

definition jobs_ok :: "job_registry \<Rightarrow> bool" where
  "jobs_ok j \<longleftrightarrow>
     (\<forall>k x. map_of (jobs_by_key j) k = Some x \<longrightarrow> job_done x < jobs_made j) \<and>
     (\<forall>k k' x x'. map_of (jobs_by_key j) k = Some x \<and> map_of (jobs_by_key j) k' = Some x' \<and>
        job_done x = job_done x' \<longrightarrow> k = k')"

lemma jobs_ok_acquire: "jobs_ok j \<Longrightarrow> jobs_ok (snd (acquire_job key j))"
  unfolding jobs_ok_def acquire_job_def
  by (auto split: option.splits simp: Let_def less_Suc_eq; metis less_irrefl)

lemma jobs_ok_reach: "job_reach j \<Longrightarrow> jobs_ok j"
proof (induction rule: job_reach.induct)
  case new
  show ?case by (simp add: jobs_ok_def new_job_registry_def)
next
  case (acquire j key)
  then show ?case by (simp add: jobs_ok_acquire)
next
  case (release j key)
  then show ?case by (auto simp: jobs_ok_def release_job_def split: if_splits)
qed

text \<open>
  Claim C21. In every state of the job registry, asking for a key twice gives one job until the
  key is released, a job is never shared by two keys, and after a release the key gets a job
  that is new.
\<close>

theorem job_registry_exclusive:
  assumes "job_reach j" "acquire_job key j = (x, j1)"
  shows "get_job key j1 = Some x \<and> acquire_job key j1 = (x, j1) \<and>
    (\<forall>k' \<noteq> key. get_job k' j1 = get_job k' j \<and>
       (\<forall>x'. get_job k' j = Some x' \<longrightarrow> job_done x' \<noteq> job_done x)) \<and>
    job_done (fst (acquire_job key (release_job key j1))) \<noteq> job_done x"
proof -
  from assms(1) have ok: "jobs_ok j" by (rule jobs_ok_reach)
  have "jobs_ok j1" using jobs_ok_acquire [OF ok, of key] assms(2) by simp
  moreover have held: "get_job key j1 = Some x"
    using assms(2) by (auto simp: acquire_job_def get_job_def Let_def split: option.splits)
  ultimately have old: "job_done x < jobs_made j1" by (auto simp: jobs_ok_def get_job_def)
  have others: "get_job k' j1 = get_job k' j" if "k' \<noteq> key" for k'
    using assms(2) that by (auto simp: acquire_job_def get_job_def Let_def split: option.splits)
  have "job_done x' \<noteq> job_done x" if "k' \<noteq> key" "get_job k' j = Some x'" for k' x'
    using \<open>jobs_ok j1\<close> held that others [OF that(1)] unfolding jobs_ok_def get_job_def by metis
  with held old others show ?thesis
    by (auto simp: acquire_job_def release_job_def get_job_def Let_def)
qed

lemma job_registry_exclusive_witness:
  "get_job ''k'' (snd (acquire_job ''k'' new_job_registry)) = Some (fst (acquire_job ''k'' new_job_registry))"
  using job_registry_exclusive [OF job_reach.new, of "''k''"] by (simp add: prod_eq_iff)

end
