(* ===== verification/ResultCache.thy ===== *)
theory ResultCache
  imports SemanticCache MemoryGraph GoSha256
begin

text \<open>
  \<open>internal/cache/cache.go\<close>: the cache of tool results. Entries are nodes of kind
  \<open>CacheEntry\<close> in the graph, so every operation takes the dictionary \<open>G\<close> of a repository and
  its state beside the manager's own. The clock is an argument: what \<open>NowISO\<close> returns, the
  longer time stamp the graph writes, and the age in seconds of a stored time stamp (None
  where \<open>time.Parse\<close> fails). The counters are Go \<open>int\<close>s that no run overflows. A nil argument
  or result map is stored as an empty one; nothing tells the two apart when it reads them.
\<close>

section \<open>Configuration and state\<close>

record level_config =
  level_enabled :: bool
  level_max_entries :: int

record llm_cache_config =
  llm_enabled :: bool
  llm_cache_responses :: bool

record ttl_config =
  ttl_enabled :: bool
  ttl_seconds :: int

record invalidation_config =
  inv_git :: bool
  inv_binary_hash :: bool
  inv_dependency :: bool
  inv_tool_version :: bool

record cache_privacy_config =
  cache_llm :: bool
  cache_source :: bool
  cache_binary :: bool
  cache_tools :: bool

record cache_config =
  cfg_enabled :: bool
  cfg_exact :: level_config
  cfg_semantic :: semantic_config
  cfg_tool :: level_config
  cfg_analysis :: level_config
  cfg_llm :: llm_cache_config
  cfg_ttl :: ttl_config
  cfg_invalidation :: invalidation_config
  cfg_no_duplicates :: bool
  cfg_privacy :: cache_privacy_config

definition default_config :: cache_config where
  "default_config =
     \<lparr>cfg_enabled = True,
      cfg_exact = \<lparr>level_enabled = True, level_max_entries = 10000\<rparr>,
      cfg_semantic = \<lparr>sem_enabled = True, sem_threshold = round_double (92 / 100), sem_max_results = 5,
                      sem_max_entries = 10000\<rparr>,
      cfg_tool = \<lparr>level_enabled = True, level_max_entries = 0\<rparr>,
      cfg_analysis = \<lparr>level_enabled = True, level_max_entries = 0\<rparr>,
      cfg_llm = \<lparr>llm_enabled = True, llm_cache_responses = True\<rparr>,
      cfg_ttl = \<lparr>ttl_enabled = False, ttl_seconds = 86400\<rparr>,
      cfg_invalidation = \<lparr>inv_git = True, inv_binary_hash = True, inv_dependency = True,
                          inv_tool_version = True\<rparr>,
      cfg_no_duplicates = True,
      cfg_privacy = \<lparr>cache_llm = True, cache_source = False, cache_binary = False, cache_tools = True\<rparr>\<rparr>"

record cache_stats =
  exact_hits :: int
  semantic_hits :: int
  tool_hits :: int
  analysis_hits :: int
  graph_hits :: int
  partial_hits :: int
  cache_misses :: int
  stale_hits :: int
  invalidations :: int
  llm_calls_saved :: int
  tool_calls_saved :: int
  tokens_saved :: int
  time_saved :: f64

definition no_stats :: cache_stats where
  "no_stats =
     \<lparr>exact_hits = 0, semantic_hits = 0, tool_hits = 0, analysis_hits = 0, graph_hits = 0,
      partial_hits = 0, cache_misses = 0, stale_hits = 0, invalidations = 0, llm_calls_saved = 0,
      tool_calls_saved = 0, tokens_saved = 0, time_saved = Fin 0\<rparr>"

record cache_manager =
  cm_config :: cache_config
  cm_stats :: cache_stats
  cm_exact :: int
  cm_semantic :: "semantic_cache option"

record clock =
  clk_iso :: string
  clk_nano :: string
  clk_age :: "string \<Rightarrow> f64 option"

section \<open>Keys\<close>

record cache_key_input =
  key_project :: string
  key_repo :: string
  key_commit :: string
  key_binary :: string
  key_tool :: string
  key_args :: "props option"
  key_parser :: string
  key_schema :: string
  key_analysis :: string

definition schema_version :: string where "schema_version = ''v1''"
definition analysis_version :: string where "analysis_version = ''v1''"
definition cache_parser_version :: string where "cache_parser_version = ''regex-v1''"

text \<open>A value \<open>json.Marshal\<close> rejects contributes nothing.\<close>

definition normalize_args :: "props option \<Rightarrow> string" where
  "normalize_args args =
     (case args of
        None \<Rightarrow> ''{}''
      | Some m \<Rightarrow> join ''&'' (map (\<lambda>(k, v). k @ ''='' @ (case json v of None \<Rightarrow> [] | Some t \<Rightarrow> t))
                          (filter (\<lambda>(k, _). k \<noteq> ''project_id'') m)))"

definition key_text :: "cache_key_input \<Rightarrow> string" where
  "key_text input =
     join ''|'' [key_project input, key_repo input, key_commit input, key_binary input, key_tool input,
       normalize_args (key_args input), key_parser input, key_schema input, key_analysis input,
       schema_version]"

definition generate_cache_key :: "cache_key_input \<Rightarrow> string" where
  "generate_cache_key input = hex_bytes (sha256 (key_text input))"

text \<open>The key of a tool call, as \<open>CheckExactCache\<close> and \<open>StoreExactCache\<close> build it.\<close>

definition call_key :: "string \<Rightarrow> string \<Rightarrow> string \<Rightarrow> string \<Rightarrow> string \<Rightarrow> props option \<Rightarrow> string" where
  "call_key project repo commit binary tool args =
     generate_cache_key
       \<lparr>key_project = project, key_repo = repo, key_commit = commit, key_binary = binary,
        key_tool = tool, key_args = args, key_parser = cache_parser_version,
        key_schema = schema_version, key_analysis = analysis_version\<rparr>"

section \<open>Entries as nodes\<close>

definition get_string :: "props \<Rightarrow> string \<Rightarrow> string" where
  "get_string ps k = as_str (pget ps k)"

definition privacy_state_key :: string where "privacy_state_key = ''__privacy_state__''"
definition privacy_policy_key :: string where "privacy_policy_key = ''__privacy_policy__''"
definition pseudonym_snapshot_key :: string where "pseudonym_snapshot_key = ''__pseudonym_snapshot__''"

definition special_tool :: "string \<Rightarrow> bool" where
  "special_tool t \<longleftrightarrow> t \<in> {privacy_state_key, privacy_policy_key, pseudonym_snapshot_key}"

definition is_special_cache_entry :: "node \<Rightarrow> bool" where
  "is_special_cache_entry n = special_tool (get_string (node_props n) ''tool_name'')"

definition as_object :: "val \<Rightarrow> props option" where
  "as_object v = (case v of VObj m \<Rightarrow> Some m | _ \<Rightarrow> None)"

definition unmarshal_cache_entry :: "node \<Rightarrow> cache_entry" where
  "unmarshal_cache_entry n =
     (let text = get_string (node_props n); value = pget (node_props n)
      in \<lparr>ce_key = text ''cache_key'', ce_tool = text ''tool_name'', ce_args = as_object (value ''arguments''),
          ce_result = as_object (value ''result''), ce_project = text ''project_id'',
          ce_repo = text ''repository_id'', ce_commit = text ''git_commit'',
          ce_binary = text ''binary_hash'', ce_parser = text ''parser_version'',
          ce_analysis = text ''analysis_version'', ce_schema = text ''schema_version'',
          ce_created = text ''created_at'', ce_updated = text ''updated_at'',
          ce_confidence = (case value ''confidence'' of VFlt x \<Rightarrow> x | _ \<Rightarrow> Fin 0),
          ce_model = [], ce_model_version = [], ce_agent = text ''agent'', ce_evidence = [],
          ce_graph_refs = [], ce_freshness = text ''freshness'',
          ce_embedding = (case value ''embedding'' of VFlts xs \<Rightarrow> Some xs | _ \<Rightarrow> None)\<rparr>)"

definition is_fresh :: "clock \<Rightarrow> cache_config \<Rightarrow> cache_entry \<Rightarrow> bool" where
  "is_fresh clk cfg e =
     (ce_freshness e \<noteq> ''INVALID'' \<and> ce_freshness e \<noteq> ''STALE'' \<and>
      (ttl_enabled (cfg_ttl cfg) \<longrightarrow>
        (case clk_age clk (ce_updated e) of
           None \<Rightarrow> True
         | Some age \<Rightarrow> \<not> f64_less (f64_of_int (ttl_seconds (cfg_ttl cfg))) age)))"

text \<open>The entry handed out for a result that went stale.\<close>

definition stale_entry :: cache_entry where
  "stale_entry =
     \<lparr>ce_key = [], ce_tool = [], ce_args = None, ce_result = None, ce_project = [], ce_repo = [],
      ce_commit = [], ce_binary = [], ce_parser = [], ce_analysis = [], ce_schema = [], ce_created = [],
      ce_updated = [], ce_confidence = Fin 0, ce_model = [], ce_model_version = [], ce_agent = [],
      ce_evidence = [], ce_graph_refs = [], ce_freshness = ''STALE'', ce_embedding = None\<rparr>"

section \<open>Counting\<close>

definition count_stat :: "string \<Rightarrow> cache_stats \<Rightarrow> cache_stats" where
  "count_stat field s =
     (if field = ''exact_hits'' then s\<lparr>exact_hits := exact_hits s + 1\<rparr>
      else if field = ''semantic_hits'' then s\<lparr>semantic_hits := semantic_hits s + 1\<rparr>
      else if field = ''tool_hits'' then s\<lparr>tool_hits := tool_hits s + 1\<rparr>
      else if field = ''analysis_hits'' then s\<lparr>analysis_hits := analysis_hits s + 1\<rparr>
      else if field = ''graph_hits'' then s\<lparr>graph_hits := graph_hits s + 1\<rparr>
      else if field = ''partial_hits'' then s\<lparr>partial_hits := partial_hits s + 1\<rparr>
      else if field = ''cache_misses'' then s\<lparr>cache_misses := cache_misses s + 1\<rparr>
      else if field = ''stale_hits'' then s\<lparr>stale_hits := stale_hits s + 1\<rparr>
      else if field = ''invalidations'' then s\<lparr>invalidations := invalidations s + 1\<rparr>
      else if field = ''llm_calls_saved''
        then s\<lparr>llm_calls_saved := llm_calls_saved s + 1\<rparr>
      else if field = ''tool_calls_saved''
        then s\<lparr>tool_calls_saved := tool_calls_saved s + 1\<rparr>
      else s)"

definition increment_stat :: "string \<Rightarrow> cache_manager \<Rightarrow> cache_manager" where
  "increment_stat field c = c\<lparr>cm_stats := count_stat field (cm_stats c)\<rparr>"

definition forget_exact :: "int \<Rightarrow> cache_manager \<Rightarrow> cache_manager" where
  "forget_exact k c = c\<lparr>cm_exact := (if cm_exact c \<le> k then 0 else cm_exact c - k)\<rparr>"

definition count_invalidations :: "nat \<Rightarrow> cache_manager \<Rightarrow> cache_manager" where
  "count_invalidations k c =
     c\<lparr>cm_stats := (cm_stats c)\<lparr>invalidations := invalidations (cm_stats c) + int k\<rparr>\<rparr>"

definition set_ttl :: "bool \<Rightarrow> int \<Rightarrow> cache_manager \<Rightarrow> cache_manager" where
  "set_ttl on secs c =
     c\<lparr>cm_config := (cm_config c)\<lparr>cfg_ttl := \<lparr>ttl_enabled = on, ttl_seconds = secs\<rparr>\<rparr>\<rparr>"

definition exact_limit :: "cache_manager \<Rightarrow> int" where
  "exact_limit c = level_max_entries (cfg_exact (cm_config c))"

definition new_cache_manager :: "'r repo_ops \<Rightarrow> cache_config \<Rightarrow> 'r \<Rightarrow> cache_manager \<times> 'r" where
  "new_cache_manager G cfg r =
     (let c = \<lparr>cm_config = cfg, cm_stats = no_stats, cm_exact = 0,
               cm_semantic = (if sem_enabled (cfg_semantic cfg)
                              then Some (new_semantic_cache (cfg_semantic cfg)) else None)\<rparr>
      in if \<not> level_enabled (cfg_exact cfg) then (c, r)
         else (case op_find G ''CacheEntry'' [] r of
                 (Inl e, r) \<Rightarrow> (c, r)
               | (Inr ns, r) \<Rightarrow>
                   (c\<lparr>cm_exact := int (length (filter (\<lambda>n. \<not> is_special_cache_entry n) ns))\<rparr>, r)))"

section \<open>Purging and invalidating\<close>

definition newer :: "node \<Rightarrow> node \<Rightarrow> bool" where
  "newer m n =
     (let u = get_string (node_props m) ''updated_at''; v = get_string (node_props n) ''updated_at''
      in if u = v then node_id m < node_id n else v < u)"

definition project_of :: "node \<Rightarrow> string" where
  "project_of n = get_string (node_props n) ''project_id''"

definition by_project :: "node list \<Rightarrow> (string \<times> node list) list" where
  "by_project = group_by project_of"

definition purge_exact ::
    "'r repo_ops \<Rightarrow> int \<Rightarrow> cache_manager \<Rightarrow> 'r \<Rightarrow> int res \<times> cache_manager \<times> 'r" where
  "purge_exact G max_entries c r =
     (if max_entries \<le> 0 then (Inr 0, c, r)
      else (case op_find G ''CacheEntry'' [] r of
              (Inl e, r) \<Rightarrow> (Inl e, c, r)
            | (Inr ns, r) \<Rightarrow>
                (let m = nat max_entries;
                     groups = map (sort_by newer) (map snd
                       (by_project (filter (\<lambda>n. \<not> is_special_cache_entry n) ns)));
                     remove = concat (map (\<lambda>es. map node_id (drop m es)) groups);
                     remaining = sum_list (map (\<lambda>es. min m (length es)) groups);
                     (done, r) = (if remove = [] then (Inr (), r) else op_remove_nodes G remove r)
                 in case done of
                      Inl e \<Rightarrow> (Inl e, c, r)
                    | Inr _ \<Rightarrow> (Inr (int (length remove)),
                               count_invalidations (length remove) (c\<lparr>cm_exact := int remaining\<rparr>), r))))"

text \<open>What the invalidations share: remove the entries found and count them.\<close>

definition remove_found ::
    "'r repo_ops \<Rightarrow> props \<Rightarrow> cache_manager \<Rightarrow> 'r \<Rightarrow> int res \<times> cache_manager \<times> 'r" where
  "remove_found G filters c r =
     (case op_find G ''CacheEntry'' filters r of
        (Inl e, r) \<Rightarrow> (Inl e, c, r)
      | (Inr ns, r) \<Rightarrow>
          (let ids = map node_id ns
           in if ids = [] then (Inr 0, c, r)
              else (case op_remove_nodes G ids r of
                      (Inl e, r) \<Rightarrow> (Inl e, c, r)
                    | (Inr _, r) \<Rightarrow>
                        (Inr (int (length ids)),
                         forget_exact (int (length ids)) (count_invalidations (length ids) c), r))))"

definition unit_res :: "'a res \<times> 'c \<Rightarrow> unit res \<times> 'c" where
  "unit_res p = (case p of (Inl e, s) \<Rightarrow> (Inl e, s) | (Inr _, s) \<Rightarrow> (Inr (), s))"

record invalidate_args =
  ia_project :: string
  ia_key :: string
  ia_id :: string
  ia_tool :: string
  ia_commit :: string
  ia_binary :: string
  ia_source_file :: string
  ia_artifact :: string

definition invalidate_filters :: "invalidate_args \<Rightarrow> props" where
  "invalidate_filters a =
     (let f = [(''project_id'', VStr (ia_project a))];
          f = (if ia_key a \<noteq> [] then put ''cache_key'' (VStr (ia_key a)) f else f);
          f = (if ia_id a \<noteq> [] then put ''id'' (VStr (ia_id a)) f else f)
      in if ia_tool a \<noteq> [] then put ''tool_name'' (VStr (ia_tool a)) f else f)"

definition invalidate ::
    "'r repo_ops \<Rightarrow> invalidate_args \<Rightarrow> cache_manager \<Rightarrow> 'r \<Rightarrow> unit res \<times> cache_manager \<times> 'r" where
  "invalidate G a c r = unit_res (remove_found G (invalidate_filters a) c r)"

definition invalidate_by_commit ::
    "'r repo_ops \<Rightarrow> string \<Rightarrow> string \<Rightarrow> cache_manager \<Rightarrow> 'r \<Rightarrow> unit res \<times> cache_manager \<times> 'r" where
  "invalidate_by_commit G project commit c r =
     unit_res (remove_found G [(''git_commit'', VStr commit), (''project_id'', VStr project)] c r)"

definition invalidate_by_binary_hash ::
    "'r repo_ops \<Rightarrow> string \<Rightarrow> string \<Rightarrow> cache_manager \<Rightarrow> 'r \<Rightarrow> unit res \<times> cache_manager \<times> 'r" where
  "invalidate_by_binary_hash G project binary c r =
     unit_res (remove_found G [(''binary_hash'', VStr binary), (''project_id'', VStr project)] c r)"

definition flush :: "'r repo_ops \<Rightarrow> string \<Rightarrow> cache_manager \<Rightarrow> 'r \<Rightarrow> int res \<times> cache_manager \<times> 'r" where
  "flush G project c r = remove_found G [(''project_id'', VStr project)] c r"

section \<open>Storing and looking up\<close>

definition exact_on :: "cache_manager \<Rightarrow> bool" where
  "exact_on c \<longleftrightarrow> cfg_enabled (cm_config c) \<and> level_enabled (cfg_exact (cm_config c))"

text \<open>The identity of an entry.\<close>

definition entry_identity :: "string \<Rightarrow> string \<Rightarrow> string \<Rightarrow> props" where
  "entry_identity project key tool =
     [(''cache_key'', VStr key), (''project_id'', VStr project), (''tool_name'', VStr tool)]"

definition check_exact_cache ::
    "'r repo_ops \<Rightarrow> clock \<Rightarrow> string \<Rightarrow> string \<Rightarrow> string \<Rightarrow> string \<Rightarrow> string \<Rightarrow> props option \<Rightarrow>
     cache_manager \<Rightarrow> 'r \<Rightarrow> cache_entry option res \<times> cache_manager \<times> 'r" where
  "check_exact_cache G clk project repo commit binary tool args c r =
     (if \<not> exact_on c then (Inr None, c, r)
      else (case op_find G ''CacheEntry''
                   (entry_identity project (call_key project repo commit binary tool args) tool) r of
              (Inl e, r) \<Rightarrow> (Inl e, c, r)
            | (Inr [], r) \<Rightarrow> (Inr None, c, r)
            | (Inr (n # _), r) \<Rightarrow>
                (let entry = unmarshal_cache_entry n
                 in if is_fresh clk (cm_config c) entry then (Inr (Some entry), c, r)
                    else (case op_remove_nodes G [node_id n] r of
                            (Inl e, r) \<Rightarrow> (Inl e, c, r)
                          | (Inr _, r) \<Rightarrow>
                              (let c = (if is_special_cache_entry n then c else forget_exact 1 c)
                               in (Inr (Some stale_entry), increment_stat ''stale_hits'' c, r))))))"

definition object_of :: "props option \<Rightarrow> val" where
  "object_of m = VObj (case m of None \<Rightarrow> [] | Some ps \<Rightarrow> ps)"

definition entry_properties ::
    "string \<Rightarrow> string \<Rightarrow> string \<Rightarrow> string \<Rightarrow> props option \<Rightarrow> props option \<Rightarrow> f64 \<Rightarrow> string \<Rightarrow> props" where
  "entry_properties now repo commit binary args result confidence agent =
     [(''agent'', VStr agent), (''analysis_version'', VStr analysis_version),
      (''arguments'', object_of args), (''binary_hash'', VStr binary),
      (''confidence'', VFlt confidence), (''created_at'', VStr now), (''freshness'', VStr ''VALID''),
      (''git_commit'', VStr commit), (''parser_version'', VStr cache_parser_version),
      (''repository_id'', VStr repo), (''result'', object_of result),
      (''schema_version'', VStr schema_version), (''updated_at'', VStr now)]"

definition store_exact_cache ::
    "'r repo_ops \<Rightarrow> clock \<Rightarrow> string \<Rightarrow> string \<Rightarrow> string \<Rightarrow> string \<Rightarrow> string \<Rightarrow> props option \<Rightarrow>
     props option \<Rightarrow> f64 \<Rightarrow> string \<Rightarrow> cache_manager \<Rightarrow> 'r \<Rightarrow> unit res \<times> cache_manager \<times> 'r" where
  "store_exact_cache G clk project repo commit binary tool args result confidence agent c r =
     (if \<not> exact_on c then (Inr (), c, r)
      else
        (let ident = entry_identity project (call_key project repo commit binary tool args) tool
         in case op_find G ''CacheEntry'' ident r of
              (Inl e, r) \<Rightarrow> (Inl e, c, r)
            | (Inr existing, r) \<Rightarrow>
                (case op_upsert G (clk_nano clk) ''CacheEntry'' ident
                        (entry_properties (clk_iso clk) repo commit binary args result confidence agent) r of
                   (Inl e, r) \<Rightarrow> (Inl e, c, r)
                 | (Inr _, r) \<Rightarrow>
                     (if existing \<noteq> [] then (Inr (), c, r)
                      else let c = c\<lparr>cm_exact := cm_exact c + 1\<rparr>
                           in if 0 < exact_limit c \<and> exact_limit c < cm_exact c
                              then unit_res (purge_exact G (exact_limit c) c r)
                              else (Inr (), c, r)))))"

text \<open>The privacy policy and the pseudonym snapshot: one special entry per project each.\<close>

definition store_special ::
    "'r repo_ops \<Rightarrow> clock \<Rightarrow> string \<Rightarrow> string \<Rightarrow> string \<Rightarrow> string \<Rightarrow> cache_manager \<Rightarrow> 'r \<Rightarrow>
     unit res \<times> cache_manager \<times> 'r" where
  "store_special G clk special field project content c r =
     (if \<not> cfg_enabled (cm_config c) then (Inr (), c, r)
      else (case op_upsert G (clk_nano clk) ''CacheEntry'' (entry_identity project special special)
                   (entry_properties (clk_iso clk) [] [] [] None (Some [(field, VStr content)]) (Fin 1)
                      ''privacy_service'') r of
              (Inl e, r) \<Rightarrow> (Inl e, c, r)
            | (Inr _, r) \<Rightarrow> (Inr (), c, r)))"

definition get_special ::
    "'r repo_ops \<Rightarrow> string \<Rightarrow> string \<Rightarrow> string \<Rightarrow> cache_manager \<Rightarrow> 'r \<Rightarrow> string res \<times> 'r" where
  "get_special G special field project c r =
     (if \<not> cfg_enabled (cm_config c) then (Inr [], r)
      else (case op_find G ''CacheEntry'' (entry_identity project special special) r of
              (Inl e, r) \<Rightarrow> (Inl e, r)
            | (Inr [], r) \<Rightarrow> (Inr [], r)
            | (Inr (n # _), r) \<Rightarrow>
                (Inr (case ce_result (unmarshal_cache_entry n) of
                        None \<Rightarrow> [] | Some m \<Rightarrow> get_string m field), r)))"

definition store_privacy_policy ::
    "'r repo_ops \<Rightarrow> clock \<Rightarrow> string \<Rightarrow> string \<Rightarrow> cache_manager \<Rightarrow> 'r \<Rightarrow> unit res \<times> cache_manager \<times> 'r" where
  "store_privacy_policy G clk = store_special G clk privacy_policy_key ''policy''"

definition get_privacy_policy ::
    "'r repo_ops \<Rightarrow> string \<Rightarrow> cache_manager \<Rightarrow> 'r \<Rightarrow> string res \<times> 'r" where
  "get_privacy_policy G = get_special G privacy_policy_key ''policy''"

definition store_pseudonym_snapshot ::
    "'r repo_ops \<Rightarrow> clock \<Rightarrow> string \<Rightarrow> string \<Rightarrow> cache_manager \<Rightarrow> 'r \<Rightarrow> unit res \<times> cache_manager \<times> 'r" where
  "store_pseudonym_snapshot G clk = store_special G clk pseudonym_snapshot_key ''snapshot''"

definition get_pseudonym_snapshot ::
    "'r repo_ops \<Rightarrow> string \<Rightarrow> cache_manager \<Rightarrow> 'r \<Rightarrow> string res \<times> 'r" where
  "get_pseudonym_snapshot G = get_special G pseudonym_snapshot_key ''snapshot''"

section \<open>The two levels\<close>

record lookup_result =
  lr_status :: string
  lr_result :: "props option"
  lr_entry :: "cache_entry option"
  lr_confidence :: f64
  lr_evidence :: "string list"
  lr_graph_refs :: "string list"
  lr_reused :: "string list"
  lr_missing :: "string list"

definition lookup_status :: "string \<Rightarrow> cache_entry option \<Rightarrow> lookup_result" where
  "lookup_status st e =
     \<lparr>lr_status = st, lr_result = None, lr_entry = e, lr_confidence = Fin 0, lr_evidence = [],
      lr_graph_refs = [], lr_reused = [], lr_missing = []\<rparr>"

definition lookup_hit :: "string \<Rightarrow> cache_entry \<Rightarrow> lookup_result" where
  "lookup_hit st e =
     \<lparr>lr_status = st, lr_result = ce_result e, lr_entry = Some e, lr_confidence = ce_confidence e,
      lr_evidence = ce_evidence e, lr_graph_refs = ce_graph_refs e, lr_reused = [], lr_missing = []\<rparr>"

definition semantic_answer ::
    "string \<Rightarrow> string \<Rightarrow> string \<Rightarrow> string \<Rightarrow> props option \<Rightarrow> cache_manager \<Rightarrow> cache_entry option" where
  "semantic_answer project repo commit binary args c =
     (case cm_semantic c of
        None \<Rightarrow> None
      | Some s \<Rightarrow>
          (let query = get_string (case args of None \<Rightarrow> [] | Some m \<Rightarrow> m) ''query''
           in if \<not> sem_enabled (cfg_semantic (cm_config c)) \<or> query = [] then None
              else sem_search query project repo commit binary
                     (sem_max_results (cfg_semantic (cm_config c))) s))"

definition check_cache ::
    "'r repo_ops \<Rightarrow> clock \<Rightarrow> string \<Rightarrow> string \<Rightarrow> string \<Rightarrow> string \<Rightarrow> string \<Rightarrow> props option \<Rightarrow>
     cache_manager \<Rightarrow> 'r \<Rightarrow> lookup_result res \<times> cache_manager \<times> 'r" where
  "check_cache G clk project repo commit binary tool args c r =
     (if \<not> cfg_enabled (cm_config c) then (Inr (lookup_status ''CACHE_MISS'' None), c, r)
      else (case check_exact_cache G clk project repo commit binary tool args c r of
              (Inl e, c, r) \<Rightarrow> (Inl e, c, r)
            | (Inr (Some e), c, r) \<Rightarrow>
                (if ce_freshness e = ''STALE''
                 then (Inr (lookup_status ''STALE'' (Some e)), increment_stat ''stale_hits'' c, r)
                 else (Inr (lookup_hit ''CACHE_HIT'' e), increment_stat ''exact_hits'' c, r))
            | (Inr None, c, r) \<Rightarrow>
                (case semantic_answer project repo commit binary args c of
                   Some e \<Rightarrow> (Inr (lookup_hit ''CACHE_PARTIAL'' e), increment_stat ''semantic_hits'' c, r)
                 | None \<Rightarrow> (Inr (lookup_status ''CACHE_MISS'' None), increment_stat ''cache_misses'' c, r))))"

definition store_cache ::
    "'r repo_ops \<Rightarrow> clock \<Rightarrow> string \<Rightarrow> string \<Rightarrow> string \<Rightarrow> string \<Rightarrow> string \<Rightarrow> props option \<Rightarrow>
     props option \<Rightarrow> f64 \<Rightarrow> string \<Rightarrow> cache_manager \<Rightarrow> 'r \<Rightarrow> unit res \<times> cache_manager \<times> 'r" where
  "store_cache = store_exact_cache"

section \<open>What the repository's contract gives\<close>

lemma sorted_ids_distinct: "sorted_wrt (\<lambda>a b. node_id a < node_id b) ns \<Longrightarrow> distinct ns"
  by (induction ns) auto

lemma plain_entry: "plain_args (entry_identity project key tool)
    (entry_properties now repo commit binary args result confidence agent)"
  by (simp add: plain_args_def plain_props_def entry_identity_def entry_properties_def has_key_def)

lemma exact_on_simps [simp]:
  "cm_config (increment_stat field c) = cm_config c" "cm_semantic (increment_stat field c) = cm_semantic c"
  "cm_exact (increment_stat field c) = cm_exact c"
  by (simp_all add: increment_stat_def)

lemma entry_property_keys:
  "set (keys (entry_properties now repo commit binary args result confidence agent)) - stamp_keys =
     {''agent'', ''analysis_version'', ''arguments'', ''binary_hash'', ''confidence'', ''freshness'',
      ''git_commit'', ''parser_version'', ''repository_id'', ''result'', ''schema_version''}"
  by (auto simp: entry_properties_def stamp_keys_def)

context graph_repo
begin

lemma stored_entry:
  assumes inv: "inv r"
    and up: "op_upsert G now kind (entry_identity project key tool)
      (entry_properties stored repo commit binary args result confidence agent) r = (Inr n, r1)"
  shows "inv r1" "view r1 = (view r)(node_id n \<mapsto> n)" "node_kind n = kind"
    "\<And>k. k \<in> {''agent'', ''analysis_version'', ''arguments'', ''binary_hash'', ''confidence'', ''freshness'',
        ''git_commit'', ''parser_version'', ''repository_id'', ''result'', ''schema_version''} \<Longrightarrow>
      pget (node_props n) k = pget (entry_properties stored repo commit binary args result confidence agent) k"
    "\<And>k. k \<in> {''cache_key'', ''project_id'', ''tool_name''} \<Longrightarrow>
      pget (node_props n) k = pget (entry_identity project key tool) k"
proof -
  note args = plain_argsD(1-4) [OF plain_entry [of project key tool stored repo commit binary args result confidence agent]]
  note ok = upsert_ok [OF inv up args]
  from ok show "inv r1" "view r1 = (view r)(node_id n \<mapsto> n)" "node_kind n = kind" by blast+
  show "pget (node_props n) k = pget (entry_properties stored repo commit binary args result confidence agent) k"
    if "k \<in> {''agent'', ''analysis_version'', ''arguments'', ''binary_hash'', ''confidence'', ''freshness'',
        ''git_commit'', ''parser_version'', ''repository_id'', ''result'', ''schema_version''}" for k
    by (rule ok [THEN conjunct2, THEN conjunct2, THEN conjunct2, THEN conjunct1,
          unfolded entry_property_keys, rule_format, OF that])
  have keys: "set (keys (entry_identity project key tool)) -
      set (keys (entry_properties stored repo commit binary args result confidence agent)) -
      (stamp_keys - {''project_id''}) = {''cache_key'', ''project_id'', ''tool_name''}"
    by (auto simp: entry_identity_def entry_properties_def stamp_keys_def)
  show "pget (node_props n) k = pget (entry_identity project key tool) k"
    if "k \<in> {''cache_key'', ''project_id'', ''tool_name''}" for k
    by (rule ok [THEN conjunct2, THEN conjunct2, THEN conjunct2, THEN conjunct2, THEN conjunct1,
          unfolded keys, rule_format, OF that])
qed

lemma find_stored:
  assumes "inv r"
    and "op_upsert G now kind (entry_identity project key tool)
      (entry_properties stored repo commit binary args result confidence agent) r = (Inr n, r1)"
    and "op_find G kind (entry_identity project key tool) r1 = (Inr ns, r2)"
  shows "\<exists>rest. ns = n # rest"
  using find_after_upsert [OF assms plain_entry] by (cases ns) auto

lemma special_roundtrip:
  assumes "inv r" "cfg_enabled (cm_config c)"
    and "store_special G clk special field project content c r = (Inr (), c1, r1)"
    and "get_special G special field project c1 r1 = (Inr text, r2)"
  shows "text = content"
proof -
  from assms(2,3) obtain n where up: "op_upsert G (clk_nano clk) ''CacheEntry'' (entry_identity project special special)
      (entry_properties (clk_iso clk) [] [] [] None (Some [(field, VStr content)]) (Fin 1) ''privacy_service'') r = (Inr n, r1)"
    and c1: "c1 = c"
    by (auto simp: store_special_def split: prod.splits sum.splits)
  have "pget (node_props n) ''result'' = VObj [(field, VStr content)]"
    using stored_entry(4) [OF assms(1) up, of "''result''"]
    by (simp add: entry_properties_def pget_def object_of_def)
  moreover obtain ns r' where find: "op_find G ''CacheEntry'' (entry_identity project special special) r1 = (Inr ns, r')"
    using assms(2,4) c1 by (auto simp: get_special_def split: prod.splits sum.splits)
  moreover obtain rest where "ns = n # rest" using find_stored [OF assms(1) up find] by blast
  ultimately show ?thesis
    using assms(2,4) c1
    by (simp add: get_special_def unmarshal_cache_entry_def Let_def as_object_def get_string_def pget_def)
qed

end

section \<open>Purging keeps the newest\<close>

text \<open>The entries the limit counts, all of them and those of one project.\<close>

definition exact_nodes :: "(string \<Rightarrow> node option) \<Rightarrow> node set" where
  "exact_nodes v = {n \<in> matching v ''CacheEntry'' []. \<not> is_special_cache_entry n}"

definition project_entries :: "(string \<Rightarrow> node option) \<Rightarrow> string \<Rightarrow> node set" where
  "project_entries v p = {n \<in> exact_nodes v. project_of n = p}"

lemma newer_order: "weak_order_on A newer"
  unfolding weak_order_on_def newer_def Let_def by (auto split: if_splits)

lemma newer_total: "node_id a \<noteq> node_id b \<Longrightarrow> \<not> newer b a \<Longrightarrow> newer a b"
  by (auto simp: newer_def Let_def split: if_splits)

definition kept_groups :: "nat \<Rightarrow> node list list \<Rightarrow> node list" where
  "kept_groups m gs = concat (map (take m) gs)"

definition purged_groups :: "nat \<Rightarrow> node list list \<Rightarrow> node list" where
  "purged_groups m gs = concat (map (drop m) gs)"

definition ranked :: "node list \<Rightarrow> node list list" where
  "ranked es = map (sort_by newer) (map snd (by_project es))"

lemma mset_kept_purged: "mset (kept_groups m gs) + mset (purged_groups m gs) = mset (concat gs)"
proof (induction gs)
  case (Cons g gs)
  have "mset (take m g) + mset (drop m g) = mset g"
    by (metis append_take_drop_id mset_append)
  with Cons show ?case by (simp add: kept_groups_def purged_groups_def algebra_simps)
qed (simp add: kept_groups_def purged_groups_def)

lemma mset_ranked: "mset (concat (ranked es)) = mset es"
proof -
  have "mset (concat (map (sort_by newer) gs)) = mset (concat gs)" for gs
    by (induction gs) auto
  then show ?thesis using mset_group_by [of _ es] unfolding ranked_def by_project_def by metis
qed

lemma in_ranked:
  "g \<in> set (ranked es) \<longleftrightarrow>
   (\<exists>p \<in> project_of ` set es. g = sort_by newer (filter (\<lambda>n. project_of n = p) es))"
proof -
  have "g \<in> set (ranked es) \<longleftrightarrow> (\<exists>p h. (p, h) \<in> set (group_by project_of es) \<and> g = sort_by newer h)"
    unfolding ranked_def by_project_def by (auto simp: image_iff Bex_def)
  then show ?thesis unfolding in_group_by by blast
qed

text \<open>Per project the first \<open>m\<close> of the ranking stay.\<close>

lemma kept_of_project:
  "{n \<in> set (kept_groups m (ranked es)). project_of n = p} =
     set (take m (sort_by newer (filter (\<lambda>n. project_of n = p) es)))"
proof (intro equalityI subsetI)
  fix n assume "n \<in> {n \<in> set (kept_groups m (ranked es)). project_of n = p}"
  then obtain q where q: "n \<in> set (take m (sort_by newer (filter (\<lambda>n. project_of n = q) es)))" "project_of n = p"
    by (auto simp: kept_groups_def in_ranked)
  then have "project_of n = q" using in_set_takeD [OF q(1)] by simp
  with q show "n \<in> set (take m (sort_by newer (filter (\<lambda>n. project_of n = p) es)))" by simp
next
  fix n assume n: "n \<in> set (take m (sort_by newer (filter (\<lambda>n. project_of n = p) es)))"
  then have np: "n \<in> set es" "project_of n = p" using in_set_takeD [OF n] by auto
  then have "sort_by newer (filter (\<lambda>n. project_of n = p) es) \<in> set (ranked es)"
    unfolding in_ranked by blast
  with n np show "n \<in> {n \<in> set (kept_groups m (ranked es)). project_of n = p}"
    unfolding kept_groups_def by fastforce
qed

lemma length_kept: "length (kept_groups m gs) = sum_list (map (\<lambda>g. min m (length g)) gs)"
  by (induction gs) (simp_all add: kept_groups_def min.commute)

lemma purge_removed: "concat (map (\<lambda>es. map node_id (drop m es)) gs) = map node_id (purged_groups m gs)"
  by (simp add: purged_groups_def map_concat comp_def)

lemma kept_purged_disjoint:
  assumes "distinct es"
  shows "distinct (kept_groups m (ranked es))"
    "set (kept_groups m (ranked es)) = set es - set (purged_groups m (ranked es))"
    "set (purged_groups m (ranked es)) \<subseteq> set es"
proof -
  let ?k = "kept_groups m (ranked es)" and ?p = "purged_groups m (ranked es)"
  have mset: "mset (?k @ ?p) = mset es"
    using mset_kept_purged [of m "ranked es"] mset_ranked [of es] by simp
  with assms have "distinct (?k @ ?p)" by (metis mset_eq_imp_distinct_iff)
  moreover from mset have "set es = set (?k @ ?p)" by (metis set_mset_mset)
  ultimately show "distinct ?k" "set ?k = set es - set ?p" "set ?p \<subseteq> set es" by auto
qed

context graph_repo
begin

lemma exact_nodes_iff:
  "inv r \<Longrightarrow> n \<in> exact_nodes (view r) \<longleftrightarrow>
   view r (node_id n) = Some n \<and> node_kind n = ''CacheEntry'' \<and> \<not> is_special_cache_entry n"
  using view_id by (auto simp: exact_nodes_def matching_def node_matches_def)

lemma exact_restricted:
  assumes "inv r" "view v = view r |` (- S)"
  shows "n \<in> exact_nodes (view v) \<longleftrightarrow> node_id n \<notin> S \<and> n \<in> exact_nodes (view r)"
proof -
  have "n \<in> exact_nodes (view v) \<longleftrightarrow>
      (\<exists>i. i \<notin> S \<and> view r i = Some n) \<and> node_kind n = ''CacheEntry'' \<and> \<not> is_special_cache_entry n"
    by (auto simp: exact_nodes_def matching_def node_matches_def assms(2) restrict_map_def)
  moreover have "(\<exists>i. i \<notin> S \<and> view r i = Some n) \<longleftrightarrow> node_id n \<notin> S \<and> view r (node_id n) = Some n"
  proof
    assume "\<exists>i. i \<notin> S \<and> view r i = Some n"
    then obtain i where i: "i \<notin> S" "view r i = Some n" by blast
    then have "node_id n = i" by (intro view_id [OF assms(1)])
    with i show "node_id n \<notin> S \<and> view r (node_id n) = Some n" by simp
  qed blast
  ultimately show ?thesis by (simp add: exact_nodes_iff [OF assms(1)] conj_assoc)
qed

lemma purge_parts:
  assumes inv: "inv r" and k: "0 < k" and purge: "purge_exact G k c r = (Inr x, c', r')"
  obtains es where "distinct es" "set es = exact_nodes (view r)" "inv r'"
    "view r' = view r |` (- node_id ` set (purged_groups (nat k) (ranked es)))"
    "cm_exact c' = int (length (kept_groups (nat k) (ranked es)))" "cm_config c' = cm_config c"
    "x = int (length (purged_groups (nat k) (ranked es)))"
proof -
  obtain ns r1 where find: "op_find G ''CacheEntry'' [] r = (Inr ns, r1)"
    using purge k by (auto simp: purge_exact_def split: prod.splits sum.splits)
  from find_ok [OF inv find] have r1: "inv r1" "view r1 = view r"
    and ns: "set ns = matching (view r) ''CacheEntry'' []" "sorted_wrt (\<lambda>a b. node_id a < node_id b) ns"
    by auto
  let ?es = "filter (\<lambda>n. \<not> is_special_cache_entry n) ns"
  let ?kept = "kept_groups (nat k) (ranked ?es)" and ?purged = "purged_groups (nat k) (ranked ?es)"
  have "distinct ns" using ns(2) by (rule sorted_ids_distinct)
  then have es: "distinct ?es" "set ?es = exact_nodes (view r)"
    using ns(1) by (auto simp: exact_nodes_def)
  have groups: "map (sort_by newer) (map snd (by_project ?es)) = ranked ?es"
    by (simp add: ranked_def)
  obtain u where rem: "(if map node_id ?purged = [] then (Inr (), r1) else op_remove_nodes G (map node_id ?purged) r1) = (Inr u, r')"
    and c': "c' = count_invalidations (length ?purged) (c\<lparr>cm_exact := int (length ?kept)\<rparr>)" "x = int (length ?purged)"
    using purge k
    by (auto simp: purge_exact_def find Let_def groups purge_removed length_kept not_le
        simp del: map_map split: prod.splits sum.splits)
  have "inv r'" "view r' = view r |` (- node_id ` set ?purged)"
    using rem remove_ok [of r1 "map node_id ?purged" u r'] r1 by (auto split: if_splits)
  with es c' that show thesis by (simp add: count_invalidations_def)
qed

lemma purge_result:
  assumes inv: "inv r" and k: "0 < k" and purge: "purge_exact G k c r = (Inr x, c', r')"
  shows "inv r' \<and> exact_nodes (view r') \<subseteq> exact_nodes (view r) \<and>
    card (project_entries (view r') p) = min (nat k) (card (project_entries (view r) p)) \<and>
    (\<forall>a \<in> project_entries (view r') p. \<forall>b \<in> project_entries (view r) p - project_entries (view r') p. newer a b) \<and>
    (\<forall>i n. view r i = Some n \<and> n \<notin> exact_nodes (view r) \<longrightarrow> view r' i = Some n) \<and>
    cm_exact c' = int (card (exact_nodes (view r'))) \<and> cm_config c' = cm_config c \<and>
    x = int (card (exact_nodes (view r))) - int (card (exact_nodes (view r')))"
proof -
  obtain es where es: "distinct es" "set es = exact_nodes (view r)" and r': "inv r'"
    "view r' = view r |` (- node_id ` set (purged_groups (nat k) (ranked es)))"
    and c': "cm_exact c' = int (length (kept_groups (nat k) (ranked es)))" "cm_config c' = cm_config c"
    "x = int (length (purged_groups (nat k) (ranked es)))"
    using purge_parts [OF assms] by blast
  let ?m = "nat k" and ?kept = "kept_groups (nat k) (ranked es)" and ?purged = "purged_groups (nat k) (ranked es)"
  note kp = kept_purged_disjoint [OF es(1), of ?m]
  have stored: "view r (node_id n) = Some n" if "n \<in> set es" for n
    using that es(2) view_id [OF inv] by (auto simp: exact_nodes_def matching_def)
  have gone: "node_id n \<in> node_id ` set ?purged \<longleftrightarrow> n \<in> set ?purged" if "view r (node_id n) = Some n" for n
    using that stored kp(3) by fastforce
  have kept: "exact_nodes (view r') = set ?kept"
  proof (intro set_eqI)
    fix n
    have "n \<in> exact_nodes (view r') \<longleftrightarrow>
        node_id n \<notin> node_id ` set ?purged \<and> n \<in> exact_nodes (view r)"
      by (rule exact_restricted [OF inv r'(2)])
    also have "\<dots> \<longleftrightarrow> n \<notin> set ?purged \<and> n \<in> set es"
      using gone [of n] es(2) exact_nodes_iff [OF inv, of n] by blast
    finally show "n \<in> exact_nodes (view r') \<longleftrightarrow> n \<in> set ?kept" using kp(2) by blast
  qed
  let ?g = "filter (\<lambda>n. project_of n = p) es"
  let ?s = "sort_by newer ?g"
  have old: "project_entries (view r) p = set ?s"
    using es(2) by (auto simp: project_entries_def)
  have new: "project_entries (view r') p = set (take ?m ?s)"
    using kept_of_project [of ?m es p] kept by (simp add: project_entries_def)
  have dist: "distinct ?s" using es(1) by simp
  have "card (project_entries (view r') p) = min ?m (card (project_entries (view r) p))"
    unfolding old new distinct_card [OF dist] distinct_card [OF distinct_take [OF dist]]
    by (simp add: min.commute)
  moreover have "newer a b" if "a \<in> set (take ?m ?s)" "b \<in> set ?s - set (take ?m ?s)" for a b
  proof -
    have b: "b \<in> set (drop ?m ?s)" using that(2) by (metis DiffD1 DiffD2 Un_iff append_take_drop_id set_append)
    have "sorted_wrt (\<lambda>a b. \<not> newer b a) (take ?m ?s @ drop ?m ?s)"
      using sorted_sort_by [OF newer_order order.refl, of ?g] unfolding append_take_drop_id .
    then have "\<not> newer b a" using that(1) b unfolding sorted_wrt_append by blast
    moreover have "node_id a \<noteq> node_id b"
      using that in_set_takeD [OF that(1)] stored by (metis DiffD1 DiffD2 filter_is_subset option.inject set_sort_by subsetD)
    ultimately show ?thesis by (rule newer_total [rotated])
  qed
  moreover have "view r' i = Some n" if "view r i = Some n" "n \<notin> exact_nodes (view r)" for i n
    using that gone [of n] view_id [OF inv that(1)] kp(3) es(2) by (auto simp: r'(2) restrict_map_def)
  moreover have "card (exact_nodes (view r')) = length ?kept" using kept kp(1) by (simp add: distinct_card)
  moreover have "length ?purged + length ?kept = card (exact_nodes (view r))"
  proof -
    have "length es = length ?kept + length ?purged"
      using mset_kept_purged [of ?m "ranked es"] mset_ranked [of es] by (metis size_mset size_union)
    then show ?thesis using es by (metis add.commute distinct_card)
  qed
  moreover have "exact_nodes (view r') \<subseteq> exact_nodes (view r)" using kept kp(2) es(2) by auto
  ultimately show ?thesis using r'(1) c' old new by (simp only:) auto
qed

end

section \<open>The count and the bound\<close>

text \<open>
  The count of the manager is the number of exact entries in the graph, and no project has
  more of them than the limit \<open>m\<close>.
\<close>

definition tracks :: "int \<Rightarrow> cache_manager \<Rightarrow> (string \<Rightarrow> node option) \<Rightarrow> bool" where
  "tracks m c v \<longleftrightarrow>
     finite (exact_nodes v) \<and> cm_exact c = int (card (exact_nodes v)) \<and>
     exact_on c \<and> exact_limit c = m \<and>
     (0 < m \<longrightarrow> (\<forall>p. int (card (project_entries v p)) \<le> m))"

lemma tracks_same:
  assumes "tracks m c v" "exact_nodes v' = exact_nodes v" "cm_exact c' = cm_exact c"
    "cfg_enabled (cm_config c') = cfg_enabled (cm_config c)" "cfg_exact (cm_config c') = cfg_exact (cm_config c)"
  shows "tracks m c' v'"
  using assms by (simp add: tracks_def project_entries_def exact_on_def exact_limit_def)

lemma project_entries_subset: "project_entries v p \<subseteq> exact_nodes v"
  by (auto simp: project_entries_def)

lemma tracks_fewer:
  assumes "tracks m c v" "exact_nodes v' \<subseteq> exact_nodes v" "cm_exact c' = int (card (exact_nodes v'))"
    "cm_config c' = cm_config c"
  shows "tracks m c' v'"
proof -
  have fin: "finite (exact_nodes v)" using assms(1) by (simp add: tracks_def)
  have "card (project_entries v' p) \<le> card (project_entries v p)" for p
    using assms(2) finite_subset [OF project_entries_subset fin]
    by (intro card_mono) (auto simp: project_entries_def)
  then have "int (card (project_entries v' p)) \<le> m" if "int (card (project_entries v p)) \<le> m" for p
    using that by (meson of_nat_mono order_trans)
  with assms finite_subset [OF assms(2) fin] show ?thesis
    by (auto simp: tracks_def exact_on_def exact_limit_def)
qed

lemma identity_matches:
  "node_matches ''CacheEntry'' (entry_identity project key tool) n \<Longrightarrow>
   node_kind n = ''CacheEntry'' \<and> project_of n = project \<and>
   (is_special_cache_entry n \<longleftrightarrow> special_tool tool)"
  by (auto simp: node_matches_iff entry_identity_def project_of_def get_string_def is_special_cache_entry_def)

lemma entry_props_same:
  "(\<And>k. k \<in> {''cache_key'', ''project_id'', ''tool_name''} \<Longrightarrow>
      pget (node_props n) k = pget (entry_identity project key tool) k) \<Longrightarrow>
   project_of n = project \<and> (is_special_cache_entry n \<longleftrightarrow> special_tool tool)"
  by (simp add: entry_identity_def project_of_def get_string_def is_special_cache_entry_def pget_def)

context graph_repo
begin

text \<open>What an upsert of an entry does to the exact entries.\<close>

lemma exact_after_upsert:
  assumes inv: "inv r"
    and up: "op_upsert G now ''CacheEntry'' (entry_identity project key tool)
      (entry_properties stored repo commit binary args result confidence agent) r = (Inr n, r1)"
  defines "old \<equiv> matching (view r) ''CacheEntry'' (entry_identity project key tool)"
  shows "special_tool tool \<Longrightarrow> exact_nodes (view r1) = exact_nodes (view r)"
    and "\<not> special_tool tool \<Longrightarrow> old = {} \<Longrightarrow>
      exact_nodes (view r1) = insert n (exact_nodes (view r)) \<and> n \<notin> exact_nodes (view r) \<and> project_of n = project"
    and "\<not> special_tool tool \<Longrightarrow> old \<noteq> {} \<Longrightarrow>
      \<exists>w \<in> exact_nodes (view r). exact_nodes (view r1) = insert n (exact_nodes (view r) - {w}) \<and>
        n \<notin> exact_nodes (view r) - {w} \<and> project_of n = project_of w"
proof -
  note args = plain_argsD(1-4) [OF plain_entry [of project key tool stored repo commit binary args result confidence agent]]
  note ok = upsert_ok [OF inv up args] and st = stored_entry [OF inv up]
  note n = entry_props_same [OF st(5)]
  note iff = exact_nodes_iff [OF inv]
  have new: "x \<in> exact_nodes (view r1) \<longleftrightarrow>
      (if node_id x = node_id n then x = n else view r (node_id x) = Some x) \<and>
      node_kind x = ''CacheEntry'' \<and> \<not> is_special_cache_entry x" for x
    by (simp only: exact_nodes_iff [OF st(1)]) (auto simp: st(2))
  note old_id = matching_id [OF inv]
  show "exact_nodes (view r1) = exact_nodes (view r)" if "special_tool tool"
  proof (intro set_eqI)
    fix x
    have "\<not> (view r (node_id n) = Some x \<and> x \<in> exact_nodes (view r))"
    proof (cases "old = {}")
      case True
      then have "view r (node_id n) = None" using ok unfolding old_def by auto
      then show ?thesis by simp
    next
      case False
      then obtain o' where "o' \<in> old" "node_id n = node_id o'" using ok unfolding old_def by auto
      then show ?thesis
        using old_id [of o'] identity_matches [of project key tool o'] that
        by (auto simp: old_def matching_def iff)
    qed
    then show "x \<in> exact_nodes (view r1) \<longleftrightarrow> x \<in> exact_nodes (view r)"
      using n that by (auto simp: iff new)
  qed
  assume plain: "\<not> special_tool tool"
  have mem: "x \<in> exact_nodes (view r1) \<longleftrightarrow> x = n \<or> x \<in> exact_nodes (view r) \<and> node_id x \<noteq> node_id n" for x
    using n plain st(3) by (auto simp: iff new)
  show "exact_nodes (view r1) = insert n (exact_nodes (view r)) \<and> n \<notin> exact_nodes (view r) \<and> project_of n = project"
    if "old = {}"
  proof -
    have none: "view r (node_id n) = None" using that ok unfolding old_def by auto
    then have "x \<in> exact_nodes (view r) \<Longrightarrow> node_id x \<noteq> node_id n" for x by (auto simp: iff)
    with mem n none show ?thesis by (auto simp: iff)
  qed
  show "\<exists>w \<in> exact_nodes (view r). exact_nodes (view r1) = insert n (exact_nodes (view r) - {w}) \<and>
        n \<notin> exact_nodes (view r) - {w} \<and> project_of n = project_of w"
    if again: "old \<noteq> {}"
  proof -
    obtain o' where o': "o' \<in> old" "node_id n = node_id o'" using again ok unfolding old_def by auto
    then have stored: "view r (node_id n) = Some o'" using old_id [of o'] unfolding old_def by simp
    from o' have "node_matches ''CacheEntry'' (entry_identity project key tool) o'"
      unfolding old_def matching_def by blast
    from identity_matches [OF this] have "o' \<in> exact_nodes (view r)" "project_of o' = project"
      using stored plain o'(2) by (auto simp: iff)
    moreover have "x \<in> exact_nodes (view r) \<and> node_id x \<noteq> node_id n \<longleftrightarrow> x \<in> exact_nodes (view r) - {o'}" for x
      using stored by (auto simp: iff o'(2))
    moreover have "n \<notin> exact_nodes (view r) - {o'}" using stored by (auto simp: iff)
    ultimately show ?thesis using mem n by blast
  qed
qed

end

lemma tracks_replaced:
  assumes "tracks m c v" "w \<in> exact_nodes v" "exact_nodes v' = insert n (exact_nodes v - {w})"
    "n \<notin> exact_nodes v - {w}" "project_of n = project_of w"
  shows "tracks m c v'"
proof -
  have fin: "finite (exact_nodes v)" using assms(1) by (simp add: tracks_def)
  have "project_entries v' p = (if p = project_of w then insert n (project_entries v p - {w}) else project_entries v p)" for p
    using assms(2-5) by (auto simp: project_entries_def)
  moreover have "card (insert n (project_entries v (project_of w) - {w})) = card (project_entries v (project_of w))"
    using assms(2,4) finite_subset [OF project_entries_subset fin] card.remove [of "project_entries v (project_of w)" w]
    by (auto simp: project_entries_def)
  ultimately have "card (project_entries v' p) = card (project_entries v p)" for p by auto
  moreover have "card (exact_nodes v') = card (exact_nodes v)"
    using assms(2,3,4) fin card.remove [of "exact_nodes v" w] by simp
  ultimately show ?thesis using assms(1,3) by (simp add: tracks_def)
qed

lemma card_project_le: "finite (exact_nodes v) \<Longrightarrow> card (project_entries v p) \<le> card (exact_nodes v)"
  by (intro card_mono project_entries_subset)

context graph_repo
begin

lemma tracks_purge:
  assumes "inv r" "tracks m c (view r)" "purge_exact G k c r = (Inr x, c', r')"
  shows "inv r' \<and> tracks m c' (view r')"
proof (cases "0 < k")
  case True
  from purge_result [OF assms(1) True assms(3)] assms(2) show ?thesis
    by (blast intro: tracks_fewer)
next
  case False
  with assms show ?thesis by (simp add: purge_exact_def)
qed

lemma tracks_store:
  assumes inv: "inv r" and t: "tracks m c (view r)" and plain: "\<not> special_tool tool"
    and store: "store_exact_cache G clk project repo commit binary tool args result confidence agent c r = (Inr (), c', r')"
  shows "inv r' \<and> tracks m c' (view r')"
proof -
  let ?id = "entry_identity project (call_key project repo commit binary tool args) tool"
  have on: "exact_on c" using t by (simp add: tracks_def)
  obtain ns r0 n r1 where find: "op_find G ''CacheEntry'' ?id r = (Inr ns, r0)"
    and up: "op_upsert G (clk_nano clk) ''CacheEntry'' ?id
      (entry_properties (clk_iso clk) repo commit binary args result confidence agent) r0 = (Inr n, r1)"
    and rest: "(if ns \<noteq> [] then (Inr (), c, r1)
      else let c = c\<lparr>cm_exact := cm_exact c + 1\<rparr>
           in if 0 < exact_limit c \<and> exact_limit c < cm_exact c
              then unit_res (purge_exact G (exact_limit c) c r1) else (Inr (), c, r1)) = (Inr (), c', r')"
    using store on by (auto simp: store_exact_cache_def Let_def split: prod.splits sum.splits)
  from find_ok [OF inv find] have r0: "inv r0" "view r0 = view r" "set ns = matching (view r) ''CacheEntry'' ?id"
    by auto
  have r1: "inv r1" using stored_entry(1) [OF r0(1) up] .
  show ?thesis
  proof (cases "ns = []")
    case False
    then have "matching (view r0) ''CacheEntry'' ?id \<noteq> {}" using r0 by auto
    from exact_after_upsert(3) [OF r0(1) up plain this] tracks_replaced [of m c "view r0" _ "view r1" n] t r0(2)
    have "tracks m c (view r1)" by auto
    with False rest r1 show ?thesis by simp
  next
    case True
    then have "matching (view r0) ''CacheEntry'' ?id = {}" using r0 by auto
    from exact_after_upsert(2) [OF r0(1) up plain this]
    have new: "exact_nodes (view r1) = insert n (exact_nodes (view r))" "n \<notin> exact_nodes (view r)"
      unfolding r0(2) by auto
    let ?c = "c\<lparr>cm_exact := cm_exact c + 1\<rparr>"
    have fin: "finite (exact_nodes (view r1))" and count: "cm_exact ?c = int (card (exact_nodes (view r1)))"
      and cfg: "exact_on ?c" "exact_limit ?c = m"
      using t new by (auto simp: tracks_def exact_on_def exact_limit_def)
    show ?thesis
    proof (cases "0 < m \<and> m < cm_exact ?c")
      case False
      then have "0 < m \<longrightarrow> (\<forall>p. int (card (project_entries (view r1) p)) \<le> m)"
        using count card_project_le [OF fin] by (smt (verit) of_nat_mono)
      with fin count cfg have "tracks m ?c (view r1)" by (simp add: tracks_def)
      with False rest True cfg r1 show ?thesis by (auto simp: Let_def)
    next
      case over: True
      with rest True cfg obtain x where purge: "purge_exact G m ?c r1 = (Inr x, c', r')"
        by (auto simp: Let_def unit_res_def split: prod.splits sum.splits)
      from over have "0 < m" by simp
      note kept = purge_result [OF r1 this purge]
      have "finite (exact_nodes (view r'))" using kept [THEN conjunct2, THEN conjunct1] fin by (rule finite_subset)
      moreover have "int (card (project_entries (view r') p)) \<le> m" for p
        using kept [of p] \<open>0 < m\<close> by (auto simp: min_def)
      ultimately show ?thesis using kept cfg by (simp add: tracks_def exact_on_def exact_limit_def)
    qed
  qed
qed

lemma tracks_store_special:
  assumes inv: "inv r" and t: "tracks m c (view r)" and special: "special_tool special"
    and store: "store_special G clk special field project content c r = (Inr (), c', r')"
  shows "inv r' \<and> tracks m c' (view r')"
proof (cases "cfg_enabled (cm_config c)")
  case True
  with store obtain n where up: "op_upsert G (clk_nano clk) ''CacheEntry'' (entry_identity project special special)
      (entry_properties (clk_iso clk) [] [] [] None (Some [(field, VStr content)]) (Fin 1) ''privacy_service'') r = (Inr n, r')"
    and c': "c' = c"
    by (auto simp: store_special_def split: prod.splits sum.splits)
  with stored_entry(1) [OF inv up] exact_after_upsert(1) [OF inv up special] t show ?thesis
    by (auto intro: tracks_same)
next
  case False
  with assms show ?thesis by (simp add: store_special_def)
qed

lemma exact_after_remove:
  assumes "inv r" "op_remove_nodes G ids r = (Inr u, r')"
  shows "inv r'" "exact_nodes (view r') = {n \<in> exact_nodes (view r). node_id n \<notin> set ids}"
proof -
  from remove_ok [OF assms] show r': "inv r'" by simp
  from remove_ok [OF assms] have "view r' = view r |` (- set ids)" by simp
  then show "exact_nodes (view r') = {n \<in> exact_nodes (view r). node_id n \<notin> set ids}"
    by (auto simp: exact_nodes_def matching_def restrict_map_def view_id [OF assms(1)] split: if_splits)
qed

end

lemma tracks_config: "tracks m c v \<Longrightarrow> tracks m (increment_stat field c) v"
  by (rule tracks_same) simp_all

lemma removed_one:
  assumes "finite A" "w \<in> A" "\<And>x. x \<in> A \<Longrightarrow> f x = f w \<Longrightarrow> x = w"
  shows "{x \<in> A. f x \<notin> {f w}} = A - {w}" "card {x \<in> A. f x \<notin> {f w}} = card A - 1"
proof -
  show eq: "{x \<in> A. f x \<notin> {f w}} = A - {w}" using assms by auto
  show "card {x \<in> A. f x \<notin> {f w}} = card A - 1" unfolding eq using assms(1,2) by simp
qed

context graph_repo
begin

lemma tracks_check_exact:
  assumes inv: "inv r" and t: "tracks m c (view r)"
    and check: "check_exact_cache G clk project repo commit binary tool args c r = (Inr x, c', r')"
  shows "inv r' \<and> tracks m c' (view r') \<and> cm_semantic c' = cm_semantic c"
proof -
  let ?id = "entry_identity project (call_key project repo commit binary tool args) tool"
  have on: "exact_on c" using t by (simp add: tracks_def)
  obtain ns r0 where find: "op_find G ''CacheEntry'' ?id r = (Inr ns, r0)"
    using check on by (auto simp: check_exact_cache_def split: prod.splits sum.splits)
  from find_ok [OF inv find] have r0: "inv r0" "view r0 = view r" "set ns = matching (view r) ''CacheEntry'' ?id"
    by auto
  show ?thesis
  proof (cases "\<exists>n rest. ns = n # rest \<and> \<not> is_fresh clk (cm_config c) (unmarshal_cache_entry n)")
    case False
    then have "c' = c" "r' = r0" using check on find by (auto simp: check_exact_cache_def Let_def split: list.splits)
    with r0 t show ?thesis by simp
  next
    case True
    then obtain n rest where n: "ns = n # rest" "\<not> is_fresh clk (cm_config c) (unmarshal_cache_entry n)" by blast
    let ?c = "if is_special_cache_entry n then c else forget_exact 1 c"
    obtain u where rem: "op_remove_nodes G [node_id n] r0 = (Inr u, r')" and c': "c' = increment_stat ''stale_hits'' ?c"
      using check on find n by (auto simp: check_exact_cache_def Let_def split: prod.splits sum.splits)
    note gone = exact_after_remove [OF r0(1) rem]
    have "n \<in> matching (view r0) ''CacheEntry'' ?id" using r0 n by auto
    then have stored: "view r0 (node_id n) = Some n" "node_kind n = ''CacheEntry''"
      using matching_id [OF r0(1)] by (auto simp: matching_def node_matches_def)
    have fin: "finite (exact_nodes (view r0))" and count: "cm_exact c = int (card (exact_nodes (view r0)))"
      using t r0 by (simp_all add: tracks_def)
    have "tracks m ?c (view r')"
    proof (cases "is_special_cache_entry n")
      case True
      have "x \<in> exact_nodes (view r0) \<Longrightarrow> node_id x \<noteq> node_id n" for x
        using True stored(1) exact_nodes_iff [OF r0(1), of x] by (metis option.inject)
      then have "exact_nodes (view r') = exact_nodes (view r0)" using gone(2) by auto
      with True t r0 show ?thesis by (auto intro: tracks_same)
    next
      case False
      have "n \<in> exact_nodes (view r0)" using False stored exact_nodes_iff [OF r0(1)] by blast
      moreover have "x \<in> exact_nodes (view r0) \<Longrightarrow> node_id x = node_id n \<Longrightarrow> x = n" for x
        using stored(1) exact_nodes_iff [OF r0(1), of x] by (metis option.inject)
      ultimately have card: "card (exact_nodes (view r')) = card (exact_nodes (view r0)) - 1"
        "card (exact_nodes (view r0)) > 0"
        using removed_one(2) [OF fin, of n node_id] gone(2) fin card_gt_0_iff by auto
      have "cm_exact ?c = int (card (exact_nodes (view r')))"
        using False card count by (auto simp: forget_exact_def)
      moreover have "exact_nodes (view r') \<subseteq> exact_nodes (view r)" using gone(2) r0(2) by auto
      ultimately show ?thesis using False t by (intro tracks_fewer [OF t]) (simp_all add: forget_exact_def)
    qed
    then show ?thesis using c' gone(1) by (auto simp: tracks_config forget_exact_def)
  qed
qed

lemma tracks_check:
  assumes inv: "inv r" and t: "tracks m c (view r)"
    and check: "check_cache G clk project repo commit binary tool args c r = (Inr x, c', r')"
  shows "inv r' \<and> tracks m c' (view r') \<and> cm_semantic c' = cm_semantic c"
proof (cases "cfg_enabled (cm_config c)")
  case True
  then obtain y c0 r0 where exact: "check_exact_cache G clk project repo commit binary tool args c r = (Inr y, c0, r0)"
    using check by (auto simp: check_cache_def split: prod.splits sum.splits)
  have "r' = r0 \<and> (\<exists>field. c' = increment_stat field c0)"
    using check True exact by (auto simp: check_cache_def split: option.splits if_splits)
  with tracks_check_exact [OF inv t exact] show ?thesis by (auto simp: tracks_config)
next
  case False
  with assms show ?thesis by (simp add: check_cache_def)
qed

text \<open>A removal by filters takes exactly the matching entries away.\<close>

lemma remove_found_ok:
  assumes inv: "inv r" and rem: "remove_found G filters c r = (Inr k, c', r')"
  shows "inv r' \<and> view r' = view r |` (- node_id ` matching (view r) ''CacheEntry'' filters) \<and>
    k = int (card (matching (view r) ''CacheEntry'' filters)) \<and> cm_config c' = cm_config c \<and>
    finite (matching (view r) ''CacheEntry'' filters) \<and> cm_semantic c' = cm_semantic c \<and>
    (0 \<le> cm_exact c \<longrightarrow> cm_exact c' = max 0 (cm_exact c - k))"
proof -
  obtain ns r0 where find: "op_find G ''CacheEntry'' filters r = (Inr ns, r0)"
    using rem by (auto simp: remove_found_def split: prod.splits sum.splits)
  from find_ok [OF inv find] have r0: "inv r0" "view r0 = view r"
    and ns: "set ns = matching (view r) ''CacheEntry'' filters" "sorted_wrt (\<lambda>a b. node_id a < node_id b) ns"
    by auto
  have "distinct ns" using ns(2) by (rule sorted_ids_distinct)
  then have card: "card (matching (view r) ''CacheEntry'' filters) = length ns" using ns(1) distinct_card by metis
  show ?thesis
  proof (cases "ns = []")
    case True
    with rem find r0 ns card show ?thesis by (auto simp: remove_found_def)
  next
    case False
    obtain y r1 where op: "op_remove_nodes G (map node_id ns) r0 = (y, r1)" by fastforce
    then obtain u where u: "y = Inr u" "r' = r1" "k = int (length ns)"
      "c' = forget_exact (int (length ns)) (count_invalidations (length ns) c)"
      using rem find False by (cases y) (auto simp: remove_found_def)
    with remove_ok [OF r0(1) op [unfolded u(1)]] r0(2) card show ?thesis
      by (auto simp: ns(1) [symmetric] forget_exact_def count_invalidations_def)
  qed
qed

lemma matching_ids:
  assumes "inv r" "n \<in> exact_nodes (view r)"
  shows "node_id n \<in> node_id ` matching (view r) kind filters \<longleftrightarrow> n \<in> matching (view r) kind filters"
proof
  assume "node_id n \<in> node_id ` matching (view r) kind filters"
  then obtain g where g: "g \<in> matching (view r) kind filters" "node_id n = node_id g" by blast
  then have "view r (node_id n) = Some g" using matching_id [OF assms(1)] by simp
  moreover have "view r (node_id n) = Some n" using assms exact_nodes_iff by blast
  ultimately show "n \<in> matching (view r) kind filters" using g(1) by simp
qed blast

lemma tracks_remove_found:
  assumes inv: "inv r" and t: "tracks m c (view r)"
    and plain: "\<forall>n \<in> matching (view r) ''CacheEntry'' filters. \<not> is_special_cache_entry n"
    and rem: "remove_found G filters c r = (Inr k, c', r')"
  shows "inv r' \<and> tracks m c' (view r')"
proof -
  note ok = remove_found_ok [OF inv rem]
  let ?gone = "matching (view r) ''CacheEntry'' filters"
  have sub: "?gone \<subseteq> exact_nodes (view r)"
    using plain by (auto simp: exact_nodes_def matching_def node_matches_def)
  have fin: "finite (exact_nodes (view r))" using t by (simp add: tracks_def)
  have "exact_nodes (view r') = exact_nodes (view r) - ?gone"
  proof (intro set_eqI)
    fix n
    have "n \<in> exact_nodes (view r') \<longleftrightarrow> node_id n \<notin> node_id ` ?gone \<and> n \<in> exact_nodes (view r)"
      using ok by (intro exact_restricted [OF inv]) blast
    with matching_ids [OF inv] show "n \<in> exact_nodes (view r') \<longleftrightarrow> n \<in> exact_nodes (view r) - ?gone" by blast
  qed
  then have "int (card (exact_nodes (view r'))) = cm_exact c - k" and fewer: "exact_nodes (view r') \<subseteq> exact_nodes (view r)"
    using ok t sub fin by (auto simp: tracks_def card_Diff_subset of_nat_diff card_mono finite_subset)
  then have "cm_exact c' = int (card (exact_nodes (view r')))" using ok t by (auto simp: tracks_def)
  with ok fewer show ?thesis by (intro conjI tracks_fewer [OF t]) auto
qed

end

section \<open>A stored result is found\<close>

context graph_repo
begin

lemma check_after_store:
  assumes inv: "inv r" and on: "exact_on c" and no_ttl: "\<not> ttl_enabled (cfg_ttl (cm_config c))"
    and room: "exact_limit c \<le> 0 \<or> cm_exact c < exact_limit c"
    and store: "store_exact_cache G clk project repo commit binary tool args result confidence agent c r = (Inr (), c1, r1)"
    and check: "check_exact_cache G clk' project repo commit binary tool args c1 r1 = (Inr x, c2, r2)"
  shows "\<exists>e. x = Some e \<and> ce_result e = Some (case result of None \<Rightarrow> [] | Some m \<Rightarrow> m) \<and>
    ce_confidence e = confidence \<and> ce_agent e = agent \<and> ce_freshness e = ''VALID'' \<and> c2 = c1"
proof -
  let ?id = "entry_identity project (call_key project repo commit binary tool args) tool"
  let ?ps = "entry_properties (clk_iso clk) repo commit binary args result confidence agent"
  obtain ns r0 n where find: "op_find G ''CacheEntry'' ?id r = (Inr ns, r0)"
    and up: "op_upsert G (clk_nano clk) ''CacheEntry'' ?id ?ps r0 = (Inr n, r1)"
    and c1: "c1 = c \<or> c1 = c\<lparr>cm_exact := cm_exact c + 1\<rparr>"
    using store on room
    by (auto simp: store_exact_cache_def Let_def exact_limit_def split: prod.splits sum.splits if_splits)
  from find_ok [OF inv find] have r0: "inv r0" by simp
  have cfg: "cm_config c1 = cm_config c" using c1 by auto
  then have on1: "exact_on c1" using on by (simp add: exact_on_def)
  obtain ms r' where found: "op_find G ''CacheEntry'' ?id r1 = (Inr ms, r')"
    using check on1 by (auto simp: check_exact_cache_def split: prod.splits sum.splits)
  obtain rest where ms: "ms = n # rest" using find_stored [OF r0 up found] by blast
  note st = stored_entry(4) [OF r0 up]
  let ?e = "unmarshal_cache_entry n"
  have e: "ce_result ?e = Some (case result of None \<Rightarrow> [] | Some m \<Rightarrow> m)" "ce_confidence ?e = confidence"
    "ce_agent ?e = agent" "ce_freshness ?e = ''VALID''"
    using st [of "''result''"] st [of "''confidence''"] st [of "''agent''"] st [of "''freshness''"]
    by (simp_all add: unmarshal_cache_entry_def Let_def get_string_def entry_properties_def pget_def
        as_object_def object_of_def)
  then have "is_fresh clk' (cm_config c1) ?e" using no_ttl cfg by (simp add: is_fresh_def)
  with check on1 found ms have "x = Some ?e" "c2 = c1"
    by (auto simp: check_exact_cache_def Let_def)
  with e show ?thesis by blast
qed

end

section \<open>The semantic level\<close>

text \<open>No operation of the manager indexes an entry, so its semantic cache stays empty.\<close>

definition never_indexed :: "cache_manager \<Rightarrow> bool" where
  "never_indexed c \<longleftrightarrow> (case cm_semantic c of None \<Rightarrow> True | Some s \<Rightarrow> sem_entries s = [])"

inductive manager_run :: "'r repo_ops \<Rightarrow> cache_manager \<Rightarrow> 'r \<Rightarrow> bool" for G where
  start: "new_cache_manager G cfg r = (c, r') \<Longrightarrow> manager_run G c r'"
| stored: "manager_run G c r \<Longrightarrow>
    store_cache G clk project repo commit binary tool args result confidence agent c r = (x, c', r') \<Longrightarrow>
    manager_run G c' r'"
| special: "manager_run G c r \<Longrightarrow>
    store_special G clk special field project content c r = (x, c', r') \<Longrightarrow> manager_run G c' r'"
| looked_up: "manager_run G c r \<Longrightarrow>
    check_cache G clk project repo commit binary tool args c r = (y, c', r') \<Longrightarrow> manager_run G c' r'"
| purged: "manager_run G c r \<Longrightarrow> purge_exact G k c r = (z, c', r') \<Longrightarrow> manager_run G c' r'"
| removed: "manager_run G c r \<Longrightarrow> remove_found G filters c r = (z, c', r') \<Longrightarrow> manager_run G c' r'"
| counted: "manager_run G c r \<Longrightarrow> manager_run G (increment_stat field c) r"
| ttl: "manager_run G c r \<Longrightarrow> manager_run G (set_ttl on secs c) r"
| others: "manager_run G c r \<Longrightarrow> manager_run G c r'"

lemma semantic_purge: "purge_exact G k c r = (x, c', r') \<Longrightarrow> cm_semantic c' = cm_semantic c"
  by (auto simp: purge_exact_def Let_def count_invalidations_def split: prod.splits sum.splits if_splits)

lemma semantic_store:
  "store_exact_cache G clk project repo commit binary tool args result confidence agent c r = (x, c', r') \<Longrightarrow>
   cm_semantic c' = cm_semantic c"
  by (auto simp: store_exact_cache_def Let_def unit_res_def dest!: semantic_purge
      split: prod.splits sum.splits if_splits)

lemma semantic_store_special:
  "store_special G clk special field project content c r = (x, c', r') \<Longrightarrow> cm_semantic c' = cm_semantic c"
  by (auto simp: store_special_def split: prod.splits sum.splits if_splits)

lemma semantic_remove_found: "remove_found G filters c r = (x, c', r') \<Longrightarrow> cm_semantic c' = cm_semantic c"
  by (auto simp: remove_found_def Let_def count_invalidations_def forget_exact_def
      split: prod.splits sum.splits if_splits)

lemma semantic_check_exact:
  "check_exact_cache G clk project repo commit binary tool args c r = (x, c', r') \<Longrightarrow>
   cm_semantic c' = cm_semantic c"
  by (auto simp: check_exact_cache_def Let_def forget_exact_def
      split: prod.splits sum.splits if_splits list.splits)

lemma semantic_check:
  "check_cache G clk project repo commit binary tool args c r = (x, c', r') \<Longrightarrow>
   cm_semantic c' = cm_semantic c"
  by (auto simp: check_cache_def dest!: semantic_check_exact
      split: prod.splits sum.splits if_splits option.splits)

lemmas semantic_kept = semantic_purge semantic_store semantic_store_special semantic_remove_found semantic_check

lemma manager_run_never_indexed: "manager_run G c r \<Longrightarrow> never_indexed c"
proof (induction rule: manager_run.induct)
  case (start cfg r c r')
  then show ?case
    by (auto simp: new_cache_manager_def Let_def never_indexed_def new_semantic_cache_def
        split: prod.splits sum.splits if_splits)
next
  case (ttl c r on secs)
  then show ?case by (simp add: never_indexed_def set_ttl_def)
qed (auto simp: never_indexed_def store_cache_def dest!: semantic_kept split: option.splits)

lemma no_semantic_answer: "never_indexed c \<Longrightarrow> semantic_answer project repo commit binary args c = None"
  by (auto simp: never_indexed_def semantic_answer_def sem_search_def sort_scores_def Let_def split: option.splits)

end
