(* ===== verification/CacheProperties.thy ===== *)
theory CacheProperties
  imports ResultCache
begin

text \<open>
  What the result cache promises, over the in-memory repository: the laws of the interface
  proved for it in \<open>MemoryGraph\<close> carry the lemmas of \<open>ResultCache\<close> over.
\<close>

section \<open>Bounds and counts\<close>

abbreviation nodes_view :: "mem_repo \<Rightarrow> string \<Rightarrow> node option" where
  "nodes_view r \<equiv> map_of (nodes r)"

text \<open>
  Runs of a manager with limit \<open>m\<close> beside other writers of the graph, which leave the cache
  entries alone. A removal is one that matches no special entry.
\<close>

inductive cache_run :: "int \<Rightarrow> cache_manager \<Rightarrow> mem_repo \<Rightarrow> bool" for m where
  start: "mem_ok r \<Longrightarrow> cfg_enabled cfg \<Longrightarrow> cfg_exact cfg = \<lparr>level_enabled = True, level_max_entries = m\<rparr> \<Longrightarrow>
    0 < m \<longrightarrow> (\<forall>p. int (card (project_entries (nodes_view r) p)) \<le> m) \<Longrightarrow>
    cache_run m (fst (new_cache_manager mem_ops cfg r)) r"
| stored: "cache_run m c r \<Longrightarrow> \<not> special_tool tool \<Longrightarrow>
    store_exact_cache mem_ops clk project repo commit binary tool args result confidence agent c r = (Inr (), c', r') \<Longrightarrow>
    cache_run m c' r'"
| special: "cache_run m c r \<Longrightarrow> special_tool special \<Longrightarrow>
    store_special mem_ops clk special field project content c r = (Inr (), c', r') \<Longrightarrow> cache_run m c' r'"
| looked_up: "cache_run m c r \<Longrightarrow>
    check_cache mem_ops clk project repo commit binary tool args c r = (Inr x, c', r') \<Longrightarrow> cache_run m c' r'"
| purged: "cache_run m c r \<Longrightarrow> purge_exact mem_ops k c r = (Inr n, c', r') \<Longrightarrow> cache_run m c' r'"
| removed: "cache_run m c r \<Longrightarrow>
    \<forall>n \<in> matching (nodes_view r) ''CacheEntry'' filters. \<not> is_special_cache_entry n \<Longrightarrow>
    remove_found mem_ops filters c r = (Inr n, c', r') \<Longrightarrow> cache_run m c' r'"
| counted: "cache_run m c r \<Longrightarrow> cache_run m (increment_stat field c) r"
| ttl: "cache_run m c r \<Longrightarrow> cache_run m (set_ttl on secs c) r"
| others: "cache_run m c r \<Longrightarrow> mem_ok r' \<Longrightarrow> exact_nodes (nodes_view r') = exact_nodes (nodes_view r) \<Longrightarrow>
    cache_run m c r'"

lemma mem_find: "op_find mem_ops kind filters r = (Inr (find_nodes_locked kind filters r), r)"
  by (simp add: mem_ops_def find_nodes_def)

lemma mem_remove: "op_remove_nodes mem_ops ids r = (Inr (), snd (remove_nodes ids r))"
  by (simp add: mem_ops_def remove_nodes_def Let_def)

lemma new_manager_count:
  assumes "mem_ok r"
  shows "length (filter (\<lambda>n. \<not> is_special_cache_entry n) (find_nodes_locked ''CacheEntry'' [] r)) =
    card (exact_nodes (nodes_view r)) \<and> finite (exact_nodes (nodes_view r))"
proof -
  let ?ns = "find_nodes_locked ''CacheEntry'' [] r"
  from mem.find_ok [OF assms mem_find] have ns: "set ?ns = matching (nodes_view r) ''CacheEntry'' []"
    "sorted_wrt (\<lambda>a b. node_id a < node_id b) ?ns" by auto
  from sorted_ids_distinct [OF this(2)]
  have dist: "distinct (filter (\<lambda>n. \<not> is_special_cache_entry n) ?ns)" by simp
  have eq: "exact_nodes (nodes_view r) = set (filter (\<lambda>n. \<not> is_special_cache_entry n) ?ns)"
    unfolding exact_nodes_def ns(1) [symmetric] by simp
  show ?thesis unfolding eq distinct_card [OF dist] by simp
qed

lemma cache_run_tracks: "cache_run m c r \<Longrightarrow> mem_ok r \<and> tracks m c (nodes_view r)"
proof (induction rule: cache_run.induct)
  case (start r cfg)
  then show ?case
    using new_manager_count [of r]
    by (simp add: new_cache_manager_def mem_find tracks_def exact_on_def exact_limit_def)
next
  case (stored c r tool clk project repo commit binary args result confidence agent c' r')
  then show ?case using mem.tracks_store by blast
next
  case (special c r special clk field project content c' r')
  then show ?case using mem.tracks_store_special by blast
next
  case (looked_up c r clk project repo commit binary tool args x c' r')
  then show ?case using mem.tracks_check by blast
next
  case (purged c r k n c' r')
  then show ?case using mem.tracks_purge by blast
next
  case (removed c r filters n c' r')
  then show ?case using mem.tracks_remove_found by blast
next
  case (counted c r field)
  then show ?case by (simp add: tracks_config)
next
  case (ttl c r on secs)
  then show ?case by (auto intro: tracks_same simp: set_ttl_def)
next
  case (others c r r')
  then show ?case by (auto intro: tracks_same)
qed

text \<open>
  Claim C15. After any run of stores, lookups, purges and invalidations of tool results the
  manager's counter is the number of cached results in the graph, and no project has more
  than the configured maximum.
\<close>

theorem cache_bounded:
  assumes "cache_run m c r"
  shows "cm_exact c = int (card (exact_nodes (nodes_view r))) \<and>
    (0 < m \<longrightarrow> int (card (project_entries (nodes_view r) project)) \<le> m)"
  using cache_run_tracks [OF assms] by (simp add: tracks_def)

definition demo_config :: cache_config where
  "demo_config =
     \<lparr>cfg_enabled = True,
      cfg_exact = \<lparr>level_enabled = True, level_max_entries = 2\<rparr>,
      cfg_semantic = demo_semantic,
      cfg_tool = \<lparr>level_enabled = True, level_max_entries = 0\<rparr>,
      cfg_analysis = \<lparr>level_enabled = True, level_max_entries = 0\<rparr>,
      cfg_llm = \<lparr>llm_enabled = True, llm_cache_responses = True\<rparr>,
      cfg_ttl = \<lparr>ttl_enabled = False, ttl_seconds = 60\<rparr>,
      cfg_invalidation = \<lparr>inv_git = True, inv_binary_hash = True, inv_dependency = True,
                          inv_tool_version = True\<rparr>,
      cfg_no_duplicates = True,
      cfg_privacy = \<lparr>cache_llm = True, cache_source = False, cache_binary = False, cache_tools = True\<rparr>\<rparr>"

definition demo_clock :: clock where
  "demo_clock = \<lparr>clk_iso = ''2026-01-03T00:00:00Z'', clk_nano = ''2026-01-03T00:00:00.1Z'', clk_age = (\<lambda>_. None)\<rparr>"

definition demo_graph :: mem_repo where
  "demo_graph = new_memory_repo demo_ids"

definition demo_manager :: cache_manager where
  "demo_manager = fst (new_cache_manager mem_ops demo_config demo_graph)"

lemma demo_cache_start: "cache_run 2 (fst (new_cache_manager mem_ops demo_config demo_graph)) demo_graph"
proof (rule cache_run.start)
  show "mem_ok demo_graph" unfolding demo_graph_def by (rule mem_ok_new) (rule inj_demo_ids)
  have "exact_nodes (nodes_view demo_graph) = {}"
    by (simp add: exact_nodes_def matching_def demo_graph_def new_memory_repo_def)
  then show "0 < (2::int) \<longrightarrow> (\<forall>p. int (card (project_entries (nodes_view demo_graph) p)) \<le> 2)"
    by (simp add: project_entries_def)
qed (simp_all add: demo_config_def)

lemma cache_bounded_witness:
  "cm_exact (fst (new_cache_manager mem_ops demo_config demo_graph)) =
     int (card (exact_nodes (nodes_view demo_graph)))"
  using cache_bounded [OF demo_cache_start] by simp

text \<open>
  Claim C16. A purge keeps, of each project, the results updated last and as many as the limit
  allows, touches no other node, and reports how many it removed.
\<close>

theorem purge_keeps_newest:
  assumes "mem_ok r" "0 < k" "purge_exact mem_ops k c r = (Inr x, c', r')"
  shows "card (project_entries (nodes_view r') p) = min (nat k) (card (project_entries (nodes_view r) p)) \<and>
    exact_nodes (nodes_view r') \<subseteq> exact_nodes (nodes_view r) \<and>
    (\<forall>a \<in> project_entries (nodes_view r') p.
       \<forall>b \<in> project_entries (nodes_view r) p - project_entries (nodes_view r') p. newer a b) \<and>
    (\<forall>i n. nodes_view r i = Some n \<and> n \<notin> exact_nodes (nodes_view r) \<longrightarrow> nodes_view r' i = Some n) \<and>
    cm_exact c' = int (card (exact_nodes (nodes_view r'))) \<and>
    x = int (card (exact_nodes (nodes_view r))) - int (card (exact_nodes (nodes_view r')))"
  using mem.purge_result [OF assms] by blast

definition cached_node :: "string \<Rightarrow> string \<Rightarrow> node" where
  "cached_node i updated =
     \<lparr>node_id = i, node_kind = ''CacheEntry'',
      node_props = [(''project_id'', VStr ''p''), (''tool_name'', VStr ''ask''), (''updated_at'', VStr updated)]\<rparr>"

definition cached_graph :: mem_repo where
  "cached_graph = (new_memory_repo demo_ids)
     \<lparr>nodes := [(''a'', cached_node ''a'' ''2026-01-01''), (''b'', cached_node ''b'' ''2026-01-02'')]\<rparr>"

lemma cached_graph_ok: "mem_ok cached_graph"
  by (auto simp: mem_ok_def cached_graph_def new_memory_repo_def cached_node_def canonical_def inj_demo_ids
      future_def demo_ids_def)

lemma purge_keeps_newest_witness:
  "card (project_entries (nodes_view (snd (snd (purge_exact mem_ops 1 demo_manager cached_graph)))) ''p'') =
     min 1 (card (project_entries (nodes_view cached_graph) ''p''))"
proof -
  have "fst (purge_exact mem_ops 1 demo_manager cached_graph) = Inr 1" by code_simp
  then have "purge_exact mem_ops 1 demo_manager cached_graph =
      (Inr 1, fst (snd (purge_exact mem_ops 1 demo_manager cached_graph)),
       snd (snd (purge_exact mem_ops 1 demo_manager cached_graph)))"
    by (simp add: prod_eq_iff)
  from purge_keeps_newest [OF cached_graph_ok _ this, of "''p''"] show ?thesis by simp
qed

section \<open>Storing and looking up\<close>

text \<open>Over the in-memory repository no operation of the cache fails.\<close>

lemma mem_upsert_entry:
  "\<exists>n r'. op_upsert mem_ops now ''CacheEntry'' (entry_identity project key tool)
     (entry_properties stored repo commit binary args result confidence agent) r = (Inr n, r')"
proof -
  let ?id = "entry_identity project key tool"
    and ?ps = "entry_properties stored repo commit binary args result confidence agent"
  have no_id: "\<not> has_key (put_all ?ps (put_all ?id [])) ''id''"
    using plain_argsD(1-4) [OF plain_entry] by (intro no_id_in_merge) auto
  have "\<exists>n r'. upsert_locked now ''CacheEntry'' ?id ?ps r = (Inr n, r')" for r
  proof (cases "find_nodes_locked ''CacheEntry'' ?id r")
    case Nil
    then show ?thesis
      using no_id by (simp add: upsert_locked_def pget_fill_props next_id_def Let_def)
  next
    case (Cons n ns)
    then show ?thesis by (simp add: upsert_locked_def Let_def)
  qed
  moreover have "kind_ok ''CacheEntry''" by code_simp
  ultimately show ?thesis by (simp add: mem_ops_def upsert_node_def)
qed

lemma mem_purge: "\<exists>x c' r'. purge_exact mem_ops k c r = (Inr x, c', r')"
  by (auto simp: purge_exact_def mem_find mem_remove Let_def split: prod.split sum.split if_splits)

lemma mem_remove_found: "\<exists>k c' r'. remove_found mem_ops filters c r = (Inr k, c', r')"
  by (simp add: remove_found_def mem_find mem_remove Let_def)

lemma mem_store: "\<exists>c' r'. store_exact_cache mem_ops clk project repo commit binary tool args result confidence agent c r = (Inr (), c', r')"
proof -
  obtain n r1 where up: "op_upsert mem_ops (clk_nano clk) ''CacheEntry''
      (entry_identity project (call_key project repo commit binary tool args) tool)
      (entry_properties (clk_iso clk) repo commit binary args result confidence agent) r = (Inr n, r1)"
    using mem_upsert_entry by blast
  let ?c = "c\<lparr>cm_exact := cm_exact c + 1\<rparr>"
  obtain x c' r' where "purge_exact mem_ops (exact_limit ?c) ?c r1 = (Inr x, c', r')" using mem_purge by blast
  with up show ?thesis by (auto simp: store_exact_cache_def mem_find Let_def unit_res_def)
qed

lemma mem_check_exact:
  "\<exists>x c' r'. check_exact_cache mem_ops clk project repo commit binary tool args c r = (Inr x, c', r')"
  by (cases "find_nodes_locked ''CacheEntry'' (entry_identity project (call_key project repo commit binary tool args) tool) r")
    (simp_all add: check_exact_cache_def mem_find mem_remove Let_def)

lemma mem_check: "\<exists>x c' r'. check_cache mem_ops clk project repo commit binary tool args c r = (Inr x, c', r')"
proof -
  obtain y c2 r2 where "check_exact_cache mem_ops clk project repo commit binary tool args c r = (Inr y, c2, r2)"
    using mem_check_exact by blast
  then show ?thesis
    by (cases y; cases "semantic_answer project repo commit binary args c2") (simp_all add: check_cache_def)
qed

text \<open>
  Claim C17. A stored result is found: a store that does not reach the limit succeeds, and a
  lookup of the same call in the same scope then answers \<open>CACHE_HIT\<close> with the result and the
  confidence stored, whatever the clock, as long as no time to live is set.
\<close>

theorem stored_result_found:
  assumes "mem_ok r" "exact_on c" "\<not> ttl_enabled (cfg_ttl (cm_config c))"
    and "exact_limit c \<le> 0 \<or> cm_exact c < exact_limit c"
  shows "\<exists>c1 r1 x c2.
    store_cache mem_ops clk project repo commit binary tool args result confidence agent c r = (Inr (), c1, r1) \<and>
    check_cache mem_ops clk' project repo commit binary tool args c1 r1 = (Inr x, c2, r1) \<and>
    lr_status x = ''CACHE_HIT'' \<and> lr_result x = Some (case result of None \<Rightarrow> [] | Some m \<Rightarrow> m) \<and>
    lr_confidence x = confidence \<and> exact_hits (cm_stats c2) = exact_hits (cm_stats c1) + 1"
proof -
  obtain c1 r1 where store: "store_exact_cache mem_ops clk project repo commit binary tool args result confidence agent c r = (Inr (), c1, r1)"
    using mem_store by blast
  have "cm_config c1 = cm_config c"
    using assms(4) store by (auto simp: store_exact_cache_def Let_def exact_limit_def
        split: prod.splits sum.splits if_splits)
  then have on: "exact_on c1" "cfg_enabled (cm_config c1)" using assms(2) by (simp_all add: exact_on_def)
  obtain y c3 r3 where exact: "check_exact_cache mem_ops clk' project repo commit binary tool args c1 r1 = (Inr y, c3, r3)"
    using mem_check_exact by blast
  from mem.check_after_store [OF assms store exact] obtain e where
    e: "y = Some e" "ce_result e = Some (case result of None \<Rightarrow> [] | Some m \<Rightarrow> m)"
      "ce_confidence e = confidence" "ce_freshness e = ''VALID''" "c3 = c1"
    by blast
  have "r3 = r1"
    using exact on e(1,4) by (auto simp: check_exact_cache_def mem_find mem_remove Let_def stale_entry_def
        split: list.splits if_splits)
  with store on exact e show ?thesis
    by (auto simp: store_cache_def check_cache_def lookup_hit_def increment_stat_def count_stat_def)
qed

lemma stored_result_found_witness:
  "\<exists>c1 r1 x c2.
    store_cache mem_ops demo_clock ''p'' [] [] [] ''ask'' None (Some [(''answer'', VInt 42)]) (Fin 1) ''me''
      demo_manager demo_graph = (Inr (), c1, r1) \<and>
    check_cache mem_ops demo_clock ''p'' [] [] [] ''ask'' None c1 r1 = (Inr x, c2, r1) \<and>
    lr_result x = Some [(''answer'', VInt 42)]"
proof -
  have "mem_ok demo_graph" unfolding demo_graph_def by (rule mem_ok_new) (rule inj_demo_ids)
  moreover have "exact_on demo_manager" "\<not> ttl_enabled (cfg_ttl (cm_config demo_manager))"
    "exact_limit demo_manager \<le> 0 \<or> cm_exact demo_manager < exact_limit demo_manager"
    by code_simp+
  ultimately show ?thesis
    using stored_result_found [of demo_graph demo_manager demo_clock "''p''" "[]" "[]" "[]" "''ask''" None
        "Some [(''answer'', VInt 42)]" "Fin 1" "''me''" demo_clock] by fastforce
qed

text \<open>
  Claim C18. What is stored as a project's privacy policy is read back, and so is its
  pseudonym snapshot.
\<close>

theorem special_entries_roundtrip:
  assumes "mem_ok r" "cfg_enabled (cm_config c)"
  shows "(\<exists>c1 r1. store_privacy_policy mem_ops clk project content c r = (Inr (), c1, r1) \<and>
      get_privacy_policy mem_ops project c1 r1 = (Inr content, r1)) \<and>
    (\<exists>c1 r1. store_pseudonym_snapshot mem_ops clk project content c r = (Inr (), c1, r1) \<and>
      get_pseudonym_snapshot mem_ops project c1 r1 = (Inr content, r1))"
proof -
  have "\<exists>c1 r1. store_special mem_ops clk special field project content c r = (Inr (), c1, r1) \<and>
      get_special mem_ops special field project c1 r1 = (Inr content, r1)" for special field
  proof -
    obtain n r1 where up: "op_upsert mem_ops (clk_nano clk) ''CacheEntry'' (entry_identity project special special)
        (entry_properties (clk_iso clk) [] [] [] None (Some [(field, VStr content)]) (Fin 1) ''privacy_service'') r = (Inr n, r1)"
      using mem_upsert_entry by blast
    then have store: "store_special mem_ops clk special field project content c r = (Inr (), c, r1)"
      using assms(2) by (simp add: store_special_def)
    obtain got where get: "get_special mem_ops special field project c r1 = (Inr got, r1)"
      using assms(2) by (cases "find_nodes_locked ''CacheEntry'' (entry_identity project special special) r1")
        (simp_all add: get_special_def mem_find)
    with store mem.special_roundtrip [OF assms store get] show ?thesis by blast
  qed
  then show ?thesis
    unfolding store_privacy_policy_def get_privacy_policy_def store_pseudonym_snapshot_def get_pseudonym_snapshot_def
    by blast
qed

lemma special_entries_roundtrip_witness:
  "\<exists>c1 r1. store_privacy_policy mem_ops demo_clock ''p'' ''mask'' demo_manager demo_graph = (Inr (), c1, r1) \<and>
     get_privacy_policy mem_ops ''p'' c1 r1 = (Inr ''mask'', r1)"
proof -
  have "mem_ok demo_graph" unfolding demo_graph_def by (rule mem_ok_new) (rule inj_demo_ids)
  moreover have "cfg_enabled (cm_config demo_manager)" by code_simp
  ultimately show ?thesis using special_entries_roundtrip [of demo_graph demo_manager demo_clock "''p''" "''mask''"] by blast
qed

text \<open>
  A stale entry is counted twice: a lookup that finds one expired removes it from
  the graph, answers \<open>STALE\<close>, and raises \<open>stale_hits\<close> by two.
\<close>

theorem stale_counted_twice:
  assumes "mem_ok r" "exact_on c"
    and "find_nodes_locked ''CacheEntry''
      (entry_identity project (call_key project repo commit binary tool args) tool) r = n # older"
    and "\<not> is_fresh clk (cm_config c) (unmarshal_cache_entry n)"
    and "check_cache mem_ops clk project repo commit binary tool args c r = (x, c', r')"
  shows "x = Inr (lookup_status ''STALE'' (Some stale_entry)) \<and>
    stale_hits (cm_stats c') = stale_hits (cm_stats c) + 2 \<and> nodes_view r' (node_id n) = None"
proof -
  obtain c2 where check: "check_exact_cache mem_ops clk project repo commit binary tool args c r =
      (Inr (Some stale_entry), c2, snd (remove_nodes [node_id n] r))"
    "stale_hits (cm_stats c2) = stale_hits (cm_stats c) + 1" "cm_config c2 = cm_config c"
    using assms(2-4) by (simp add: check_exact_cache_def mem_find mem_remove Let_def
        forget_exact_def increment_stat_def count_stat_def)
  have "nodes_view r' (node_id n) = None"
    if "r' = snd (remove_nodes [node_id n] r)"
    using that map_of_remove_nodes [of "[node_id n]" r] by simp
  with assms(2,5) check show ?thesis
    by (auto simp: check_cache_def exact_on_def stale_entry_def increment_stat_def count_stat_def)
qed

text \<open>The first cached node of \<^const>\<open>cached_graph\<close> made stale, under the key of a call.\<close>

definition stale_graph :: mem_repo where
  "stale_graph = (new_memory_repo demo_ids)
     \<lparr>nodes := [(''a'', \<lparr>node_id = ''a'', node_kind = ''CacheEntry'',
        node_props = [(''cache_key'', VStr (call_key ''p'' [] [] [] ''ask'' None)), (''freshness'', VStr ''STALE''),
          (''project_id'', VStr ''p''), (''tool_name'', VStr ''ask'')]\<rparr>)]\<rparr>"

lemma stale_counted_twice_witness:
  "\<exists>x c' r'. check_cache mem_ops demo_clock ''p'' [] [] [] ''ask'' None demo_manager stale_graph = (x, c', r') \<and>
     stale_hits (cm_stats c') = stale_hits (cm_stats demo_manager) + 2"
proof -
  let ?n = "snd (hd (nodes stale_graph))"
  have "mem_ok stale_graph"
    by (auto simp: mem_ok_def stale_graph_def new_memory_repo_def canonical_def inj_demo_ids future_def demo_ids_def)
  moreover have "exact_on demo_manager" by code_simp
  moreover have "find_nodes_locked ''CacheEntry''
      (entry_identity ''p'' (call_key ''p'' [] [] [] ''ask'' None) ''ask'') stale_graph = ?n # []"
    by (simp add: find_nodes_locked_def stale_graph_def new_memory_repo_def node_matches_def entry_identity_def pget_def)
  moreover have "\<not> is_fresh demo_clock (cm_config demo_manager) (unmarshal_cache_entry ?n)"
    by (simp add: is_fresh_def unmarshal_cache_entry_def stale_graph_def get_string_def pget_def)
  ultimately show ?thesis
    using stale_counted_twice [of stale_graph demo_manager "''p''" "[]" "[]" "[]" "''ask''" None ?n "[]" demo_clock]
    by (metis prod_cases3)
qed

section \<open>Two levels, one in use\<close>

text \<open>
  The semantic level never answers: nothing the manager does indexes an entry, so
  after any run of its operations, on any repository, a lookup is a hit, stale or a miss.
\<close>

theorem semantic_level_unused:
  assumes "manager_run G c r" "check_cache G clk project repo commit binary tool args c r = (Inr x, c', r')"
  shows "lr_status x \<in> {''CACHE_HIT'', ''STALE'', ''CACHE_MISS''}"
proof (cases "cfg_enabled (cm_config c)")
  case True
  then obtain y c2 r2 where exact: "check_exact_cache G clk project repo commit binary tool args c r = (Inr y, c2, r2)"
    using assms(2) by (auto simp: check_cache_def split: prod.splits sum.splits)
  have "cm_semantic c2 = cm_semantic c" using semantic_check_exact [OF exact] .
  then have "never_indexed c2" using manager_run_never_indexed [OF assms(1)] by (simp add: never_indexed_def)
  with assms(2) True exact show ?thesis
    by (auto simp: check_cache_def no_semantic_answer lookup_status_def lookup_hit_def
        split: option.splits if_splits)
next
  case False
  with assms(2) show ?thesis by (auto simp: check_cache_def lookup_status_def)
qed

lemma semantic_level_unused_witness:
  "\<exists>x c' r'. check_cache mem_ops demo_clock ''p'' [] [] [] ''ask'' (Some [(''query'', VStr ''parser'')]) demo_manager demo_graph =
     (Inr x, c', r') \<and> lr_status x \<in> {''CACHE_HIT'', ''STALE'', ''CACHE_MISS''}"
proof -
  have run: "manager_run mem_ops demo_manager demo_graph"
    by (rule manager_run.start [of _ demo_config demo_graph])
      (simp add: demo_manager_def new_cache_manager_def mem_find demo_config_def)
  obtain x c' r' where "check_cache mem_ops demo_clock ''p'' [] [] [] ''ask'' (Some [(''query'', VStr ''parser'')])
      demo_manager demo_graph = (Inr x, c', r')"
    using mem_check by blast
  with semantic_level_unused [OF run this] show ?thesis by blast
qed

section \<open>Invalidation\<close>

lemma get_string_filter:
  "node_matches ''CacheEntry'' [(''project_id'', VStr p)] n \<longleftrightarrow>
   node_kind n = ''CacheEntry'' \<and> pget (node_props n) ''project_id'' = VStr p"
  by (auto simp: node_matches_iff)

text \<open>
  Claim C19. \<open>Invalidate\<close> does not look at the commit, binary, file or artifact it is given: a
  request that names a project and one of those removes every cache entry of the project, the
  privacy policy among them, while \<open>InvalidateByCommit\<close> removes those of the commit only.
\<close>

theorem invalidate_takes_project:
  assumes "mem_ok r" "ia_project a = p" "ia_key a = []" "ia_id a = []" "ia_tool a = []"
    and "nodes_view r i = Some n"
  shows "(nodes_view (snd (snd (invalidate mem_ops a c r))) i = None \<longleftrightarrow>
      node_kind n = ''CacheEntry'' \<and> pget (node_props n) ''project_id'' = VStr p) \<and>
    (nodes_view (snd (snd (invalidate_by_commit mem_ops p commit c r))) i = None \<longleftrightarrow>
      node_kind n = ''CacheEntry'' \<and> pget (node_props n) ''project_id'' = VStr p \<and>
      pget (node_props n) ''git_commit'' = VStr commit)"
proof -
  have gone: "nodes_view (snd (snd (unit_res (remove_found mem_ops filters c r)))) i = None \<longleftrightarrow>
      node_matches ''CacheEntry'' filters n" for filters
  proof -
    obtain k c' r' where rem: "remove_found mem_ops filters c r = (Inr k, c', r')" using mem_remove_found by blast
    from mem.remove_found_ok [OF assms(1) this]
    have "nodes_view r' = nodes_view r |` (- node_id ` matching (nodes_view r) ''CacheEntry'' filters)" by blast
    moreover have "i \<in> node_id ` matching (nodes_view r) ''CacheEntry'' filters \<longleftrightarrow> node_matches ''CacheEntry'' filters n"
      using assms(6) mem_okD(4) [OF assms(1)] unfolding matching_def by force
    ultimately show ?thesis using assms(6) rem by (simp add: unit_res_def restrict_map_def)
  qed
  have "invalidate_filters a = [(''project_id'', VStr p)]"
    using assms(2-5) by (simp add: invalidate_filters_def)
  then show ?thesis
    unfolding invalidate_def invalidate_by_commit_def gone by (auto simp: node_matches_iff)
qed

lemma invalidate_takes_project_witness:
  "nodes_view (snd (snd (invalidate mem_ops
     \<lparr>ia_project = ''p'', ia_key = [], ia_id = [], ia_tool = [], ia_commit = ''c0ffee'', ia_binary = [],
      ia_source_file = [], ia_artifact = []\<rparr> demo_manager cached_graph))) ''a'' = None \<and>
   nodes_view (snd (snd (invalidate_by_commit mem_ops ''p'' ''c0ffee'' demo_manager cached_graph))) ''a'' \<noteq> None"
  using invalidate_takes_project [OF cached_graph_ok, of
      "\<lparr>ia_project = ''p'', ia_key = [], ia_id = [], ia_tool = [], ia_commit = ''c0ffee'', ia_binary = [],
      ia_source_file = [], ia_artifact = []\<rparr>" "''p''" "''a''" "cached_node ''a'' ''2026-01-01''" demo_manager "''c0ffee''"]
  by (simp add: cached_graph_def new_memory_repo_def cached_node_def pget_def)

text \<open>
  Removing special entries spoils the counter: when a flush or an invalidation hits a
  privacy entry beside cached results and other results stay, the counter ends below the
  number of cached results, and later stores overrun the limit by the difference.
\<close>

theorem flush_miscounts:
  assumes "mem_ok r" "cm_exact c = int (card (exact_nodes (nodes_view r)))"
    and "n \<in> matching (nodes_view r) ''CacheEntry'' [(''project_id'', VStr project)]" "is_special_cache_entry n"
    and "m \<in> exact_nodes (nodes_view r)" "pget (node_props m) ''project_id'' \<noteq> VStr project"
  shows "cm_exact (fst (snd (flush mem_ops project c r))) <
    int (card (exact_nodes (nodes_view (snd (snd (flush mem_ops project c r))))))"
proof -
  let ?filters = "[(''project_id'', VStr project)]"
  let ?gone = "matching (nodes_view r) ''CacheEntry'' ?filters" and ?all = "exact_nodes (nodes_view r)"
  obtain k c' r' where rem: "remove_found mem_ops ?filters c r = (Inr k, c', r')" using mem_remove_found by blast
  note ok = mem.remove_found_ok [OF assms(1) rem]
  have fin: "finite ?gone" "finite ?all" using ok new_manager_count [OF assms(1)] by auto
  have stays: "x \<in> ?all \<and> node_id x \<notin> node_id ` ?gone \<longleftrightarrow> x \<in> ?all - ?gone" for x
    using mem.matching_ids [OF assms(1), of x] by blast
  have left: "exact_nodes (nodes_view r') = ?all - ?gone"
    using mem.exact_restricted [OF assms(1), of r' "node_id ` ?gone"] ok stays by blast
  have "?all \<inter> ?gone \<subset> ?gone" using assms(3,4) by (auto simp: exact_nodes_def)
  then have less: "card (?all \<inter> ?gone) < card ?gone" using fin psubset_card_mono by metis
  have "m \<in> ?all - ?gone" using assms(5,6) by (auto simp: matching_def node_matches_iff)
  then have pos: "0 < card (?all - ?gone)" using fin by (auto simp: card_gt_0_iff)
  have "card ?all = card (?all - ?gone) + card (?all \<inter> ?gone)"
    using fin by (metis Int_commute card_Diff_subset_Int card_mono inf_le1 le_add_diff_inverse2 finite_Int)
  with less pos ok assms(2) have "cm_exact c' < int (card (?all - ?gone))" by auto
  with rem left show ?thesis by (simp add: flush_def)
qed

definition mixed_graph :: mem_repo where
  "mixed_graph = (new_memory_repo demo_ids)
     \<lparr>nodes := [(''a'', \<lparr>node_id = ''a'', node_kind = ''CacheEntry'',
                     node_props = [(''project_id'', VStr ''q''), (''tool_name'', VStr privacy_policy_key)]\<rparr>),
                (''b'', cached_node ''b'' ''2026-01-02'')]\<rparr>"

lemma flush_miscounts_witness:
  "cm_exact (fst (snd (flush mem_ops ''q'' (demo_manager\<lparr>cm_exact := 1\<rparr>) mixed_graph))) <
     int (card (exact_nodes (nodes_view (snd (snd (flush mem_ops ''q'' (demo_manager\<lparr>cm_exact := 1\<rparr>) mixed_graph))))))"
proof (rule flush_miscounts)
  let ?policy = "snd (hd (nodes mixed_graph))" and ?result = "cached_node ''b'' ''2026-01-02''"
  show ok: "mem_ok mixed_graph"
    by (auto simp: mem_ok_def mixed_graph_def new_memory_repo_def cached_node_def canonical_def inj_demo_ids
        future_def demo_ids_def)
  have "length (filter (\<lambda>n. \<not> is_special_cache_entry n) (find_nodes_locked ''CacheEntry'' [] mixed_graph)) = 1"
    by code_simp
  with new_manager_count [OF ok]
  show "cm_exact (demo_manager\<lparr>cm_exact := 1\<rparr>) = int (card (exact_nodes (nodes_view mixed_graph)))" by simp
  show "?policy \<in> matching (nodes_view mixed_graph) ''CacheEntry'' [(''project_id'', VStr ''q'')]"
    by (simp add: matching_def node_matches_def mixed_graph_def new_memory_repo_def pget_def exI [of _ "''a''"])
  show "is_special_cache_entry ?policy" by code_simp
  show "?result \<in> exact_nodes (nodes_view mixed_graph)"
    by (simp add: exact_nodes_def matching_def node_matches_def mixed_graph_def new_memory_repo_def cached_node_def
        is_special_cache_entry_def get_string_def pget_def special_tool_def privacy_state_key_def
        privacy_policy_key_def pseudonym_snapshot_key_def exI [of _ "''b''"])
  show "pget (node_props ?result) ''project_id'' \<noteq> VStr ''q''" by (simp add: cached_node_def pget_def)
qed

section \<open>Keys\<close>

text \<open>
  The key of a call does not depend on the argument \<open>project_id\<close>; but the fields are
  joined without escaping, so a separator inside one moves the boundary: different commits
  and binaries share a key, and so do different argument maps.
\<close>

theorem cache_key_collisions:
  "call_key project repo commit binary tool (Some (put ''project_id'' v [])) =
     call_key project repo commit binary tool (Some []) \<and>
   call_key project repo (x @ ''|'' @ y) z tool args = call_key project repo x (y @ ''|'' @ z) tool args \<and>
   call_key project repo commit binary tool (Some [(''a'', VInt 1), (''b'', VInt 2)]) =
     call_key project repo commit binary tool (Some [(''a=1&b'', VInt 2)])"
proof -
  have "nat_str 1 = ''1''" "nat_str 2 = ''2''" by code_simp+
  then show ?thesis
    by (simp add: call_key_def generate_cache_key_def key_text_def normalize_args_def itoa_def)
qed

end
