(* ===== verification/Pseudonyms.thy ===== *)
theory Pseudonyms
  imports GoStrings
begin

text \<open>
  \<open>internal/privacy/pseudonymizer.go\<close>: the table of a project's pseudonyms. The maps are
  stores whose list order is the order a range loop visits them in.
\<close>

section \<open>The table\<close>

record pseudonymizer =
  name_to_token :: "string store"
  token_to_name :: "string store"
  counters :: "nat store"

definition new_pseudonymizer :: pseudonymizer where
  "new_pseudonymizer = \<lparr>name_to_token = [], token_to_name = [], counters = []\<rparr>"

definition token_of :: "string \<Rightarrow> nat \<Rightarrow> string" where
  "token_of kind n = kind @ ''_'' @ nat_str n"

definition pseudonymize :: "string \<Rightarrow> string \<Rightarrow> pseudonymizer \<Rightarrow> string \<times> pseudonymizer" where
  "pseudonymize name kind p =
     (case map_of (name_to_token p) name of
        Some token \<Rightarrow> (token, p)
      | None \<Rightarrow>
          (let n = (case map_of (counters p) kind of None \<Rightarrow> 0 | Some k \<Rightarrow> k) + 1;
               token = token_of kind n
           in (token, p\<lparr>counters := AList.update kind n (counters p),
                        name_to_token := AList.update name token (name_to_token p),
                        token_to_name := AList.update token name (token_to_name p)\<rparr>)))"

definition resolve :: "string \<Rightarrow> pseudonymizer \<Rightarrow> string option" where
  "resolve token p = map_of (token_to_name p) token"

definition resolve_all :: "pseudonymizer \<Rightarrow> string store" where
  "resolve_all p = token_to_name p"

text \<open>
  A snapshot holds copies of the three maps; in one read back a map can be missing (nil), and
  \<open>Restore\<close> puts an empty map there. The snapshot itself can be nil.
\<close>

record pseudonym_snapshot =
  snap_names :: "string store option"
  snap_tokens :: "string store option"
  snap_counters :: "nat store option"

definition pseudonym_snapshot_of :: "pseudonymizer \<Rightarrow> pseudonym_snapshot" where
  "pseudonym_snapshot_of p =
     \<lparr>snap_names = Some (name_to_token p), snap_tokens = Some (token_to_name p),
      snap_counters = Some (counters p)\<rparr>"

definition restore :: "pseudonym_snapshot option \<Rightarrow> pseudonymizer \<Rightarrow> pseudonymizer" where
  "restore snap p =
     (case snap of
        None \<Rightarrow> p
      | Some s \<Rightarrow> \<lparr>name_to_token = (case snap_names s of None \<Rightarrow> [] | Some m \<Rightarrow> m),
                   token_to_name = (case snap_tokens s of None \<Rightarrow> [] | Some m \<Rightarrow> m),
                   counters = (case snap_counters s of None \<Rightarrow> [] | Some m \<Rightarrow> m)\<rparr>)"

text \<open>Longer names are replaced first; names of one length in any order, here that of the map.\<close>

definition pseudonymize_text :: "string \<Rightarrow> pseudonymizer \<Rightarrow> string" where
  "pseudonymize_text content p =
     fold (\<lambda>name result. replace_all result name
             (case map_of (name_to_token p) name of None \<Rightarrow> [] | Some t \<Rightarrow> t))
       (sort_by (\<lambda>a b. length b < length a) (keys (name_to_token p))) content"

section \<open>Tokens\<close>

text \<open>The last underscore separates the kind from the number.\<close>

lemma token_of_inj: "token_of k n = token_of k' n' \<longleftrightarrow> k = k' \<and> n = n'"
proof
  have split: "dropWhile (\<lambda>c. c \<noteq> CHR ''_'') (rev (token_of k n)) = CHR ''_'' # rev k"
    "takeWhile (\<lambda>c. c \<noteq> CHR ''_'') (rev (token_of k n)) = rev (nat_str n)" for k n
    using nat_str_digits [of n] digit_not_underscore
    by (auto simp: token_of_def list_all_iff dropWhile_append takeWhile_append)
  assume "token_of k n = token_of k' n'"
  then have "rev k = rev k'" "rev (nat_str n) = rev (nat_str n')"
    using split [of k n] split [of k' n'] by (metis list.inject, metis)
  then show "k = k' \<and> n = n'" by (simp add: nat_str_inj)
qed simp

section \<open>The table is a bijection\<close>

definition counter :: "pseudonymizer \<Rightarrow> string \<Rightarrow> nat" where
  "counter p kind = (case map_of (counters p) kind of None \<Rightarrow> 0 | Some k \<Rightarrow> k)"

definition table_ok :: "pseudonymizer \<Rightarrow> bool" where
  "table_ok p \<longleftrightarrow>
     (\<forall>name token. map_of (name_to_token p) name = Some token \<longleftrightarrow> map_of (token_to_name p) token = Some name) \<and>
     (\<forall>token name. map_of (token_to_name p) token = Some name \<longrightarrow>
        (\<exists>kind n. token = token_of kind n \<and> n \<le> counter p kind))"

lemma pseudonymize_new:
  fixes kind :: string
  assumes "map_of (name_to_token p) name = None"
  defines "t \<equiv> token_of kind (counter p kind + 1)"
  shows "pseudonymize name kind p = (t, p\<lparr>counters := AList.update kind (counter p kind + 1) (counters p),
      name_to_token := AList.update name t (name_to_token p),
      token_to_name := AList.update t name (token_to_name p)\<rparr>)"
  using assms by (simp add: pseudonymize_def counter_def Let_def)

lemma table_ok_pseudonymize:
  assumes ok: "table_ok p"
  shows "table_ok (snd (pseudonymize name kind p))"
proof (cases "map_of (name_to_token p) name")
  case (Some token)
  with ok show ?thesis by (simp add: pseudonymize_def)
next
  case None
  let ?t = "token_of kind (counter p kind + 1)"
  have fresh: "map_of (token_to_name p) ?t = None"
  proof (rule ccontr)
    assume "map_of (token_to_name p) ?t \<noteq> None"
    then obtain m where "map_of (token_to_name p) ?t = Some m" by auto
    with ok obtain k n where "?t = token_of k n" "n \<le> counter p k" unfolding table_ok_def by blast
    then show False by (auto simp: token_of_inj)
  qed
  note inv = ok [unfolded table_ok_def, THEN conjunct1] ok [unfolded table_ok_def, THEN conjunct2]
  let ?p = "snd (pseudonymize name kind p)"
  have tables: "map_of (name_to_token ?p) = (map_of (name_to_token p))(name \<mapsto> ?t)"
    "map_of (token_to_name ?p) = (map_of (token_to_name p))(?t \<mapsto> name)"
    and count: "counter ?p k = (if k = kind then counter p kind + 1 else counter p k)" for k
    by (simp_all add: pseudonymize_new [OF None] counter_def)
  have "map_of (name_to_token ?p) m = Some t \<longleftrightarrow> map_of (token_to_name ?p) t = Some m" for m t
    using inv(1) [THEN spec, THEN spec, of m t] None fresh unfolding tables by (cases "m = name"; cases "t = ?t") auto
  moreover have "\<exists>k n. t = token_of k n \<and> n \<le> counter ?p k" if "map_of (token_to_name ?p) t = Some m" for m t
  proof (cases "t = ?t")
    case True
    then show ?thesis using count [of kind] by (intro exI [of _ kind] exI [of _ "counter p kind + 1"]) simp
  next
    case False
    with that inv(2) obtain k n where "t = token_of k n" "n \<le> counter p k" unfolding tables by auto
    then show ?thesis using count [of k] by (intro exI [of _ k] exI [of _ n]) (auto split: if_splits)
  qed
  ultimately show ?thesis unfolding table_ok_def by blast
qed

inductive pseudonym_run :: "pseudonymizer \<Rightarrow> bool" where
  new: "pseudonym_run new_pseudonymizer"
| pseudonymized: "pseudonym_run p \<Longrightarrow> pseudonym_run (snd (pseudonymize name kind p))"
| restored: "pseudonym_run p \<Longrightarrow> pseudonym_run q \<Longrightarrow> pseudonym_run (restore (Some (pseudonym_snapshot_of q)) p)"

lemma restore_snapshot: "restore (Some (pseudonym_snapshot_of q)) p = q"
  by (simp add: restore_def pseudonym_snapshot_of_def)

lemma pseudonym_run_ok: "pseudonym_run p \<Longrightarrow> table_ok p"
proof (induction rule: pseudonym_run.induct)
  case new
  show ?case by (simp add: table_ok_def new_pseudonymizer_def)
next
  case (pseudonymized p name kind)
  then show ?case by (intro table_ok_pseudonymize)
next
  case (restored p q)
  then show ?case by (simp add: restore_snapshot)
qed

text \<open>
  Claim C22. Pseudonyms are stable and reversible: after any run of pseudonymisations, whatever
  the kinds, and of restarts from snapshots, the token of a name resolves back to that name,
  no other name has it, and the name keeps its token through later pseudonymisations of any
  names and through a snapshot and restore.
\<close>

theorem pseudonyms_reversible:
  assumes "pseudonym_run p" "pseudonymize name kind p = (token, p1)"
  shows "resolve token p1 = Some name \<and>
    (\<forall>other. map_of (name_to_token p1) other = Some token \<longrightarrow> other = name) \<and>
    fst (pseudonymize name kind' (snd (pseudonymize other kind'' p1))) = token \<and>
    fst (pseudonymize name kind' (restore (Some (pseudonym_snapshot_of p1)) p2)) = token"
proof -
  have ok: "table_ok p1" using table_ok_pseudonymize [OF pseudonym_run_ok [OF assms(1)], of name kind] assms(2) by simp
  have here: "map_of (name_to_token p1) name = Some token"
    using assms(2) by (auto simp: pseudonymize_def Let_def split: option.splits)
  with ok have there: "map_of (token_to_name p1) token = Some name" by (simp add: table_ok_def)
  have "map_of (name_to_token (snd (pseudonymize other kind'' p1))) name = Some token"
    using here by (cases "map_of (name_to_token p1) other")
      (auto simp: pseudonymize_new, simp add: pseudonymize_def)
  then have "fst (pseudonymize name kind' (snd (pseudonymize other kind'' p1))) = token"
    by (simp add: pseudonymize_def)
  moreover have "other' = name" if "map_of (name_to_token p1) other' = Some token" for other'
    using that ok there unfolding table_ok_def by (metis option.inject)
  moreover have "resolve token p1 = Some name" using there by (simp add: resolve_def)
  moreover have "fst (pseudonymize name kind' (restore (Some (pseudonym_snapshot_of p1)) p2)) = token"
    using here by (simp add: restore_snapshot pseudonymize_def)
  ultimately show ?thesis by blast
qed

lemma pseudonyms_reversible_witness:
  "resolve (fst (pseudonymize ''login'' ''FUNC'' new_pseudonymizer)) (snd (pseudonymize ''login'' ''FUNC'' new_pseudonymizer)) =
     Some ''login''"
  using pseudonyms_reversible [OF pseudonym_run.new, of "''login''" "''FUNC''"] by (simp add: prod_eq_iff)

text \<open>
  Text replacement does not respect tokens or words: with the names \<open>parser\<close> and
  \<open>FUNC\<close> known, the token put in for the first is rewritten by the second and no longer
  resolves, and a name is replaced inside a longer word.
\<close>

theorem text_tokens_rewritten:
  "let p = snd (pseudonymize ''FUNC'' ''VAR'' (snd (pseudonymize ''parser'' ''FUNC'' new_pseudonymizer)))
   in pseudonymize_text ''parser'' p = ''VAR_1_1'' \<and> resolve ''VAR_1_1'' p = None \<and>
      pseudonymize_text ''parsers'' p = ''VAR_1_1s''"
  by code_simp

end
