(* ===== verification/Privacy.thy ===== *)
theory Privacy
  imports Pseudonyms GoRegexp
begin

text \<open>
  \<open>internal/privacy\<close>: the policy, the classifier of content, the redactor and the firewall
  that outbound context passes through. Modes, risks and kinds are strings, as they are in
  the code, so a policy can carry a mode no constant names. Text is ASCII. The time stamp of a
  firewall result is an argument.
\<close>

section \<open>Modes\<close>

definition mode_full :: string where "mode_full = ''FULL''"
definition mode_minimal :: string where "mode_minimal = ''MINIMAL''"
definition mode_masked :: string where "mode_masked = ''MASKED''"
definition mode_structural :: string where "mode_structural = ''STRUCTURAL''"
definition mode_abstract :: string where "mode_abstract = ''ABSTRACT''"
definition mode_local_only :: string where "mode_local_only = ''LOCAL_ONLY''"

text \<open>Lookups in the two maps; a mode that is no key reads as the zero value.\<close>

definition mode_disclosure :: "string \<Rightarrow> int" where
  "mode_disclosure m =
     (if m = mode_full then 5 else if m = mode_minimal then 3 else if m = mode_masked then 2
      else if m = mode_structural then 1 else if m = mode_abstract then 2 else 0)"

definition mode_risk :: "string \<Rightarrow> string" where
  "mode_risk m =
     (if m = mode_full then ''HIGH''
      else if m \<in> {mode_minimal, mode_masked, mode_abstract} then ''MEDIUM''
      else if m \<in> {mode_structural, mode_local_only} then ''LOW'' else [])"

definition parse_mode :: "string \<Rightarrow> string res" where
  "parse_mode s =
     (let t = to_lower s
      in if t \<in> {[], ''full''} then Inr mode_full
         else if t = ''minimal'' then Inr mode_minimal
         else if t = ''masked'' then Inr mode_masked
         else if t = ''structural'' then Inr mode_structural
         else if t = ''abstract'' then Inr mode_abstract
         else if t \<in> {''local_only'', ''local-only'', ''localonly''} then Inr mode_local_only
         else Inl (ErrMsg (''unknown privacy mode: '' @ s)))"

section \<open>Policies\<close>

record provider_policy =
  provider_name :: string
  provider_max_tokens :: int
  provider_modes :: "string list"
  provider_sanitizes :: bool

record privacy_policy =
  pol_project :: string
  pol_mode :: string
  allowed_identifiers :: "string list"
  forbidden_identifiers :: "string list"
  allowed_paths :: "string list"
  forbidden_paths :: "string list"
  allowed_literals :: "string list"
  forbidden_literals :: "string list"
  allow_comments :: bool
  allow_git_history :: bool
  allow_strings :: bool
  allow_binary_strings :: bool
  allow_exact_source :: bool
  max_source_bytes :: int
  max_context_tokens :: int
  pol_risk :: string
  pol_provider :: "provider_policy option"
  pol_created :: string
  pol_updated :: string

definition default_policy :: "string \<Rightarrow> string \<Rightarrow> privacy_policy" where
  "default_policy now project =
     \<lparr>pol_project = project, pol_mode = mode_full, allowed_identifiers = [], forbidden_identifiers = [],
      allowed_paths = [], forbidden_paths = [], allowed_literals = [], forbidden_literals = [],
      allow_comments = False, allow_git_history = False, allow_strings = False,
      allow_binary_strings = False, allow_exact_source = False, max_source_bytes = 512,
      max_context_tokens = 4096, pol_risk = ''HIGH'', pol_provider = None, pol_created = now,
      pol_updated = now\<rparr>"

definition validate_policy :: "privacy_policy \<Rightarrow> unit res" where
  "validate_policy p =
     (case parse_mode (pol_mode p) of
        Inl e \<Rightarrow> Inl e
      | Inr _ \<Rightarrow>
          (if max_source_bytes p < 0 then Inl (ErrMsg ''max_source_bytes must be >= 0'')
           else if max_context_tokens p < 0 then Inl (ErrMsg ''max_context_tokens must be >= 0'')
           else Inr ()))"

definition allows_source :: "privacy_policy \<Rightarrow> bool" where
  "allows_source p \<longleftrightarrow> allow_exact_source p \<and> pol_mode p \<noteq> mode_local_only"

definition allows_strings :: "privacy_policy \<Rightarrow> bool" where
  "allows_strings p \<longleftrightarrow> allow_strings p \<and> pol_mode p \<noteq> mode_local_only"

definition is_identifier_allowed :: "privacy_policy \<Rightarrow> string \<Rightarrow> bool" where
  "is_identifier_allowed p i = list_ex (\<lambda>a. a = i) (allowed_identifiers p)"

definition is_identifier_forbidden :: "privacy_policy \<Rightarrow> string \<Rightarrow> bool" where
  "is_identifier_forbidden p i = list_ex (\<lambda>f. f = i) (forbidden_identifiers p)"

definition is_path_allowed :: "privacy_policy \<Rightarrow> string \<Rightarrow> bool" where
  "is_path_allowed p path = list_ex (\<lambda>a. has_prefix path a) (allowed_paths p)"

definition is_path_forbidden :: "privacy_policy \<Rightarrow> string \<Rightarrow> bool" where
  "is_path_forbidden p path = list_ex (\<lambda>f. has_prefix path f) (forbidden_paths p)"

definition is_literal_allowed :: "privacy_policy \<Rightarrow> string \<Rightarrow> bool" where
  "is_literal_allowed p l = list_ex (\<lambda>a. a = l) (allowed_literals p)"

definition is_literal_forbidden :: "privacy_policy \<Rightarrow> string \<Rightarrow> bool" where
  "is_literal_forbidden p l = list_ex (\<lambda>f. f = l) (forbidden_literals p)"

definition policy_disclosure :: "privacy_policy \<Rightarrow> int" where
  "policy_disclosure p = mode_disclosure (pol_mode p)"

definition policy_risk :: "privacy_policy \<Rightarrow> string" where
  "policy_risk p = (if pol_risk p \<noteq> [] then pol_risk p else mode_risk (pol_mode p))"

section \<open>The classifier\<close>

definition quote_cls :: re where
  "quote_cls = Cls False False [(CHR 0x22, CHR 0x22), (CHR 0x27, CHR 0x27)]"

text \<open>\<open>\s*[:=]\s*["']?\<close>\<close>

definition assignment :: re where
  "assignment = seq [Many True space_cls, Cls False False [(CHR '':'', CHR '':''), (CHR ''='', CHR ''='')],
     Many True space_cls, opt quote_cls]"

text \<open>\<open>[A-Za-z0-9_\-]\<close> and \<open>[A-Za-z0-9_\-\.]\<close>\<close>

definition key_cls :: re where
  "key_cls = Cls True False [(CHR ''A'', CHR ''Z''), (CHR ''a'', CHR ''z''), (CHR ''0'', CHR ''9''),
     (CHR ''_'', CHR ''_''), (CHR ''-'', CHR ''-'')]"

definition token_cls :: re where
  "token_cls = Cls True False [(CHR ''A'', CHR ''Z''), (CHR ''a'', CHR ''z''), (CHR ''0'', CHR ''9''),
     (CHR ''_'', CHR ''_''), (CHR ''-'', CHR ''-''), (CHR ''.'', CHR ''.'')]"

text \<open>\<open>[^"'\s]\<close>\<close>

definition unquoted_cls :: re where
  "unquoted_cls = Cls False True [(CHR 0x22, CHR 0x22), (CHR 0x27, CHR 0x27), (CHR 0x09, CHR 0x0A),
     (CHR 0x0C, CHR 0x0D), (CHR 0x20, CHR 0x20)]"

definition api_key_pattern :: re where
  "api_key_pattern = Then
     (Grp 1 (seq [lit_ci ''api'', opt (Cls False False [(CHR ''_'', CHR ''_''), (CHR ''-'', CHR ''-'')]),
                  lit_ci ''key'', assignment]))
     (Grp 2 (at_least 16 key_cls))"

definition password_pattern :: re where
  "password_pattern = Then (Grp 1 (Then (lit_ci ''password'') assignment)) (Grp 2 (at_least 8 unquoted_cls))"

definition token_pattern :: re where
  "token_pattern = Then (Grp 1 (Then (lit_ci ''token'') assignment)) (Grp 2 (at_least 16 token_cls))"

definition private_key_pattern :: re where
  "private_key_pattern = Grp 1 (seq [lit_ci ''-----BEGIN '',
     opt (Grp 2 (alts [lit_ci ''RSA '', lit_ci ''EC '', lit_ci ''DSA '', lit_ci ''OPENSSH ''])),
     lit_ci ''PRIVATE KEY-----''])"

definition aws_secret_pattern :: re where
  "aws_secret_pattern = Then (Grp 1 (Then (lit_ci ''aws_secret_access_key'') assignment))
     (Grp 2 (exactly 40 (Cls True False [(CHR ''A'', CHR ''Z''), (CHR ''a'', CHR ''z''), (CHR ''0'', CHR ''9''),
        (CHR ''/'', CHR ''/''), (CHR ''+'', CHR ''+''), (CHR ''='', CHR ''='')])))"

definition connection_pattern :: re where
  "connection_pattern = Grp 1 (seq
     [alts [lit_ci ''postgres'', lit_ci ''mysql'', lit_ci ''mongodb'', lit_ci ''redis''], lit_ci ''://'',
      some unquoted_cls])"

definition jwt_pattern :: re where
  "jwt_pattern = Grp 1 (seq [lit_ci ''eyJ'', at_least 10 key_cls, one (CHR ''.''), at_least 10 key_cls,
     one (CHR ''.''), at_least 10 key_cls])"

definition github_pattern :: re where
  "github_pattern = Grp 1 (seq [lit_ci ''gh'',
     Cls True False [(CHR ''p'', CHR ''p''), (CHR ''o'', CHR ''o''), (CHR ''u'', CHR ''u''),
       (CHR ''s'', CHR ''s''), (CHR ''r'', CHR ''r'')],
     one (CHR ''_''),
     at_least 20 (Cls True False [(CHR ''A'', CHR ''Z''), (CHR ''a'', CHR ''z''), (CHR ''0'', CHR ''9'')])])"

definition secret_patterns :: "(string \<times> re) list" where
  "secret_patterns =
     [(''api_key'', api_key_pattern), (''password'', password_pattern), (''token'', token_pattern),
      (''private_key'', private_key_pattern), (''aws_secret'', aws_secret_pattern),
      (''connection_string'', connection_pattern), (''jwt'', jwt_pattern), (''github_token'', github_pattern)]"

definition path_roots :: "string list" where
  "path_roots = [''home'', ''users'', ''root'', ''etc'', ''var'', ''tmp'', ''opt'', ''srv'', ''usr'', ''root'']"

definition path_pattern :: re where
  "path_pattern = seq [one (CHR ''/''), Grp 1 (alts (map lit_ci path_roots)), one (CHR ''/''),
     Many True unquoted_cls]"

definition is_secret :: "string \<Rightarrow> bool" where
  "is_secret content = list_ex (\<lambda>(_, p). match_string p content) secret_patterns"

definition is_path :: "string \<Rightarrow> bool" where
  "is_path content = match_string path_pattern content"

definition is_comment :: "string \<Rightarrow> bool" where
  "is_comment content = list_ex (has_prefix (trim_space content)) [''//'', ''#'', ''*'', ''/*'', ''--'', '';'']"

definition is_string_literal :: "string \<Rightarrow> bool" where
  "is_string_literal content =
     (let t = trim_space content
      in list_ex (\<lambda>q. has_prefix t [q] \<and> has_suffix t [q] \<and> 2 \<le> length t) [CHR 0x22, CHR 0x27, CHR 0x60])"

definition classify_content :: "string \<Rightarrow> string" where
  "classify_content content =
     (if is_secret content then ''literal'' else if is_path content then ''path''
      else if is_comment content then ''comment'' else if is_string_literal content then ''string''
      else ''source'')"

definition redaction_mark :: string where "redaction_mark = ''***REDACTED***''"

text \<open>One pattern: every match becomes its first group followed by the mark.\<close>

definition redact_match :: "re \<Rightarrow> string \<Rightarrow> string" where
  "redact_match p m =
     (case find_submatch p m of None \<Rightarrow> redaction_mark | Some f \<Rightarrow> submatch f 1 @ redaction_mark)"

definition redact_secrets :: "string \<Rightarrow> string" where
  "redact_secrets content = fold (\<lambda>(_, p). replace_all_func p (redact_match p)) secret_patterns content"

definition classify_symbol :: "string \<Rightarrow> string" where
  "classify_symbol name =
     (let t = trim_space name; starts = (\<lambda>ps. list_ex (has_prefix t) ps)
      in if contains t ''::'' \<or> contains t ''.'' then ''MODULE''
         else if starts [''type '', ''struct '', ''class '', ''interface ''] then ''TYPE''
         else if starts [''func '', ''fn '', ''def '', ''function ''] then ''FUNC''
         else if starts [''var '', ''let '', ''const '', ''val ''] then ''VAR''
         else if starts [''field_'', ''m_'', ''s_'', ''_''] then ''FIELD''
         else ''UNKNOWN'')"

section \<open>The redactor\<close>

record redaction_entry =
  red_position :: int
  red_length :: int
  red_original :: string
  red_reason :: string

record redaction_result =
  rr_original :: string
  rr_sanitized :: string
  rr_redactions :: "redaction_entry list"
  rr_kind :: string

definition because :: "string \<Rightarrow> redaction_entry" where
  "because reason = \<lparr>red_position = 0, red_length = 0, red_original = [], red_reason = reason\<rparr>"

definition redact_paths :: "string \<Rightarrow> string" where
  "redact_paths s = replace_all_string path_pattern ''***PATH***'' s"

definition redact :: "privacy_policy \<Rightarrow> string \<Rightarrow> redaction_result" where
  "redact p content =
     (let result = (\<lambda>s rs. \<lparr>rr_original = content, rr_sanitized = s, rr_redactions = rs,
                            rr_kind = classify_content content\<rparr>)
      in if pol_mode p = mode_local_only
         then result ''***LOCAL_ONLY***'' [because ''privacy mode is LOCAL_ONLY'']
         else
           (let s1 = redact_secrets content;
                rs1 = (if s1 \<noteq> content then [because ''secret detected''] else []);
                s2 = (if is_path_forbidden p content \<or> \<not> is_path_allowed p content then redact_paths s1 else s1);
                rs2 = (if s2 \<noteq> s1 then rs1 @ [because ''path not allowed''] else rs1)
            in if 0 < max_source_bytes p \<and> max_source_bytes p < int (length s2)
               then result (take (nat (max_source_bytes p)) s2 @ ''...'')
                      (rs2 @ [because ''max source bytes exceeded''])
               else result s2 rs2))"

definition redact_source :: "privacy_policy \<Rightarrow> pseudonymizer \<Rightarrow> string \<Rightarrow> redaction_result" where
  "redact_source p pseudos content =
     (let r = redact p content
      in if \<not> allows_source p
         then r\<lparr>rr_sanitized := ''***SOURCE_NOT_ALLOWED***'',
                rr_redactions := rr_redactions r @ [because ''exact source not permitted by policy'']\<rparr>
         else if pol_mode p = mode_masked \<or> pol_mode p = mode_abstract
         then r\<lparr>rr_sanitized := pseudonymize_text (rr_sanitized r) pseudos\<rparr>
         else r)"

definition is_allowed :: "privacy_policy \<Rightarrow> string \<Rightarrow> bool" where
  "is_allowed p content =
     (if pol_mode p = mode_local_only then False
      else if is_secret content \<and> \<not> allow_strings p then False else True)"

definition has_forbidden_path :: "privacy_policy \<Rightarrow> string \<Rightarrow> bool" where
  "has_forbidden_path p content = is_path_forbidden p content"

definition has_forbidden_identifier :: "privacy_policy \<Rightarrow> string \<Rightarrow> bool" where
  "has_forbidden_identifier p content = list_ex (contains content) (forbidden_identifiers p)"

section \<open>The firewall\<close>

record firewall =
  fw_policy :: privacy_policy
  fw_pseudos :: pseudonymizer

record firewall_result =
  fr_allowed :: bool
  fr_sanitized :: string
  fr_pseudonyms :: "string store"
  fr_redactions :: "redaction_entry list"
  fr_disclosure :: int
  fr_risk :: string
  fr_warnings :: "string list"
  fr_timestamp :: string

definition new_firewall :: "privacy_policy \<Rightarrow> firewall" where
  "new_firewall p = \<lparr>fw_policy = p, fw_pseudos = new_pseudonymizer\<rparr>"

definition new_firewall_with :: "privacy_policy \<Rightarrow> pseudonymizer option \<Rightarrow> firewall" where
  "new_firewall_with p pseudos =
     (case pseudos of None \<Rightarrow> new_firewall p | Some q \<Rightarrow> (new_firewall p)\<lparr>fw_pseudos := q\<rparr>)"

definition blank_result :: "string \<Rightarrow> privacy_policy \<Rightarrow> firewall_result" where
  "blank_result now p =
     \<lparr>fr_allowed = False, fr_sanitized = [], fr_pseudonyms = [], fr_redactions = [], fr_disclosure = policy_disclosure p,
      fr_risk = policy_risk p, fr_warnings = [], fr_timestamp = now\<rparr>"

text \<open>The cut to \<open>max_context_tokens\<close> words.\<close>

definition limit_tokens :: "int \<Rightarrow> string \<Rightarrow> string \<times> redaction_entry list" where
  "limit_tokens m s =
     (let tokens = GoStrings.fields s
      in if 0 < m \<and> m < int (length tokens)
         then (join '' '' (take (nat m) tokens) @ ''...'', [because ''max context tokens exceeded''])
         else (s, []))"

definition sanitize_context :: "string \<Rightarrow> firewall \<Rightarrow> string \<Rightarrow> firewall_result" where
  "sanitize_context now f content =
     (let p = fw_policy f; blank = blank_result now p
      in if pol_mode p = mode_local_only
         then blank\<lparr>fr_sanitized := ''***LOCAL_ONLY***'', fr_warnings := [''privacy mode is LOCAL_ONLY'']\<rparr>
         else if is_secret content
         then blank\<lparr>fr_sanitized := redact_secrets content, fr_redactions := [because ''secret detected''],
                    fr_warnings := [''secret detected - blocked'']\<rparr>
         else if has_forbidden_identifier p content
         then blank\<lparr>fr_sanitized := ''***FORBIDDEN_IDENTIFIER***'', fr_warnings := [''forbidden identifier present'']\<rparr>
         else if has_forbidden_path p content
         then blank\<lparr>fr_sanitized := ''***FORBIDDEN_PATH***'', fr_warnings := [''forbidden path present'']\<rparr>
         else
           (let r = redact p content;
                s = (if pol_mode p = mode_masked \<or> pol_mode p = mode_abstract
                     then pseudonymize_text (rr_sanitized r) (fw_pseudos f) else rr_sanitized r);
                (s', cut) = limit_tokens (max_context_tokens p) s
            in blank\<lparr>fr_allowed := True, fr_sanitized := s', fr_redactions := rr_redactions r @ cut\<rparr>))"

definition fw_pseudonymize :: "string \<Rightarrow> string \<Rightarrow> firewall \<Rightarrow> string \<times> firewall" where
  "fw_pseudonymize name kind f =
     (case pseudonymize name kind (fw_pseudos f) of (t, q) \<Rightarrow> (t, f\<lparr>fw_pseudos := q\<rparr>))"

definition abstract_content :: "string \<Rightarrow> firewall \<Rightarrow> string \<Rightarrow> firewall_result" where
  "abstract_content now f content =
     (let p = fw_policy f; blank = blank_result now p
      in if pol_mode p = mode_local_only then blank\<lparr>fr_sanitized := ''***LOCAL_ONLY***''\<rparr>
         else blank\<lparr>fr_allowed := True, fr_sanitized := redact_secrets (redact_paths content)\<rparr>)"

definition validate_context :: "string \<Rightarrow> firewall \<Rightarrow> string \<Rightarrow> bool" where
  "validate_context now f content = fr_allowed (sanitize_context now f content)"

record audit_entry =
  audit_destination :: string
  audit_allowed :: bool
  audit_disclosure :: int
  audit_risk :: string
  audit_warnings :: "string list"
  audit_redactions :: nat
  audit_timestamp :: string

definition audit_transmission :: "string \<Rightarrow> firewall \<Rightarrow> string \<Rightarrow> string \<Rightarrow> audit_entry" where
  "audit_transmission now f destination content =
     (let r = sanitize_context now f content
      in \<lparr>audit_destination = destination, audit_allowed = fr_allowed r, audit_disclosure = fr_disclosure r,
          audit_risk = fr_risk r, audit_warnings = fr_warnings r,
          audit_redactions = length (fr_redactions r), audit_timestamp = fr_timestamp r\<rparr>)"

end
