(* ===== verification/PrivacyProperties.thy ===== *)
theory PrivacyProperties
  imports Privacy
begin

text \<open>What the firewall lets through, and what the redactor leaves in the text.\<close>

section \<open>What a redaction leaves of a match\<close>

lemmas pattern_defs = api_key_pattern_def password_pattern_def token_pattern_def aws_secret_pattern_def
  private_key_pattern_def connection_pattern_def jwt_pattern_def github_pattern_def

lemmas piece_defs = lit_ci_def one_ci_def one_def alts.simps opt_def some_def at_least_def exactly_def
  assignment_def space_cls_def quote_cls_def key_cls_def token_cls_def unquoted_cls_def

lemma anchor_free_seq [simp]: "anchor_free (seq rs) = list_all anchor_free rs"
  by (induction rs rule: seq.induct) simp_all

lemma group_free_seq [simp]: "group_free (seq rs) = list_all group_free rs"
  by (induction rs rule: seq.induct) simp_all

lemma list_all_one_ci [simp]: "list_all anchor_free (map one_ci w)" "list_all group_free (map one_ci w)"
  by (induction w) (simp_all add: one_ci_def)

lemma list_all_replicate: "P x \<Longrightarrow> list_all P (replicate n x)"
  by (induction n) simp_all

lemma secret_patterns_anchor_free: "(name, p) \<in> set secret_patterns \<Longrightarrow> anchor_free p"
  by (auto simp: secret_patterns_def pattern_defs piece_defs list_all_replicate)

text \<open>The four patterns that split a match in two, and those whose first group is all of it.\<close>

abbreviation split_kinds :: "string set" where
  "split_kinds \<equiv> {''api_key'', ''password'', ''token'', ''aws_secret''}"

lemma group_free_repeat: "group_free r \<Longrightarrow> group_free (at_least n r)" "group_free r \<Longrightarrow> group_free (exactly n r)"
  by (simp_all add: at_least_def exactly_def list_all_replicate)

lemma split_pattern:
  assumes "(name, p) \<in> set secret_patterns" "name \<in> split_kinds"
  obtains a b where "p = Then (Grp 1 a) (Grp 2 b)" "group_free b"
proof -
  have "p \<in> {api_key_pattern, password_pattern, token_pattern, aws_secret_pattern}"
    using assms by (auto simp: secret_patterns_def)
  moreover have "group_free (at_least n key_cls)" "group_free (at_least n unquoted_cls)"
    "group_free (at_least n token_cls)" "group_free (exactly n (Cls ci neg rs))" for n ci neg rs
    by (rule group_free_repeat, simp add: key_cls_def unquoted_cls_def token_cls_def)+
  ultimately show thesis
    unfolding api_key_pattern_def password_pattern_def token_pattern_def aws_secret_pattern_def
    using that by blast
qed

lemma whole_pattern:
  assumes "(name, p) \<in> set secret_patterns" "name \<notin> split_kinds"
  obtains a where "p = Grp 1 a"
proof -
  have "p \<in> {private_key_pattern, connection_pattern, jwt_pattern, github_pattern}"
    using assms by (auto simp: secret_patterns_def)
  then show thesis
    unfolding private_key_pattern_def connection_pattern_def jwt_pattern_def github_pattern_def
    using that by blast
qed

lemma redact_match_hit:
  assumes "(name, p) \<in> set secret_patterns" "run p (start_at bef t) = st # sts"
  defines "w \<equiv> take (length t - length (rest st)) t"
  shows "redact_match p w = (case map_of (groups st) 1 of None \<Rightarrow> [] | Some u \<Rightarrow> u) @ redaction_mark"
  using match_again [OF secret_patterns_anchor_free [OF assms(1)] assms(2)]
  by (simp add: redact_match_def submatch_def w_def)

text \<open>
  Claim C23. What \<open>RedactSecrets\<close> puts in place of a match: for API keys, passwords, tokens and
  AWS secrets the part up to the value, with the value itself replaced by the mark; but for
  private keys, connection strings, JWTs and GitHub tokens the whole match, with the mark only
  put behind it.
\<close>

theorem redaction_of_a_match:
  assumes "(name, p) \<in> set secret_patterns" "find_submatch p content = Some f"
  shows "if name \<in> split_kinds
    then redact_match p (match_text f) = submatch f 1 @ redaction_mark \<and> match_text f = submatch f 1 @ submatch f 2
    else redact_match p (match_text f) = match_text f @ redaction_mark"
proof -
  from search_found assms(2) obtain b t st sts where r: "run p (start_at b t) = st # sts"
    and w: "match_text f = take (length t - length (rest st)) t" and g: "match_groups f = groups st"
    unfolding find_submatch_def by meson
  have m: "redact_match p (match_text f) = submatch f 1 @ redaction_mark"
    using redact_match_hit [OF assms(1) r] by (simp add: w g submatch_def)
  show ?thesis
  proof (cases "name \<in> split_kinds")
    case True
    with assms(1) obtain a b' where p: "p = Then (Grp 1 a) (Grp 2 b')" "group_free b'" by (rule split_pattern)
    from submatch_pair [OF r [unfolded p(1)] p(2)] have "match_text f = submatch f 1 @ submatch f 2"
      by (auto simp: w g submatch_def)
    with True m show ?thesis by simp
  next
    case False
    with assms(1) obtain a where p: "p = Grp 1 a" by (rule whole_pattern)
    from submatch_whole [OF r [unfolded p]] have "submatch f 1 = match_text f" by (simp add: w g submatch_def)
    with False m show ?thesis by simp
  qed
qed

section \<open>Secrets that leave\<close>

lemma redact_keeps_whole:
  assumes "(name, p) \<in> set secret_patterns" "name \<notin> split_kinds"
  shows "subseq s (replace_all_func p (redact_match p) s)"
  unfolding replace_all_func_def
proof (rule replace_matches_keeps)
  fix bef t st sts
  assume r: "run p (start_at bef t) = st # sts"
  from assms obtain a where p: "p = Grp 1 a" by (rule whole_pattern)
  from redact_match_hit [OF assms(1) r] submatch_whole [OF r [unfolded p]]
  show "subseq (take (length t - length (rest st)) t) (redact_match p (take (length t - length (rest st)) t))"
    by (simp add: list_emb_prefix)
qed

definition only_whole_secrets :: "string \<Rightarrow> bool" where
  "only_whole_secrets content \<longleftrightarrow>
     list_all (\<lambda>p. \<not> match_string p content)
       [api_key_pattern, password_pattern, token_pattern, private_key_pattern, aws_secret_pattern]"

lemma redact_secrets_keeps:
  assumes "only_whole_secrets content"
  shows "subseq content (redact_secrets content)"
proof -
  let ?r = "\<lambda>p. replace_all_func p (redact_match p)"
  have "redact_secrets content = ?r github_pattern (?r jwt_pattern (?r connection_pattern content))"
    using assms by (simp add: redact_secrets_def secret_patterns_def only_whole_secrets_def replace_all_none)
  moreover have "subseq s (?r p s)" if "p \<in> {connection_pattern, jwt_pattern, github_pattern}" for p s
    using that redact_keeps_whole [of "''connection_string''" connection_pattern s]
      redact_keeps_whole [of "''jwt''" jwt_pattern s] redact_keeps_whole [of "''github_token''" github_pattern s]
    by (auto simp: secret_patterns_def)
  ultimately show ?thesis by (metis insertCI subseq_order.trans)
qed

text \<open>
  Claim C24. \<open>Abstract\<close> declares a text safe to send and sends every byte of it, in order, when
  its only secrets are connection strings, JWTs or GitHub tokens and it names no path.
\<close>

theorem abstract_sends_secrets:
  assumes "only_whole_secrets content" "\<not> is_path content" "pol_mode (fw_policy f) \<noteq> mode_local_only"
  shows "fr_allowed (abstract_content now f content) \<and> subseq content (fr_sanitized (abstract_content now f content))"
proof -
  have "redact_paths content = content"
    using assms(2) by (simp add: redact_paths_def replace_all_string_def is_path_def replace_all_none)
  with assms show ?thesis by (simp add: abstract_content_def Let_def redact_secrets_keeps)
qed

definition demo_firewall :: firewall where
  "demo_firewall = new_firewall (default_policy ''now'' ''p'')"

lemma redaction_of_a_match_witness:
  "redact_match connection_pattern ''redis://a'' = ''redis://a***REDACTED***''"
proof -
  have "find_submatch connection_pattern ''redis://a'' =
      Some \<lparr>prefix_text = [], match_text = ''redis://a'', suffix_text = [], match_groups = [(1, ''redis://a'')]\<rparr>"
    by code_simp
  moreover have "(''connection_string'', connection_pattern) \<in> set secret_patterns" by (simp add: secret_patterns_def)
  ultimately show ?thesis using redaction_of_a_match [of "''connection_string''" connection_pattern "''redis://a''"]
    by (simp add: redaction_mark_def)
qed

lemma abstract_sends_secrets_witness:
  "fr_allowed (abstract_content ''t'' demo_firewall ''redis://a'') \<and>
   subseq ''redis://a'' (fr_sanitized (abstract_content ''t'' demo_firewall ''redis://a''))"
proof -
  have "only_whole_secrets ''redis://a''" "\<not> is_path ''redis://a''" by code_simp+
  moreover have "pol_mode (fw_policy demo_firewall) \<noteq> mode_local_only" by code_simp
  ultimately show ?thesis by (rule abstract_sends_secrets)
qed

section \<open>Paths\<close>

lemma steps_seq_Cons: "steps (seq (r # rs)) st st' \<longleftrightarrow> (\<exists>m. steps r st m \<and> steps (seq rs) m st')"
  by (cases rs) (auto intro: steps.intros)

lemma steps_seqI: "steps r st m \<Longrightarrow> steps (seq rs) m st' \<Longrightarrow> steps (seq (r # rs)) st st'"
  by (auto simp: steps_seq_Cons)

lemma steps_one: "steps (one c) st st' \<longleftrightarrow> (\<exists>t. rest st = c # t \<and> st' = st\<lparr>past := c # past st, rest := t\<rparr>)"
  by (auto simp: one_def in_class_def intro: steps.cls)

lemma upper_char_not_lower: "\<not> is_lower (upper_char c) \<or> upper_char c = c"
  by (cases "is_lower c") (auto simp: upper_char_def is_lower_def less_eq_char_def)

lemma in_class_ci: "is_lower c \<Longrightarrow> in_class True False [(c, c)] d \<longleftrightarrow> lower_char d = c"
  using upper_char_not_lower [of d] by (auto simp: in_class_def lower_char_def is_lower_def is_upper_def less_eq_char_def)
    (metis char_of_char)+

lemma steps_lit_ci:
  "list_all is_lower w \<Longrightarrow> steps (lit_ci w) st st' \<longleftrightarrow>
     (\<exists>u t. rest st = u @ t \<and> to_lower u = w \<and> st' = st\<lparr>past := rev u @ past st, rest := t\<rparr>)"
  unfolding lit_ci_def
proof (induction w arbitrary: st)
  case Nil
  then show ?case by (auto simp: to_lower_def intro: steps.eps)
next
  case (Cons c w)
  show ?case (is "?L = ?R")
  proof
    assume ?L
    then obtain m where m: "steps (one_ci c) st m" "steps (seq (map one_ci w)) m st'" by (auto simp: steps_seq_Cons)
    from m(1) Cons.prems obtain d t where d: "rest st = d # t" "lower_char d = c" "m = st\<lparr>past := d # past st, rest := t\<rparr>"
      by (auto simp: one_ci_def in_class_ci)
    from m(2) Cons obtain u t' where "rest m = u @ t'" "to_lower u = w" "st' = m\<lparr>past := rev u @ past m, rest := t'\<rparr>" by auto
    with d show ?R by (intro exI [of _ "d # u"] exI [of _ t']) (simp add: to_lower_def)
  next
    assume ?R
    then obtain d u t where d: "rest st = d # u @ t" "lower_char d = c" "to_lower u = w"
      "st' = st\<lparr>past := rev u @ d # past st, rest := t\<rparr>" by (auto simp: to_lower_def map_eq_Cons_conv)
    let ?m = "st\<lparr>past := d # past st, rest := u @ t\<rparr>"
    have "steps (one_ci c) st ?m"
      unfolding one_ci_def using d Cons.prems by (intro steps.cls) (simp_all add: in_class_ci)
    moreover have "\<exists>u' t'. rest ?m = u' @ t' \<and> to_lower u' = w \<and>
        st' = ?m\<lparr>past := rev u' @ past ?m, rest := t'\<rparr>"
      using d by (intro exI [of _ u] exI [of _ t]) simp
    then have "steps (seq (map one_ci w)) ?m st'" using Cons by simp
    ultimately show ?L by (auto simp: steps_seq_Cons)
  qed
qed

text \<open>A path starts here: a slash, one of the roots in any case, a slash.\<close>

definition path_here :: "string \<Rightarrow> bool" where
  "path_here s \<longleftrightarrow> (\<exists>u v. s = CHR ''/'' # u @ CHR ''/'' # v \<and> to_lower u \<in> set path_roots)"

lemma steps_alts_lit_ci:
  "ws \<noteq> [] \<Longrightarrow> steps (alts (map lit_ci ws)) st st' \<longleftrightarrow> (\<exists>w \<in> set ws. steps (lit_ci w) st st')"
  by (induction ws rule: induct_list012) (auto intro: steps.intros)

lemma path_roots_lower: "list_all (list_all is_lower) path_roots"
  by (simp add: path_roots_def is_lower_def less_eq_char_def)

lemma steps_path_pattern: "(\<exists>st'. steps path_pattern (start_at bef s) st') \<longleftrightarrow> path_here s" (is "?L \<longleftrightarrow> ?R")
proof
  assume ?L
  then obtain m1 m2 m3 st' where "steps (one (CHR ''/'')) (start_at bef s) m1"
    and m2: "steps (Grp 1 (alts (map lit_ci path_roots))) m1 m2" and m3: "steps (one (CHR ''/'')) m2 m3"
    unfolding path_pattern_def steps_seq_Cons by meson
  then obtain t where t: "s = CHR ''/'' # t" "rest m1 = t" by (auto simp: steps_one start_at_def)
  from m2 obtain w u where w: "w \<in> set path_roots" "t = u @ rest m2" "to_lower u = w"
    using path_roots_lower t(2) by (auto simp: steps_alts_lit_ci path_roots_def [THEN arg_cong, of "\<lambda>x. x \<noteq> []"] list_all_iff steps_lit_ci)
  from m3 w t show ?R by (auto simp: steps_one path_here_def)
next
  assume ?R
  then obtain u v where u: "s = CHR ''/'' # u @ CHR ''/'' # v" "to_lower u \<in> set path_roots" by (auto simp: path_here_def)
  let ?m1 = "(start_at bef s)\<lparr>past := CHR ''/'' # bef, rest := u @ CHR ''/'' # v\<rparr>"
  have 1: "steps (one (CHR ''/'')) (start_at bef s) ?m1" using u by (simp add: steps_one start_at_def)
  let ?m = "?m1\<lparr>past := rev u @ past ?m1, rest := CHR ''/'' # v\<rparr>"
  have "list_all is_lower (to_lower u)" using u(2) path_roots_lower by (auto simp: list_all_iff)
  then have "steps (lit_ci (to_lower u)) ?m1 ?m"
    by (subst steps_lit_ci) (assumption, intro exI [of _ u] exI [of _ "CHR ''/'' # v"], simp)
  then obtain m where m: "steps (lit_ci (to_lower u)) ?m1 m" "rest m = CHR ''/'' # v"
    using that [of ?m] by simp
  then have "steps (alts (map lit_ci path_roots)) ?m1 m"
    using u(2) by (subst steps_alts_lit_ci) auto
  from steps.grp [OF this, of 1] obtain m2 where m2: "steps (Grp 1 (alts (map lit_ci path_roots))) ?m1 m2" "rest m2 = CHR ''/'' # v"
    using m(2) by auto
  let ?m3 = "m2\<lparr>past := CHR ''/'' # past m2, rest := v\<rparr>"
  have 3: "steps (one (CHR ''/'')) m2 ?m3" using m2(2) by (simp add: steps_one)
  have "steps (seq [Many True unquoted_cls]) ?m3 ?m3" by (simp add: steps.many0)
  from steps_seqI [OF 1 steps_seqI [OF m2(1) steps_seqI [OF 3 this]]] show ?L
    unfolding path_pattern_def by (rule exI)
qed

lemma is_path_iff: "is_path s \<longleftrightarrow> (\<exists>w t. s = w @ t \<and> path_here t)"
  by (simp only: is_path_def match_string_iff ex_simps steps_path_pattern)

text \<open>A path is found within any text without the mark's asterisk and the dots of a cut.\<close>

lemma path_here_stem:
  assumes "path_here s"
  shows "\<exists>u. has_prefix s u \<and> (\<forall>t. path_here (u @ t)) \<and> list_all (\<lambda>c. c = CHR ''/'' \<or> is_letter c) u"
proof -
  from assms obtain u v where u: "s = (CHR ''/'' # u @ [CHR ''/'']) @ v" "to_lower u \<in> set path_roots"
    by (auto simp: path_here_def)
  from u(2) path_roots_lower have "list_all is_lower (to_lower u)" by (auto simp: list_all_iff)
  then have "list_all is_letter u"
    by (auto simp: list_all_iff to_lower_def lower_char_def is_letter_def split: if_splits)
  moreover have "has_prefix s (CHR ''/'' # u @ [CHR ''/''])" unfolding u(1) by (rule has_prefix_append)
  moreover have "path_here ((CHR ''/'' # u @ [CHR ''/'']) @ t)" for t using u(2) by (auto simp: path_here_def)
  ultimately show ?thesis by (intro exI [of _ "CHR ''/'' # u @ [CHR ''/'']"]) (auto simp: list_all_iff)
qed

lemma path_here_prefix:
  assumes "path_here (u @ c # t)" "c \<noteq> CHR ''/''" "\<not> is_letter c"
  shows "path_here (u @ t')"
proof -
  from path_here_stem [OF assms(1)] obtain w where w: "has_prefix (u @ c # t) w" "\<And>t. path_here (w @ t)"
    "list_all (\<lambda>c. c = CHR ''/'' \<or> is_letter c) w" by blast
  have "length w \<le> length u"
  proof (rule ccontr)
    assume "\<not> length w \<le> length u"
    then have "length u < length w" by simp
    then have "w ! length u = c" using w(1) unfolding has_prefix_def by (metis nth_append_length nth_take)
    with w(3) \<open>length u < length w\<close> assms(2,3) show False by (auto simp: list_all_length)
  qed
  with w(1) have "has_prefix u w" by (simp add: has_prefix_def)
  then obtain v where "u = w @ v" by (auto simp: has_prefix_iff)
  then show ?thesis using w(2) [of "v @ t'"] by simp
qed

lemma path_here_mark: "\<not> path_here (redaction_mark @ t)" "\<not> path_here (CHR ''*'' # t)"
  by (simp_all add: path_here_def redaction_mark_def)

definition path_mark :: string where "path_mark = ''***PATH***''"

lemma path_mark: "\<exists>m. path_mark = CHR ''*'' # m" "CHR ''/'' \<notin> set path_mark"
  by (simp_all add: path_mark_def)

text \<open>
  The rewritten text begins with a part of the text before the next mark: what has no asterisk
  in front of it stood there before.
\<close>

lemma replace_front:
  "length s \<le> n \<Longrightarrow> \<exists>u v t. s = u @ v \<and> (replace_matches n path_pattern (\<lambda>_. path_mark) bef s = u \<or>
     replace_matches n path_pattern (\<lambda>_. path_mark) bef s = u @ CHR ''*'' # t)"
proof (induction n arbitrary: bef s)
  case 0
  then show ?case by simp
next
  case (Suc n)
  show ?case
  proof (cases s)
    case Nil
    then show ?thesis using Suc.prems by (auto split: list.split)
  next
    case (Cons c t)
    have "\<exists>u v r. t = u @ v \<and> (replace_matches n path_pattern (\<lambda>_. path_mark) (c # bef) t = u \<or>
        replace_matches n path_pattern (\<lambda>_. path_mark) (c # bef) t = u @ CHR ''*'' # r)"
      using Suc Cons by simp
    then have "\<exists>u v r. s = u @ v \<and> (c # replace_matches n path_pattern (\<lambda>_. path_mark) (c # bef) t = u \<or>
        c # replace_matches n path_pattern (\<lambda>_. path_mark) (c # bef) t = u @ CHR ''*'' # r)"
      using Cons by (metis append_Cons)
    moreover obtain m where m: "path_mark = CHR ''*'' # m" using path_mark(1) by blast
    have "\<exists>u v r. s = u @ v \<and> (path_mark @ x = u \<or> path_mark @ x = u @ CHR ''*'' # r)" for x
      unfolding m by (intro exI [of _ "[]"] exI [of _ s] exI [of _ "m @ x"]) simp
    moreover have "replace_matches (Suc n) path_pattern (\<lambda>_. path_mark) bef s \<in>
        {c # replace_matches n path_pattern (\<lambda>_. path_mark) (c # bef) t} \<union> range ((@) path_mark)"
      using Cons by (simp split: list.split)
    ultimately show ?thesis by (elim UnE rangeE singletonE) simp_all
  qed
qed

lemma path_here_append: "path_here s \<Longrightarrow> path_here (s @ t)"
  using path_here_stem [of s] by (auto simp: has_prefix_iff)

lemma path_shortens: "steps path_pattern st st' \<Longrightarrow> length (rest st') < length (rest st)"
proof -
  assume "steps path_pattern st st'"
  then obtain m where m: "steps (one (CHR ''/'')) st m"
    "steps (seq [Grp 1 (alts (map lit_ci path_roots)), one (CHR ''/''), Many True unquoted_cls]) m st'"
    unfolding path_pattern_def by (simp only: steps_seq_Cons [of "one (CHR ''/'')"]) meson
  from m(1) have "length (rest m) < length (rest st)" by (auto simp: steps_one)
  moreover from steps_consumes [OF m(2)] obtain w where "rest m = w @ rest st'" by blast
  ultimately show ?thesis by simp
qed

lemma run_path_pattern: "run path_pattern (start_at bef s) = [] \<longleftrightarrow> \<not> path_here s"
proof -
  have "run path_pattern (start_at bef s) \<noteq> [] \<longleftrightarrow> (\<exists>st'. st' \<in> set (run path_pattern (start_at bef s)))"
    by (metis hd_in_set empty_iff list.set(1))
  then show ?thesis by (simp only: run_iff_steps steps_path_pattern) blast
qed

lemma replaced_front_clean:
  assumes "length s \<le> n" "\<not> path_here s"
  shows "\<not> path_here (replace_matches n path_pattern (\<lambda>_. path_mark) bef s)"
proof
  let ?out = "replace_matches n path_pattern (\<lambda>_. path_mark) bef s"
  assume here: "path_here ?out"
  from replace_front [OF assms(1), of bef] obtain u v r where "s = u @ v" "?out = u \<or> ?out = u @ CHR ''*'' # r" by blast
  with here have "path_here s"
    by (auto intro: path_here_append path_here_prefix simp: is_letter_def is_lower_def is_upper_def less_eq_char_def)
  with assms(2) show False by blast
qed

lemma replaced_clean:
  "length s \<le> n \<Longrightarrow> replace_matches n path_pattern (\<lambda>_. path_mark) bef s = w @ t \<Longrightarrow> \<not> path_here t"
proof (induction n arbitrary: bef s w)
  case 0
  then show ?case by (simp add: path_here_def)
next
  case (Suc n)
  let ?run = "run path_pattern (start_at bef s)"
  show ?case
  proof (cases "path_here s")
    case False
    show ?thesis
    proof (cases w)
      case Nil
      with replaced_front_clean [OF Suc.prems(1) False, of bef] Suc.prems(2) show ?thesis by simp
    next
      case (Cons d w')
      have "?run = []" using False by (simp add: run_path_pattern)
      with Suc.prems(2) Cons obtain c s' where "s = c # s'"
        "replace_matches n path_pattern (\<lambda>_. path_mark) (c # bef) s' = w' @ t"
        by (auto split: list.splits)
      with Suc.IH [of s' "c # bef" w'] Suc.prems(1) show ?thesis by simp
    qed
  next
    case True
    then obtain st sts where r: "?run = st # sts" by (metis run_path_pattern neq_Nil_conv)
    then have "st \<in> set ?run" by simp
    then have short: "length (rest st) < length s"
      using path_shortens by (fastforce simp: run_iff_steps start_at_def)
    let ?tail = "replace_matches n path_pattern (\<lambda>_. path_mark) (past st) (rest st)"
    have out: "path_mark @ ?tail = w @ t" using Suc.prems(2) r short by simp
    from out obtain us where "path_mark = w @ us \<and> us @ ?tail = t \<or> path_mark @ us = w \<and> ?tail = us @ t"
      unfolding append_eq_append_conv2 by blast
    then consider x where "path_mark = w @ x" "t = x @ ?tail" "x \<noteq> []" | x where "?tail = x @ t"
      by (cases us) fastforce+
    then show ?thesis
    proof cases
      case (1 x)
      then have "set x \<subseteq> set path_mark" by (metis set_append Un_upper2)
      with 1 have "hd t \<in> set path_mark" by (cases x) auto
      with path_mark(2) have "hd t \<noteq> CHR ''/''" by auto
      then show ?thesis by (auto simp: path_here_def)
    next
      case (2 x)
      with Suc.IH [of "rest st" "past st" x] Suc.prems(1) short show ?thesis by simp
    qed
  qed
qed

lemma redact_paths_clean: "\<not> is_path (redact_paths s)"
  using replaced_clean [of s "length s"]
  by (auto simp: is_path_iff redact_paths_def replace_all_string_def replace_all_func_def path_mark_def)

section \<open>Paths in cut texts\<close>

definition path_text :: "string \<Rightarrow> bool" where
  "path_text u \<longleftrightarrow> (\<exists>r. u = CHR ''/'' # r @ [CHR ''/''] \<and> to_lower r \<in> set path_roots)"

lemma path_text_chars:
  assumes "path_text u"
  shows "u \<noteq> []" "CHR ''.'' \<notin> set u" "CHR '' '' \<notin> set u" "CHR ''_'' \<notin> set u"
proof -
  from assms obtain r where u: "u = CHR ''/'' # r @ [CHR ''/'']" "to_lower r \<in> set path_roots"
    by (auto simp: path_text_def)
  have "list_all (\<lambda>c. is_lower (lower_char c)) r"
    using u(2) path_roots_lower by (auto simp: list_all_iff to_lower_def)
  moreover have "\<not> is_lower (lower_char (CHR ''.''))" "\<not> is_lower (lower_char (CHR '' ''))"
    "\<not> is_lower (lower_char (CHR ''_''))" by code_simp+
  ultimately show "u \<noteq> []" "CHR ''.'' \<notin> set u" "CHR '' '' \<notin> set u" "CHR ''_'' \<notin> set u" using u(1) by (auto simp: list_all_iff)
qed

lemma is_path_sublist: "is_path s \<longleftrightarrow> (\<exists>u. path_text u \<and> sublist u s)"
  unfolding is_path_iff path_here_def path_text_def sublist_def
  by (auto, metis append_Cons append_Nil append_assoc, force)

lemma sublist_separator:
  assumes "c \<notin> set u" "u \<noteq> []"
  shows "sublist u (a @ c # b) \<longleftrightarrow> sublist u a \<or> sublist u b"
proof -
  have "\<not> (suffix x a \<and> prefix y (c # b))" if "u = x @ y" "y \<noteq> []" for x y
    using that assms(1) by (cases y) auto
  moreover have "sublist u a" if "suffix u a" using that by auto
  ultimately show ?thesis using assms unfolding sublist_append [of u a "c # b"]
    by (auto simp: sublist_Cons_right prefix_Cons)
qed

lemma is_path_dots: "is_path (s @ ''...'') \<longleftrightarrow> is_path s"
proof -
  have "sublist u (s @ ''...'') \<longleftrightarrow> sublist u s" if "path_text u" for u
    using path_text_chars [OF that] sublist_separator [of "CHR ''.''" u]
    by (metis append_Cons append_Nil sublist_Nil_right)
  then show ?thesis by (auto simp: is_path_sublist)
qed

lemma is_path_take: "is_path (take n s) \<Longrightarrow> is_path s"
  unfolding is_path_sublist by (meson sublist_order.order_trans sublist_take)

lemma is_path_join: "is_path (join '' '' ws) \<Longrightarrow> \<exists>w \<in> set ws. is_path w"
proof (induction "'' ''" ws rule: join.induct)
  case 1
  then show ?case using path_text_chars(1) by (auto simp: is_path_sublist)
next
  case (3 w v vs)
  from "3.prems" obtain u where u: "path_text u" "sublist u (w @ CHR '' '' # join '' '' (v # vs))"
    by (auto simp: is_path_sublist)
  then have "sublist u w \<or> sublist u (join '' '' (v # vs))"
    using path_text_chars [OF u(1)] by (subst (asm) sublist_separator) simp_all
  then show ?case using "3.hyps" u(1) by (auto simp: is_path_sublist)
qed simp

lemma fields_sublist: "w \<in> set (fields_func P s) \<Longrightarrow> sublist w s"
proof (induction P s rule: fields_func.induct)
  case (1 P s)
  show ?case
  proof (cases "dropWhile P s")
    case Nil
    with "1.prems" show ?thesis by (simp add: fields_func_Nil)
  next
    case (Cons c t)
    have s: "sublist (dropWhile P s) s" by (metis sublist_dropWhile)
    have "sublist (c # takeWhile (\<lambda>d. \<not> P d) t) (c # t)"
      by (metis append_Cons sublist_appendI append_Nil takeWhile_dropWhile_id prefix_imp_sublist prefixI)
    moreover have "sublist (dropWhile (\<lambda>d. \<not> P d) t) (c # t)"
      by (meson sublist_Cons_right sublist_dropWhile)
    ultimately show ?thesis using "1.prems" "1.IH" [OF Cons] s Cons
      by (auto simp: fields_func_Cons intro: sublist_order.order_trans)
  qed
qed

lemma limit_tokens_path: "is_path (fst (limit_tokens m s)) \<Longrightarrow> is_path s"
proof -
  assume "is_path (fst (limit_tokens m s))"
  then have "is_path s \<or> is_path (join '' '' (take (nat m) (GoStrings.fields s)))"
    by (auto simp: limit_tokens_def Let_def is_path_dots split: if_splits)
  then show ?thesis
  proof
    assume "is_path (join '' '' (take (nat m) (GoStrings.fields s)))"
    then obtain w where "w \<in> set (GoStrings.fields s)" "is_path w" by (meson in_set_takeD is_path_join)
    then show ?thesis unfolding is_path_sublist by (metis fields_sublist GoStrings.fields_def sublist_order.order_trans)
  qed
qed

lemma redact_clean:
  assumes "is_path_forbidden p content \<or> \<not> is_path_allowed p content"
  shows "\<not> is_path (rr_sanitized (redact p content))"
proof (cases "pol_mode p = mode_local_only")
  case True
  have "\<not> is_path ''***LOCAL_ONLY***''" by code_simp
  with True show ?thesis by (simp add: redact_def)
next
  case False
  have "\<not> is_path (take n (redact_paths s))" for n s using redact_paths_clean is_path_take by blast
  with False assms redact_paths_clean show ?thesis by (simp add: redact_def Let_def is_path_dots)
qed

lemma redact_secrets_id: "\<not> is_secret content \<Longrightarrow> redact_secrets content = content"
  by (simp add: is_secret_def redact_secrets_def secret_patterns_def replace_all_none)

section \<open>Paths in pseudonymised texts\<close>

text \<open>Tokens of the table's form: an underscore separates kind and number, and no kind has a slash.\<close>

definition clean_token :: "string \<Rightarrow> bool" where
  "clean_token t \<longleftrightarrow> CHR ''_'' \<in> set t \<and> CHR ''/'' \<notin> set t"

lemma sublist_ends:
  assumes "hd u = c" "last u = c" "u \<noteq> []" "c \<notin> set a"
  shows "sublist u (x @ a) \<Longrightarrow> sublist u x" "sublist u (a @ x) \<Longrightarrow> sublist u x"
proof -
  have cu: "c \<in> set u" using assms(1,3) by (cases u) auto
  then have inner: "\<not> sublist u a" using assms(4) by (auto dest: set_mono_sublist)
  show "sublist u x" if "sublist u (x @ a)"
  proof -
    have "v = []" if "u = w @ v" "prefix v a" for w v
    proof (rule ccontr)
      assume "v \<noteq> []"
      with that(1) assms(2) have "c \<in> set v" by (metis last_appendR last_in_set)
      with that(2) assms(4) show False by (auto dest: set_mono_prefix)
    qed
    with that inner show ?thesis unfolding sublist_append by (metis append_Nil2 suffix_imp_sublist)
  qed
  show "sublist u x" if "sublist u (a @ x)"
  proof -
    have "w = []" if "u = w @ v" "suffix w a" for w v
    proof (rule ccontr)
      assume "w \<noteq> []"
      with that(1) assms(1) have "c \<in> set w" by (metis hd_append2 hd_in_set)
      with that(2) assms(4) show False by (auto dest: set_mono_suffix)
    qed
    with that inner show ?thesis unfolding sublist_append by (metis append_Nil prefix_imp_sublist)
  qed
qed

lemma path_text_token:
  assumes "path_text u" "clean_token tok" "sublist u (x @ tok @ y)"
  shows "sublist u x \<or> sublist u y"
proof -
  from assms(2) obtain a b where tok: "tok = a @ CHR ''_'' # b" by (auto simp: clean_token_def dest: split_list)
  then have slash: "CHR ''/'' \<notin> set a" "CHR ''/'' \<notin> set b" using assms(2) by (auto simp: clean_token_def)
  from assms(1) have u: "hd u = CHR ''/''" "last u = CHR ''/''" by (auto simp: path_text_def)
  have "sublist u ((x @ a) @ CHR ''_'' # (b @ y))" using assms(3) by (simp add: tok)
  then have "sublist u (x @ a) \<or> sublist u (b @ y)"
    unfolding sublist_separator [OF path_text_chars(4,1) [OF assms(1)]] .
  then show ?thesis using sublist_ends [OF u path_text_chars(1) [OF assms(1)]] slash by blast
qed

lemma path_text_replaced:
  assumes "path_text u" "clean_token new"
  shows "sublist u (acc @ replace_nonempty old new s) \<Longrightarrow> sublist u (acc @ s)"
proof (induction "length s" arbitrary: acc s rule: less_induct)
  case less
  show ?case
  proof (cases "old = [] \<or> s = []")
    case True
    then have "replace_nonempty old new s = s" by (subst replace_nonempty.simps) auto
    with less.prems show ?thesis by simp
  next
    case False
    then obtain c t where s: "s = c # t" "old \<noteq> []" by (cases s) auto
    show ?thesis
    proof (cases "has_prefix s old")
      case True
      let ?s = "drop (length old) s"
      have "replace_nonempty old new s = new @ replace_nonempty old new ?s"
        using True s by (subst replace_nonempty.simps) simp
      then have "sublist u acc \<or> sublist u (replace_nonempty old new ?s)"
        using path_text_token [OF assms] less.prems by simp
      then show ?thesis
      proof
        assume "sublist u (replace_nonempty old new ?s)"
        then have "sublist u ?s" using less.hyps [of ?s "[]"] s by simp
        then have "sublist u s" by (meson sublist_drop sublist_order.order_trans)
        then show ?thesis by (meson sublist_append_leftI sublist_order.order_trans)
      qed (meson sublist_append_rightI sublist_order.order_trans)
    next
      case False
      then have "replace_nonempty old new s = c # replace_nonempty old new t"
        using s by (subst replace_nonempty.simps) simp
      then show ?thesis using less.hyps [of t "acc @ [c]"] less.prems s by simp
    qed
  qed
qed

lemma path_text_inserted:
  assumes "path_text u" "clean_token new"
  shows "sublist u (acc @ concat (map (\<lambda>c. new @ [c]) s) @ new) \<Longrightarrow> sublist u (acc @ s)"
proof (induction s arbitrary: acc)
  case Nil
  then have "sublist u (acc @ new @ [])" by simp
  from path_text_token [OF assms this] path_text_chars(1) [OF assms(1)] show ?case by simp
next
  case (Cons c s)
  let ?tail = "concat (map (\<lambda>c. new @ [c]) s) @ new"
  have "sublist u (acc @ new @ ([c] @ ?tail))" using Cons.prems by simp
  then have "sublist u acc \<or> sublist u ([c] @ ?tail)" by (rule path_text_token [OF assms])
  then show ?case
  proof
    assume "sublist u ([c] @ ?tail)"
    then have "sublist u ([c] @ s)" by (rule Cons.IH)
    then show ?thesis by (metis append_Cons append_Nil sublist_append_leftI sublist_order.order_trans)
  qed (meson sublist_append_rightI sublist_order.order_trans)
qed

lemma is_path_replace_all: "clean_token new \<Longrightarrow> is_path (replace_all s old new) \<Longrightarrow> is_path s"
proof -
  assume clean: "clean_token new" and "is_path (replace_all s old new)"
  then obtain u where u: "path_text u" "sublist u (replace_all s old new)" by (auto simp: is_path_sublist)
  have "sublist u s"
  proof (cases "old = []")
    case True
    with u(2) have "sublist u ([] @ concat (map (\<lambda>c. new @ [c]) s) @ new)" by (simp add: replace_all_def)
    from path_text_inserted [OF u(1) clean this] show ?thesis by simp
  next
    case False
    with u(2) have "sublist u ([] @ replace_nonempty old new s)" by (simp add: replace_all_def)
    from path_text_replaced [OF u(1) clean this] show ?thesis by simp
  qed
  with u(1) show "is_path s" by (auto simp: is_path_sublist)
qed

definition clean_table :: "pseudonymizer \<Rightarrow> bool" where
  "clean_table q \<longleftrightarrow> list_all (\<lambda>(_, t). clean_token t) (name_to_token q)"

lemma is_path_pseudonymize:
  assumes "clean_table q" "is_path (pseudonymize_text s q)"
  shows "is_path s"
proof -
  have "is_path (fold (\<lambda>name result. replace_all result name
      (case map_of (name_to_token q) name of None \<Rightarrow> [] | Some t \<Rightarrow> t)) names s) \<Longrightarrow> is_path s"
    if "set names \<subseteq> set (keys (name_to_token q))" for names s
    using that
  proof (induction names arbitrary: s)
    case (Cons name names)
    then have "map_of (name_to_token q) name \<noteq> None" by (simp add: map_of_eq_None_iff)
    then obtain t where t: "map_of (name_to_token q) name = Some t" by blast
    then have clean: "clean_token t" using assms(1) by (auto simp: clean_table_def list_all_iff dest: map_of_SomeD)
    have sub: "set names \<subseteq> set (keys (name_to_token q))" using Cons.prems(2) by simp
    have "is_path (fold (\<lambda>name result. replace_all result name
        (case map_of (name_to_token q) name of None \<Rightarrow> [] | Some t \<Rightarrow> t)) names (replace_all s name t))"
      using Cons.prems(1) t by simp
    from Cons.IH [OF this sub] have "is_path (replace_all s name t)" .
    then show ?case by (rule is_path_replace_all [OF clean])
  qed simp
  from this [of "sort_by (\<lambda>a b. length b < length a) (keys (name_to_token q))" s] assms(2)
  show ?thesis by (simp add: pseudonymize_text_def)
qed

section \<open>What the policy keeps back\<close>

text \<open>
  Claim C25. Paths in a redacted text. The policy's path lists are tested against the front of the
  whole text. When it begins with a forbidden prefix, or with no allowed one, then in every mode
  no path is left anywhere in the redacted text, also after the cut to the byte limit. But when it
  begins with an allowed prefix and no forbidden one, no path is taken out at all, whichever paths
  follow: outside \<open>LOCAL_ONLY\<close> the result is the text without its secrets, cut to the limit.
\<close>

theorem redacted_paths_gone:
  shows "if is_path_forbidden p content \<or> \<not> is_path_allowed p content
    then \<not> is_path (rr_sanitized (redact p content))
    else pol_mode p = mode_local_only \<and> rr_sanitized (redact p content) = ''***LOCAL_ONLY***'' \<or>
      pol_mode p \<noteq> mode_local_only \<and>
      rr_sanitized (redact p content) =
        (let s = redact_secrets content
         in if 0 < max_source_bytes p \<and> max_source_bytes p < int (length s)
            then take (nat (max_source_bytes p)) s @ ''...'' else s)"
  using redact_clean [of p content] by (simp add: redact_def Let_def)

text \<open>The witness: with \<open>/home/a\<close> allowed, a text that begins there keeps its path to \<open>/etc\<close>.\<close>

lemma redacted_paths_gone_witness:
  "let p = (default_policy ''now'' ''p'')\<lparr>allowed_paths := [''/home/a'']\<rparr>; content = ''/home/a /etc/passwd''
   in \<not> is_path_allowed p ''/etc/passwd'' \<and> rr_sanitized (redact p content) = content \<and>
      is_path (rr_sanitized (redact p content)) \<and> \<not> is_path (rr_sanitized (redact p ''/etc/passwd''))"
proof -
  let ?p = "(default_policy ''now'' ''p'')\<lparr>allowed_paths := [''/home/a'']\<rparr>" and ?c = "''/home/a /etc/passwd''"
  have s: "\<not> is_secret ?c" and i: "is_path ?c"
    and p: "\<not> is_path_allowed ?p ''/etc/passwd''" "is_path_allowed ?p ?c" "\<not> is_path_forbidden ?p ?c"
      "pol_mode ?p \<noteq> mode_local_only" "\<not> max_source_bytes ?p < int (length ?c)" by code_simp+
  from redacted_paths_gone [of ?p ?c] p have "rr_sanitized (redact ?p ?c) = ?c"
    unfolding redact_secrets_id [OF s] by (simp add: Let_def)
  moreover from redacted_paths_gone [of ?p "''/etc/passwd''"] p(1)
  have "\<not> is_path (rr_sanitized (redact ?p ''/etc/passwd''))" by simp
  ultimately show ?thesis using i p(1) unfolding Let_def by simp
qed

text \<open>
  Claim C26. What the firewall lets out. Content is allowed exactly when the mode is not
  \<open>LOCAL_ONLY\<close>, no secret pattern matches it, it contains no forbidden identifier and begins with
  no forbidden path. Then, when it begins with no allowed path either, the text that goes out names
  no path at all: in every mode, \<open>MASKED\<close> and \<open>ABSTRACT\<close> included, when the pseudonyms put in have
  an underscore and no slash (as those of the declared kinds have). When it begins with an allowed
  path, the paths that follow it are kept, whether allowed or not: outside those two modes it goes
  out as it came, but for the cuts to the byte and token limits.
\<close>

theorem allowed_context_safe:
  fixes f :: firewall and content now :: string
  defines "p \<equiv> fw_policy f" and "out \<equiv> sanitize_context now f content"
  shows "(fr_allowed out \<longleftrightarrow>
      pol_mode p \<noteq> mode_local_only \<and> \<not> is_secret content \<and>
      \<not> list_ex (contains content) (forbidden_identifiers p) \<and> \<not> list_ex (has_prefix content) (forbidden_paths p)) \<and>
    (fr_allowed out \<and> \<not> is_path_allowed p content \<and>
      (pol_mode p \<in> {mode_masked, mode_abstract} \<longrightarrow>
        list_all (\<lambda>(_, t). CHR ''_'' \<in> set t \<and> CHR ''/'' \<notin> set t) (name_to_token (fw_pseudos f)))
      \<longrightarrow> \<not> is_path (fr_sanitized out)) \<and>
    (fr_allowed out \<and> is_path_allowed p content \<and> pol_mode p \<notin> {mode_masked, mode_abstract}
      \<longrightarrow> fr_sanitized out = fst (limit_tokens (max_context_tokens p)
            (if 0 < max_source_bytes p \<and> max_source_bytes p < int (length content)
             then take (nat (max_source_bytes p)) content @ ''...'' else content)))"
proof (intro conjI)
  show iff: "fr_allowed out \<longleftrightarrow>
      pol_mode p \<noteq> mode_local_only \<and> \<not> is_secret content \<and>
      \<not> list_ex (contains content) (forbidden_identifiers p) \<and> \<not> list_ex (has_prefix content) (forbidden_paths p)"
    by (simp add: out_def p_def sanitize_context_def blank_result_def has_forbidden_identifier_def
      has_forbidden_path_def is_path_forbidden_def Let_def split: prod.split)
  have sent: "fr_sanitized out = fst (limit_tokens (max_context_tokens p)
      (if pol_mode p \<in> {mode_masked, mode_abstract}
       then pseudonymize_text (rr_sanitized (redact p content)) (fw_pseudos f) else rr_sanitized (redact p content)))"
    if "fr_allowed out"
    using that iff by (simp add: out_def p_def sanitize_context_def has_forbidden_identifier_def
      has_forbidden_path_def is_path_forbidden_def Let_def split: prod.split)
  show "fr_allowed out \<and> \<not> is_path_allowed p content \<and>
      (pol_mode p \<in> {mode_masked, mode_abstract} \<longrightarrow>
        list_all (\<lambda>(_, t). CHR ''_'' \<in> set t \<and> CHR ''/'' \<notin> set t) (name_to_token (fw_pseudos f)))
      \<longrightarrow> \<not> is_path (fr_sanitized out)"
  proof (intro impI notI, elim conjE)
    assume a: "fr_allowed out" "\<not> is_path_allowed p content" "is_path (fr_sanitized out)"
      and t: "pol_mode p \<in> {mode_masked, mode_abstract} \<longrightarrow>
        list_all (\<lambda>(_, t). CHR ''_'' \<in> set t \<and> CHR ''/'' \<notin> set t) (name_to_token (fw_pseudos f))"
    have "\<not> is_path (rr_sanitized (redact p content))" using redact_clean a(2) by blast
    then have "\<not> is_path (if pol_mode p \<in> {mode_masked, mode_abstract}
       then pseudonymize_text (rr_sanitized (redact p content)) (fw_pseudos f) else rr_sanitized (redact p content))"
      using t is_path_pseudonymize [of "fw_pseudos f"] unfolding clean_table_def clean_token_def by auto
    with a(3) limit_tokens_path show False unfolding sent [OF a(1)] by blast
  qed
  show "fr_allowed out \<and> is_path_allowed p content \<and> pol_mode p \<notin> {mode_masked, mode_abstract}
      \<longrightarrow> fr_sanitized out = fst (limit_tokens (max_context_tokens p)
            (if 0 < max_source_bytes p \<and> max_source_bytes p < int (length content)
             then take (nat (max_source_bytes p)) content @ ''...'' else content))"
  proof (intro impI, elim conjE)
    assume a: "fr_allowed out" "is_path_allowed p content" "pol_mode p \<notin> {mode_masked, mode_abstract}"
    with iff have m: "pol_mode p \<noteq> mode_local_only" "\<not> is_secret content" "\<not> is_path_forbidden p content"
      by (simp_all add: is_path_forbidden_def)
    from m(1,3) a(2) have "rr_sanitized (redact p content) =
        (if 0 < max_source_bytes p \<and> max_source_bytes p < int (length content)
         then take (nat (max_source_bytes p)) content @ ''...'' else content)"
      by (simp add: redact_def redact_secrets_id [OF m(2)] Let_def)
    with a(3) show "fr_sanitized out = fst (limit_tokens (max_context_tokens p)
            (if 0 < max_source_bytes p \<and> max_source_bytes p < int (length content)
             then take (nat (max_source_bytes p)) content @ ''...'' else content))"
      unfolding sent [OF a(1)] by simp
  qed
qed

text \<open>The witness: a masked context with one name in the table, whose path to \<open>/etc\<close> does not go out.\<close>

definition masked_firewall :: firewall where
  "masked_firewall = \<lparr>fw_policy = (default_policy ''now'' ''p'')\<lparr>pol_mode := mode_masked\<rparr>,
     fw_pseudos = snd (pseudonymize ''x'' ''VAR'' new_pseudonymizer)\<rparr>"

lemma allowed_context_safe_witness:
  "fr_allowed (sanitize_context ''t'' masked_firewall ''/etc/x'') \<and>
   \<not> is_path (fr_sanitized (sanitize_context ''t'' masked_firewall ''/etc/x''))"
proof -
  have c: "\<not> is_secret ''/etc/x''" "pol_mode (fw_policy masked_firewall) \<noteq> mode_local_only"
    "forbidden_identifiers (fw_policy masked_firewall) = []" "forbidden_paths (fw_policy masked_firewall) = []"
    "\<not> is_path_allowed (fw_policy masked_firewall) ''/etc/x''"
    "list_all (\<lambda>(_, t). CHR ''_'' \<in> set t \<and> CHR ''/'' \<notin> set t) (name_to_token (fw_pseudos masked_firewall))"
    by code_simp+
  note safe = allowed_context_safe [of "''t''" masked_firewall "''/etc/x''"]
  from safe c have "fr_allowed (sanitize_context ''t'' masked_firewall ''/etc/x'')" by simp
  with safe c show ?thesis by blast
qed

section \<open>Modes and limits\<close>

text \<open>
  Modes are parsed in any case but compared exactly: a policy whose mode is a spelling
  of \<open>LOCAL_ONLY\<close> other than the constant passes \<open>Validate\<close>, and the firewall then lets out any
  content that it would let out in full mode.
\<close>

theorem local_only_spelling_leaks:
  assumes "parse_mode m = Inr mode_local_only" "m \<noteq> mode_local_only" "pol_mode p = m"
    "0 \<le> max_source_bytes p" "0 \<le> max_context_tokens p"
    "\<not> is_secret content" "\<not> has_forbidden_identifier p content" "\<not> has_forbidden_path p content"
  shows "validate_policy p = Inr () \<and> fr_allowed (sanitize_context now (new_firewall p) content) \<and>
    \<not> fr_allowed (sanitize_context now (new_firewall (p\<lparr>pol_mode := mode_local_only\<rparr>)) content)"
  using assms
  by (simp add: validate_policy_def sanitize_context_def new_firewall_def blank_result_def Let_def split: prod.split)

lemma local_only_spelling_leaks_witness:
  "validate_policy ((default_policy ''now'' ''p'')\<lparr>pol_mode := ''local_only''\<rparr>) = Inr () \<and>
   fr_allowed (sanitize_context ''t'' (new_firewall ((default_policy ''now'' ''p'')\<lparr>pol_mode := ''local_only''\<rparr>)) ''x = 1'')"
proof -
  have "parse_mode ''local_only'' = Inr mode_local_only" "''local_only'' \<noteq> mode_local_only" by code_simp+
  moreover have "\<not> is_secret ''x = 1''" by code_simp
  ultimately show ?thesis
    using local_only_spelling_leaks [of "''local_only''" "(default_policy ''now'' ''p'')\<lparr>pol_mode := ''local_only''\<rparr>" "''x = 1''" "''t''"]
    by (simp add: default_policy_def has_forbidden_identifier_def has_forbidden_path_def is_path_forbidden_def)
qed

text \<open>
  The byte limit of the redactor. Against the same policy without a limit: a text over the limit
  becomes its first bytes up to the limit and three dots, with the cut reported last, and any other
  text, and the mark that stands for every text in \<open>LOCAL_ONLY\<close>, is what it would be without.
\<close>

theorem redact_length:
  "rr_sanitized (redact p content) =
     (let s = rr_sanitized (redact (p\<lparr>max_source_bytes := 0\<rparr>) content); n = max_source_bytes p
      in if pol_mode p \<noteq> mode_local_only \<and> 0 < n \<and> n < int (length s) then take (nat n) s @ ''...'' else s)"
  by (simp add: redact_def Let_def is_path_forbidden_def is_path_allowed_def)

end
