(* ===== verification/RuntimeQueue.thy ===== *)
theory RuntimeQueue
  imports Prelude
begin

text \<open>
  \<open>internal/runtime/queue.go\<close>: the bounded queue between the capture of output and the workers.
  The events lie in a ring: \<open>head\<close> is the slot read next, \<open>tail\<close> the slot written next, and
  equal positions mean empty. Each operation is a step of its own; the polls of a blocking
  dequeue are explicit, with what other goroutines do to the queue between two of them.
\<close>

section \<open>Model\<close>

text \<open>A drop policy is a string in the code; values other than the three constants exist.\<close>

definition policy_block :: string where "policy_block = ''block''"
definition policy_drop :: string where "policy_drop = ''drop''"
definition policy_oldest :: string where "policy_oldest = ''oldest''"

record queue_config =
  capacity :: int
  drop_policy :: string
  metrics_enabled :: bool

text \<open>A time stamp is its number of nanoseconds.\<close>

record observation_event =
  ev_id :: string
  ev_project :: string
  ev_session :: string
  ev_process :: string
  ev_source :: string
  ev_stream :: string
  ev_time :: int
  ev_raw :: string
  ev_metadata :: "string store"

definition zero_event :: observation_event where
  "zero_event = \<lparr>ev_id = [], ev_project = [], ev_session = [], ev_process = [], ev_source = [],
     ev_stream = [], ev_time = 0, ev_raw = [], ev_metadata = []\<rparr>"

record event_queue =
  queue_cfg :: queue_config
  ring :: "observation_event list"
  head :: nat
  tail :: nat
  count :: int
  dropped :: int
  notified :: bool
  queue_closed :: bool

definition new_event_queue :: "queue_config \<Rightarrow> event_queue" where
  "new_event_queue cfg =
     (let cfg = (if capacity cfg \<le> 0 then cfg\<lparr>capacity := 10000\<rparr> else cfg);
          cfg = (if drop_policy cfg = [] then cfg\<lparr>drop_policy := policy_drop\<rparr> else cfg)
      in \<lparr>queue_cfg = cfg, ring = replicate (nat (capacity cfg)) zero_event, head = 0, tail = 0,
          count = 0, dropped = 0, notified = False, queue_closed = False\<rparr>)"

definition dequeue_one :: "event_queue \<Rightarrow> observation_event option \<times> event_queue" where
  "dequeue_one q =
     (if head q = tail q then (None, q)
      else (Some (ring q ! head q),
            q\<lparr>ring := (ring q)[head q := zero_event], head := (head q + 1) mod length (ring q),
              count := count q - 1\<rparr>))"

definition put_event :: "observation_event \<Rightarrow> nat \<Rightarrow> nat \<Rightarrow> event_queue \<Rightarrow> event_queue" where
  "put_event e t next_tail q =
     q\<lparr>ring := (ring q)[t := e], tail := next_tail, count := count q + 1, notified := True\<rparr>"

text \<open>A policy that is none of the constants does nothing about a full ring.\<close>

definition enqueue :: "observation_event \<Rightarrow> event_queue \<Rightarrow> bool \<times> event_queue" where
  "enqueue e q =
     (if queue_closed q then (False, q)
      else
        (let t = tail q; next_tail = (t + 1) mod length (ring q); policy = drop_policy (queue_cfg q);
             dropping = q\<lparr>dropped := dropped q + 1\<rparr>
         in if next_tail = head q
            then (if policy = policy_block then (False, q)
                  else if policy = policy_drop then (False, dropping)
                  else if policy = policy_oldest then (True, put_event e t next_tail (snd (dequeue_one dropping)))
                  else (True, put_event e t next_tail q))
            else (True, put_event e t next_tail q)))"

text \<open>The loop of \<open>DequeueAll\<close>, with a bound on its rounds.\<close>

fun dequeue_loop :: "nat \<Rightarrow> event_queue \<Rightarrow> observation_event list \<times> event_queue" where
  "dequeue_loop 0 q = ([], q)"
| "dequeue_loop (Suc n) q =
     (case dequeue_one q of
        (None, q) \<Rightarrow> ([], q)
      | (Some e, q) \<Rightarrow> (case dequeue_loop n q of (es, q) \<Rightarrow> (e # es, q)))"

definition dequeue_all :: "event_queue \<Rightarrow> observation_event list \<times> event_queue" where
  "dequeue_all q =
     (case dequeue_loop (length (ring q)) q of
        (es, q) \<Rightarrow> (es, if es = [] then q else q\<lparr>notified := False\<rparr>))"

text \<open>One poll for each time the clock is read before the deadline; after it the others move.\<close>

fun dequeue_blocking :: "(event_queue \<Rightarrow> event_queue) list \<Rightarrow> event_queue \<Rightarrow>
  (observation_event list \<times> bool) \<times> event_queue" where
  "dequeue_blocking [] q = (([], False), q)"
| "dequeue_blocking (others # polls) q =
     (case dequeue_all q of
        (es, q) \<Rightarrow>
          (if es \<noteq> [] then ((es, True), q)
           else if queue_closed q then (([], False), q)
           else dequeue_blocking polls (others q)))"

text \<open>Closing a closed channel panics.\<close>

definition close_queue :: "event_queue \<Rightarrow> unit res \<times> event_queue" where
  "close_queue q =
     (if queue_closed q then (Inl (Panic ''close of closed channel''), q)
      else (Inr (), q\<lparr>queue_closed := True\<rparr>))"

record queue_stats =
  stat_count :: int
  stat_capacity :: nat
  stat_dropped :: int
  stat_closed :: bool

definition queue_stats_of :: "event_queue \<Rightarrow> queue_stats" where
  "queue_stats_of q =
     \<lparr>stat_count = count q, stat_capacity = length (ring q), stat_dropped = dropped q, stat_closed = queue_closed q\<rparr>"

definition is_empty :: "event_queue \<Rightarrow> bool" where
  "is_empty q \<longleftrightarrow> count q = 0"

section \<open>The list a ring stands for\<close>

definition used_slots :: "event_queue \<Rightarrow> nat" where
  "used_slots q = (tail q + length (ring q) - head q) mod length (ring q)"

definition contents :: "event_queue \<Rightarrow> observation_event list" where
  "contents q = map (\<lambda>i. ring q ! ((head q + i) mod length (ring q))) [0..<used_slots q]"

definition queue_ok :: "event_queue \<Rightarrow> bool" where
  "queue_ok q \<longleftrightarrow> head q < length (ring q) \<and> tail q < length (ring q) \<and> count q = int (length (contents q))"

lemma length_contents [simp]: "length (contents q) = used_slots q"
  by (simp add: contents_def)

lemma queue_okD:
  assumes "queue_ok q"
  shows "head q < length (ring q)" "tail q < length (ring q)" "count q = int (used_slots q)" "0 < length (ring q)"
  using assms by (auto simp: queue_ok_def)

lemma used_slots_cases:
  assumes "queue_ok q"
  shows "used_slots q = (if head q \<le> tail q then tail q - head q else tail q + length (ring q) - head q)"
  using queue_okD [OF assms] by (auto simp: used_slots_def mod_if)

lemma empty_iff: "queue_ok q \<Longrightarrow> head q = tail q \<longleftrightarrow> contents q = []"
  using used_slots_cases [of q] queue_okD [of q] by (auto simp flip: length_0_conv split: if_splits)

lemma full_iff:
  assumes "queue_ok q"
  shows "(tail q + 1) mod length (ring q) = head q \<longleftrightarrow> used_slots q = length (ring q) - 1"
  using used_slots_cases [OF assms] queue_okD [OF assms] by (auto simp: mod_Suc split: if_splits)

lemma used_slots_less: "queue_ok q \<Longrightarrow> used_slots q < length (ring q)"
  using used_slots_cases [of q] queue_okD [of q] by (auto split: if_splits)

lemma dequeue_one_empty: "queue_ok q \<Longrightarrow> contents q = [] \<Longrightarrow> dequeue_one q = (None, q)"
  by (simp add: dequeue_one_def flip: empty_iff)

lemma dequeue_one_ok:
  assumes "queue_ok q" "contents q = e # es"
  shows "\<exists>q'. dequeue_one q = (Some e, q') \<and> queue_ok q' \<and> contents q' = es \<and>
    queue_cfg q' = queue_cfg q \<and> length (ring q') = length (ring q) \<and> tail q' = tail q \<and>
    dropped q' = dropped q \<and> queue_closed q' = queue_closed q"
proof -
  note ok = queue_okD [OF assms(1)]
  let ?n = "length (ring q)"
  let ?q' = "q\<lparr>ring := (ring q)[head q := zero_event], head := (head q + 1) mod ?n, count := count q - 1\<rparr>"
  have pos: "0 < used_slots q" using assms(2) by (simp flip: length_contents)
  then have "head q \<noteq> tail q" using empty_iff [OF assms(1)] by (auto simp: assms(2))
  moreover have "e = ring q ! head q"
    using assms(2) pos ok(1) by (auto simp: contents_def upt_rec [of 0])
  ultimately have d: "dequeue_one q = (Some e, ?q')" by (simp add: dequeue_one_def)
  have used: "used_slots ?q' = used_slots q - 1"
    using ok used_slots_cases [OF assms(1)] pos by (auto simp: used_slots_def mod_Suc mod_if split: if_splits)
  have es: "es = map (\<lambda>i. ring q ! ((head q + Suc i) mod ?n)) [0..<used_slots q - 1]"
    using arg_cong [OF assms(2), of tl] pos
    by (cases "used_slots q") (simp_all add: contents_def upt_conv_Cons map_Suc_upt [symmetric] comp_def del: upt_Suc)
  have "contents ?q' = es"
    unfolding contents_def used es
  proof (intro map_cong [OF refl])
    fix i assume "i \<in> set [0..<used_slots q - 1]"
    then have i: "Suc i < ?n" using used_slots_less [OF assms(1)] by simp
    then have "(head q + Suc i) mod ?n \<noteq> (head q + 0) mod ?n" using slot_unique [of "head q" ?n "Suc i" 0] ok by auto
    then show "ring ?q' ! ((head ?q' + i) mod length (ring ?q')) = ring q ! ((head q + Suc i) mod ?n)"
      using ok(1) by (simp add: mod_add_left_eq nth_list_update)
  qed
  moreover from this have "length es = used_slots q - 1" using used by (metis length_contents)
  ultimately have "queue_ok ?q'" using ok pos used by (simp add: queue_ok_def)
  then show ?thesis using \<open>contents ?q' = es\<close> by (intro exI [of _ ?q'] conjI d) simp_all
qed

lemma put_event_ok:
  assumes "queue_ok q" "used_slots q < length (ring q) - 1" "q' = put_event e (tail q) ((tail q + 1) mod length (ring q)) q"
  shows "queue_ok q'" "contents q' = contents q @ [e]"
proof -
  note ok = queue_okD [OF assms(1)]
  let ?n = "length (ring q)"
  have used: "used_slots q' = Suc (used_slots q)"
    using ok used_slots_cases [OF assms(1)] assms(2) by (auto simp: assms(3) put_event_def used_slots_def mod_Suc mod_if split: if_splits)
  have last: "(head q + used_slots q) mod ?n = tail q"
    using ok used_slots_cases [OF assms(1)] by (auto simp: mod_if)
  have "map (\<lambda>i. ring q' ! ((head q + i) mod ?n)) [0..<used_slots q] = contents q"
    unfolding contents_def
  proof (intro map_cong [OF refl])
    fix i assume "i \<in> set [0..<used_slots q]"
    then have "(head q + i) mod ?n \<noteq> tail q"
      using slot_unique [of "head q" ?n i "used_slots q"] last used_slots_less [OF assms(1)] ok
      by (metis atLeastLessThan_iff less_irrefl less_trans set_upt)
    then show "ring q' ! ((head q + i) mod ?n) = ring q ! ((head q + i) mod ?n)" by (simp add: assms(3) put_event_def)
  qed
  moreover have "ring q' ! tail q = e" using ok by (simp add: assms(3) put_event_def)
  moreover have "head q' = head q" "length (ring q') = ?n" by (simp_all add: assms(3) put_event_def)
  ultimately show c: "contents q' = contents q @ [e]"
    using used last by (simp add: contents_def [of q'])
  have "count q' = int (Suc (used_slots q))" using ok by (simp add: assms(3) put_event_def)
  then show "queue_ok q'"
    using ok used by (simp add: queue_ok_def) (simp add: assms(3) put_event_def)
qed

lemma dequeue_loop_ok:
  "queue_ok q \<Longrightarrow> length (contents q) \<le> n \<Longrightarrow> dequeue_loop n q = (es, q') \<Longrightarrow>
   es = contents q \<and> queue_ok q' \<and> contents q' = [] \<and> queue_cfg q' = queue_cfg q \<and>
   length (ring q') = length (ring q) \<and> dropped q' = dropped q \<and> queue_closed q' = queue_closed q"
proof (induction n arbitrary: q es q')
  case 0
  then show ?case by (metis dequeue_loop.simps(1) le_zero_eq length_0_conv prod.inject)
next
  case (Suc n)
  show ?case
  proof (cases "contents q")
    case Nil
    with Suc.prems show ?thesis by (simp add: dequeue_one_empty)
  next
    case (Cons d ds)
    from dequeue_one_ok [OF Suc.prems(1) Cons] obtain q1 where q1: "dequeue_one q = (Some d, q1)"
      "queue_ok q1" "contents q1 = ds" "queue_cfg q1 = queue_cfg q" "length (ring q1) = length (ring q)"
      "dropped q1 = dropped q" "queue_closed q1 = queue_closed q" by blast
    obtain ds' q2 where q2: "dequeue_loop n q1 = (ds', q2)" by (cases "dequeue_loop n q1")
    have "length (contents q1) \<le> n" using Suc.prems(2) Cons q1(3) by (metis Suc_le_mono length_Cons)
    from Suc.IH [OF q1(2) this q2] Suc.prems(3) q1 q2 Cons show ?thesis by auto
  qed
qed

lemma contents_cong:
  "ring q' = ring q \<Longrightarrow> head q' = head q \<Longrightarrow> tail q' = tail q \<Longrightarrow> contents q' = contents q"
  by (simp add: contents_def used_slots_def)

lemma queue_ok_cong:
  "ring q' = ring q \<Longrightarrow> head q' = head q \<Longrightarrow> tail q' = tail q \<Longrightarrow> count q' = count q \<Longrightarrow> queue_ok q' \<longleftrightarrow> queue_ok q"
  by (simp add: queue_ok_def used_slots_def)

lemma dequeue_all_ok:
  assumes "queue_ok q" "dequeue_all q = (es, q')"
  shows "es = contents q" "queue_ok q'" "contents q' = []" "queue_cfg q' = queue_cfg q"
    "length (ring q') = length (ring q)" "dropped q' = dropped q" "queue_closed q' = queue_closed q"
proof -
  obtain q1 where q1: "dequeue_loop (length (ring q)) q = (es, q1)"
    "q' = (if es = [] then q1 else q1\<lparr>notified := False\<rparr>)"
    using assms(2) by (cases "dequeue_loop (length (ring q)) q") (auto simp: dequeue_all_def)
  have "length (contents q) \<le> length (ring q)" using used_slots_less [OF assms(1)] by simp
  note l = dequeue_loop_ok [OF assms(1) this q1(1)]
  have "ring q' = ring q1" "head q' = head q1" "tail q' = tail q1" "count q' = count q1"
    by (simp_all add: q1(2))
  note same = this
  have "contents q' = contents q1" using same(1-3) by (rule contents_cong)
  moreover have "queue_ok q' \<longleftrightarrow> queue_ok q1" using same by (rule queue_ok_cong)
  ultimately show "es = contents q" "queue_ok q'" "contents q' = []" "queue_cfg q' = queue_cfg q"
    "length (ring q') = length (ring q)" "dropped q' = dropped q" "queue_closed q' = queue_closed q"
    using l q1(2) by simp_all
qed

text \<open>What each policy makes of an event, on the list the ring stands for.\<close>

definition room :: "event_queue \<Rightarrow> nat" where
  "room q = length (ring q) - 1"

definition buffered :: "string \<Rightarrow> nat \<Rightarrow> observation_event \<Rightarrow> observation_event list \<Rightarrow> observation_event list" where
  "buffered policy m e es =
     (if length es < m then es @ [e] else if policy = policy_oldest then tl es @ [e] else es)"

lemma enqueue_ok:
  assumes ok: "queue_ok q" and two: "2 \<le> length (ring q)" and opened: "\<not> queue_closed q"
    and policy: "drop_policy (queue_cfg q) \<in> {policy_block, policy_drop, policy_oldest}"
    and enq: "enqueue e q = (b, q')"
  shows "queue_ok q' \<and> contents q' = buffered (drop_policy (queue_cfg q)) (room q) e (contents q) \<and>
    b = (length (contents q) < room q \<or> drop_policy (queue_cfg q) = policy_oldest) \<and>
    dropped q' = dropped q + (if length (contents q) < room q \<or> drop_policy (queue_cfg q) = policy_block then 0 else 1) \<and>
    queue_cfg q' = queue_cfg q \<and> length (ring q') = length (ring q) \<and> queue_closed q' = queue_closed q"
proof (cases "used_slots q < room q")
  case True
  then have "(tail q + 1) mod length (ring q) \<noteq> head q" using full_iff [OF ok] by (simp add: room_def)
  with opened enq have q': "b = True" "q' = put_event e (tail q) ((tail q + 1) mod length (ring q)) q"
    by (simp_all add: enqueue_def Let_def)
  from put_event_ok [OF ok True [unfolded room_def] q'(2)] True show ?thesis
    unfolding q' by (simp add: buffered_def) (simp add: put_event_def)
next
  case False
  then have full: "used_slots q = room q" using used_slots_less [OF ok] by (simp add: room_def)
  then have turn: "(tail q + 1) mod length (ring q) = head q" using full_iff [OF ok] by (simp add: room_def)
  have policies: "policy_block \<noteq> policy_drop" "policy_block \<noteq> policy_oldest" "policy_drop \<noteq> policy_oldest"
    by (simp_all add: policy_block_def policy_drop_def policy_oldest_def)
  let ?d = "q\<lparr>dropped := dropped q + 1\<rparr>"
  have d: "queue_ok ?d" "contents ?d = contents q" using ok by (simp_all add: queue_ok_def contents_def used_slots_def)
  show ?thesis
  proof (cases "drop_policy (queue_cfg q) = policy_oldest")
    case False
    with policy opened enq turn policies d full ok show ?thesis
      by (auto simp: enqueue_def Let_def buffered_def)
  next
    case True
    obtain f fs where c: "contents q = f # fs"
      using full two by (cases "contents q") (auto simp: room_def simp flip: length_contents)
    have "contents ?d = f # fs" using c d(2) by simp
    from dequeue_one_ok [OF d(1) this] obtain q1 where "dequeue_one ?d = (Some f, q1)" "queue_ok q1"
      "contents q1 = fs" "queue_cfg q1 = queue_cfg ?d" "length (ring q1) = length (ring ?d)"
      "tail q1 = tail ?d" "dropped q1 = dropped ?d" "queue_closed q1 = queue_closed ?d" by blast
    then have q1: "dequeue_one ?d = (Some f, q1)" "queue_ok q1" "contents q1 = fs"
      "queue_cfg q1 = queue_cfg q" "length (ring q1) = length (ring q)" "tail q1 = tail q"
      "dropped q1 = dropped q + 1" "queue_closed q1 = queue_closed q" by simp_all
    have "used_slots q1 < length (ring q1) - 1"
      using full c two q1(3,5) by (simp add: room_def flip: length_contents)
    from put_event_ok [OF q1(2) this refl, of e]
    have p: "queue_ok (put_event e (tail q) (head q) q1)" "contents (put_event e (tail q) (head q) q1) = fs @ [e]"
      unfolding q1(3,5,6) turn by simp_all
    have q': "b = True" "q' = put_event e (tail q) (head q) q1"
      using enq opened turn True policies q1(1) by (simp_all add: enqueue_def Let_def)
    show ?thesis using p full True policies q1 c unfolding q'
      by (simp add: buffered_def flip: length_contents) (simp add: put_event_def)
  qed
qed

section \<open>The contract of a bounded buffer\<close>

text \<open>
  What the capture code and the workers rely on: a put appends, or when the buffer is full
  takes the place of the oldest event or is refused; a take empties the buffer in order.
\<close>

locale bounded_buffer =
  fixes put :: "'e \<Rightarrow> 'q \<Rightarrow> bool \<times> 'q"
    and take_all :: "'q \<Rightarrow> 'e list \<times> 'q"
    and view :: "'q \<Rightarrow> 'e list"
    and good :: "'q \<Rightarrow> bool"
    and limit :: "'q \<Rightarrow> nat"
    and replaces :: "'q \<Rightarrow> bool"
  assumes limit_pos: "good q \<Longrightarrow> 0 < limit q"
    and in_limit: "good q \<Longrightarrow> length (view q) \<le> limit q"
    and put_view: "good q \<Longrightarrow> put e q = (b, q') \<Longrightarrow> view q' =
      (if length (view q) < limit q then view q @ [e] else if replaces q then tl (view q) @ [e] else view q)"
    and put_good: "good q \<Longrightarrow> put e q = (b, q') \<Longrightarrow>
      good q' \<and> limit q' = limit q \<and> replaces q' = replaces q"
    and put_accepts: "good q \<Longrightarrow> fst (put e q) \<longleftrightarrow> length (view q) < limit q \<or> replaces q"
    and take_view: "good q \<Longrightarrow> take_all q = (es, q') \<Longrightarrow> es = view q \<and> view q' = [] \<and> good q'"
begin

definition puts :: "'e list \<Rightarrow> 'q \<Rightarrow> 'q" where
  "puts es q = foldl (\<lambda>q e. snd (put e q)) q es"

lemma puts_good: "good q \<Longrightarrow> good (puts es q) \<and> limit (puts es q) = limit q \<and> replaces (puts es q) = replaces q"
proof (induction es arbitrary: q)
  case Nil
  then show ?case by (simp add: puts_def)
next
  case (Cons e es)
  obtain b q1 where q1: "put e q = (b, q1)" by (cases "put e q")
  from put_good [OF Cons.prems q1] Cons.IH [of q1] show ?case by (simp add: puts_def q1)
qed

lemma puts_view_replacing:
  "good q \<Longrightarrow> replaces q \<Longrightarrow> view (puts es q) = drop (length (view q) + length es - limit q) (view q @ es)"
proof (induction es arbitrary: q)
  case Nil
  then show ?case using in_limit by (simp add: puts_def)
next
  case (Cons e es)
  obtain b q1 where q1: "put e q = (b, q1)" by (cases "put e q")
  note g = put_good [OF Cons.prems(1) q1] and v = put_view [OF Cons.prems(1) q1]
  have l: "length (view q) \<le> limit q" "0 < limit q" using in_limit limit_pos Cons.prems(1) by auto
  have "view (puts (e # es) q) = drop (length (view q1) + length es - limit q) (view q1 @ es)"
    using Cons.IH [of q1] g Cons.prems(2) by (simp add: puts_def q1)
  also have "\<dots> = drop (length (view q) + length (e # es) - limit q) (view q @ e # es)"
  proof (cases "length (view q) < limit q")
    case True
    with v show ?thesis by simp
  next
    case False
    with l obtain a ws where "view q = a # ws" "limit q = Suc (length ws)" by (cases "view q") auto
    with v Cons.prems(2) show ?thesis by (simp del: drop_append)
  qed
  finally show ?case .
qed

lemma puts_view_refusing:
  "good q \<Longrightarrow> \<not> replaces q \<Longrightarrow> view (puts es q) = take (limit q) (view q @ es)"
proof (induction es arbitrary: q)
  case Nil
  then show ?case using in_limit by (simp add: puts_def)
next
  case (Cons e es)
  obtain b q1 where q1: "put e q = (b, q1)" by (cases "put e q")
  note g = put_good [OF Cons.prems(1) q1] and v = put_view [OF Cons.prems(1) q1]
  have "view (puts (e # es) q) = take (limit q) (view q1 @ es)"
    using Cons.IH [of q1] g Cons.prems(2) by (simp add: puts_def q1)
  then show ?case using v in_limit [OF Cons.prems(1)] Cons.prems(2)
    by (auto simp: take_Cons')
qed

text \<open>From an empty buffer: the last events, or the first ones, in order.\<close>

lemma puts_then_take:
  assumes "good q" "view q = []" "take_all (puts es q) = (ds, q')"
  shows "ds = (if replaces q then drop (length es - limit q) es else take (limit q) es) \<and> view q' = []"
  using take_view [OF _ assms(3)] puts_good [OF assms(1)] puts_view_replacing [OF assms(1), of es]
    puts_view_refusing [OF assms(1), of es] assms(2) by simp

end

definition in_use :: "event_queue \<Rightarrow> bool" where
  "in_use q \<longleftrightarrow> queue_ok q \<and> 2 \<le> length (ring q) \<and> \<not> queue_closed q \<and>
     drop_policy (queue_cfg q) \<in> {policy_block, policy_drop, policy_oldest}"

lemma in_use_enqueue:
  assumes "in_use q" "enqueue e q = (b, q')"
  shows "in_use q' \<and> contents q' = buffered (drop_policy (queue_cfg q)) (room q) e (contents q) \<and>
    b = (length (contents q) < room q \<or> drop_policy (queue_cfg q) = policy_oldest) \<and>
    dropped q' = dropped q + (if length (contents q) < room q \<or> drop_policy (queue_cfg q) = policy_block then 0 else 1) \<and>
    queue_cfg q' = queue_cfg q \<and> room q' = room q"
  using enqueue_ok [OF _ _ _ _ assms(2)] assms(1) by (simp add: in_use_def room_def)

interpretation rq: bounded_buffer enqueue dequeue_all contents in_use room
  "\<lambda>q. drop_policy (queue_cfg q) = policy_oldest"
proof
  fix q e b q' es
  assume q: "in_use q"
  show "0 < room q" using q by (simp add: in_use_def room_def)
  show "length (contents q) \<le> room q" using used_slots_less [of q] q by (simp add: in_use_def room_def)
  show "fst (enqueue e q) \<longleftrightarrow> length (contents q) < room q \<or> drop_policy (queue_cfg q) = policy_oldest"
    using in_use_enqueue [OF q, of e "fst (enqueue e q)" "snd (enqueue e q)"] by simp
  { assume "enqueue e q = (b, q')"
    note e = in_use_enqueue [OF q this]
    from e show "contents q' = (if length (contents q) < room q then contents q @ [e]
        else if drop_policy (queue_cfg q) = policy_oldest then tl (contents q) @ [e] else contents q)"
      by (simp add: buffered_def)
    from e show "in_use q' \<and> room q' = room q \<and>
        (drop_policy (queue_cfg q') = policy_oldest) = (drop_policy (queue_cfg q) = policy_oldest)" by simp }
  { assume d: "dequeue_all q = (es, q')"
    from q have "queue_ok q" by (simp add: in_use_def)
    from dequeue_all_ok [OF this d] q show "es = contents q \<and> contents q' = [] \<and> in_use q'" by (simp add: in_use_def) }
qed

lemma new_queue_ok:
  assumes "1 \<le> capacity cfg" "drop_policy cfg \<noteq> []"
  shows "queue_ok (new_event_queue cfg)" "contents (new_event_queue cfg) = []"
    "queue_cfg (new_event_queue cfg) = cfg" "length (ring (new_event_queue cfg)) = nat (capacity cfg)"
    "\<not> queue_closed (new_event_queue cfg)" "dropped (new_event_queue cfg) = 0"
  using assms by (simp_all add: new_event_queue_def queue_ok_def contents_def used_slots_def Let_def)

section \<open>Properties\<close>

text \<open>All events put into the queue, one after the other.\<close>

definition enqueue_all :: "observation_event list \<Rightarrow> event_queue \<Rightarrow> event_queue" where
  "enqueue_all es q = foldl (\<lambda>q e. snd (enqueue e q)) q es"

lemma enqueue_all_puts: "enqueue_all = rq.puts"
  by (intro ext) (simp add: enqueue_all_def rq.puts_def)

text \<open>
  Claim C27. A new queue of capacity \<open>c\<close> (two or more) is a bounded first-in first-out buffer for \<open>c - 1\<close> events:
  after any enqueues a dequeue returns, in order, the last \<open>c - 1\<close> events under the policy
  \<open>oldest\<close> and the first \<open>c - 1\<close> under \<open>drop\<close> and \<open>block\<close>, and leaves nothing behind.
\<close>

theorem queue_delivers:
  assumes "2 \<le> capacity cfg" "drop_policy cfg \<in> {policy_block, policy_drop, policy_oldest}"
    and "dequeue_all (enqueue_all es (new_event_queue cfg)) = (ds, q')"
  shows "ds = (if drop_policy cfg = policy_oldest then drop (length es - (nat (capacity cfg) - 1)) es
               else take (nat (capacity cfg) - 1) es) \<and>
    is_empty q' \<and> fst (dequeue_all q') = []"
proof -
  let ?q = "new_event_queue cfg"
  have ne: "drop_policy cfg \<noteq> []" using assms(2) by (auto simp: policy_block_def policy_drop_def policy_oldest_def)
  note new = new_queue_ok [of cfg, OF _ ne]
  have good: "in_use ?q" using new assms(1,2) by (simp add: in_use_def)
  have "room ?q = nat (capacity cfg) - 1" using new assms(1) by (simp add: room_def)
  with rq.puts_then_take [OF good new(2), of es ds q'] assms new
  have ds: "ds = (if drop_policy cfg = policy_oldest then drop (length es - (nat (capacity cfg) - 1)) es
               else take (nat (capacity cfg) - 1) es)" and e: "contents q' = []"
    by (simp_all add: enqueue_all_puts)
  have "in_use q'" using rq.take_view rq.puts_good [OF good] assms(3) by (metis enqueue_all_puts)
  then have "queue_ok q'" by (simp add: in_use_def)
  from dequeue_all_ok(1) [OF this, of "fst (dequeue_all q')" "snd (dequeue_all q')"] queue_okD(3) [OF this] e ds
  show ?thesis by (simp add: is_empty_def flip: length_contents)
qed

definition numbered :: "string \<Rightarrow> observation_event" where
  "numbered i = zero_event\<lparr>ev_id := i\<rparr>"

definition demo_cfg :: "int \<Rightarrow> string \<Rightarrow> queue_config" where
  "demo_cfg c policy = \<lparr>capacity = c, drop_policy = policy, metrics_enabled = False\<rparr>"

lemma queue_delivers_witness:
  "fst (dequeue_all (enqueue_all (map numbered [''a'', ''b'', ''c'']) (new_event_queue (demo_cfg 3 policy_oldest)))) =
   map numbered [''b'', ''c'']"
proof -
  have "2 \<le> capacity (demo_cfg 3 policy_oldest)"
    "drop_policy (demo_cfg 3 policy_oldest) \<in> {policy_block, policy_drop, policy_oldest}"
    by (simp_all add: demo_cfg_def)
  from queue_delivers [OF this prod.collapse [symmetric], of "map numbered [''a'', ''b'', ''c'']", THEN conjunct1]
  show ?thesis by (simp add: demo_cfg_def)
qed

text \<open>
  An unknown drop policy empties a full queue: after as many enqueues as the capacity,
  each accepted, a dequeue returns nothing, although the queue counts all of them.
\<close>

theorem unknown_policy_loses_all:
  assumes "1 \<le> capacity cfg" "drop_policy cfg \<notin> {[], policy_block, policy_drop, policy_oldest}"
    and "length es = nat (capacity cfg)"
  defines "q \<equiv> enqueue_all es (new_event_queue cfg)"
  shows "fst (dequeue_all q) = [] \<and> stat_count (queue_stats_of q) = capacity cfg \<and> dropped q = 0 \<and>
    (\<forall>n. n < length es \<longrightarrow> fst (enqueue (es ! n) (enqueue_all (take n es) (new_event_queue cfg))))"
proof -
  let ?new = "new_event_queue cfg" and ?c = "nat (capacity cfg)"
  note new = new_queue_ok [OF assms(1)]
  have ne: "drop_policy cfg \<noteq> []" using assms(2) by simp
  have fill: "let p = enqueue_all (take n es) ?new in
      queue_ok p \<and> used_slots p = n \<and> length (ring p) = ?c \<and> queue_cfg p = cfg \<and> \<not> queue_closed p \<and> dropped p = 0"
    if "n < ?c" for n
    using that
  proof (induction n)
    case 0
    then show ?case using new [OF ne] by (simp add: enqueue_all_def Let_def flip: length_contents)
  next
    case (Suc n)
    let ?p = "enqueue_all (take n es) ?new"
    have p: "queue_ok ?p" "used_slots ?p = n" "length (ring ?p) = ?c" "queue_cfg ?p = cfg" "\<not> queue_closed ?p" "dropped ?p = 0"
      using Suc by (simp_all add: Let_def)
    have next_p: "enqueue_all (take (Suc n) es) ?new = snd (enqueue (es ! n) ?p)"
      using Suc.prems assms(3) by (simp add: take_Suc_conv_app_nth enqueue_all_def)
    have "(tail ?p + 1) mod length (ring ?p) \<noteq> head ?p" using full_iff [OF p(1)] p Suc.prems by simp
    then have e: "snd (enqueue (es ! n) ?p) = put_event (es ! n) (tail ?p) ((tail ?p + 1) mod length (ring ?p)) ?p"
      using p by (simp add: enqueue_def Let_def)
    have "used_slots ?p < length (ring ?p) - 1" using p Suc.prems by simp
    from put_event_ok [OF p(1) this e] p show ?case
      unfolding next_p by (simp add: Let_def flip: length_contents) (simp add: e put_event_def)
  qed
  define p where "p = enqueue_all (take (?c - 1) es) ?new"
  have p: "queue_ok p" "used_slots p = ?c - 1" "length (ring p) = ?c" "queue_cfg p = cfg" "\<not> queue_closed p" "dropped p = 0"
    using fill [of "?c - 1"] assms(1) by (simp_all add: p_def Let_def)
  have "es = take (?c - 1) es @ [es ! (?c - 1)]"
    using assms(1,3) take_Suc_conv_app_nth [of "?c - 1" es] by simp
  from arg_cong [OF this, of "\<lambda>es. enqueue_all es ?new"]
  have q: "q = snd (enqueue (es ! (?c - 1)) p)" unfolding q_def p_def by (simp add: enqueue_all_def)
  have turn: "(tail p + 1) mod length (ring p) = head p" using full_iff [OF p(1)] p(2,3) by simp
  then have qp: "q = put_event (es ! (?c - 1)) (tail p) (head p) p"
    unfolding q using p assms(2) by (simp add: enqueue_def Let_def)
  have "dequeue_one q = (None, q)" by (simp add: qp put_event_def dequeue_one_def)
  then have "fst (dequeue_all q) = []" using p(3) by (cases "length (ring q)") (simp_all add: dequeue_all_def)
  moreover have "count q = capacity cfg" using queue_okD(3) [OF p(1)] p(2) assms(1) by (simp add: qp put_event_def)
  moreover have "dropped q = 0" using p by (simp add: qp put_event_def)
  moreover have "fst (enqueue (es ! n) (enqueue_all (take n es) ?new))" if "n < length es" for n
    using fill [of n] that assms(2,3) by (simp add: enqueue_def Let_def)
  ultimately show ?thesis by (simp add: queue_stats_of_def)
qed

lemma unknown_policy_loses_all_witness:
  "fst (dequeue_all (enqueue_all [numbered ''a'', numbered ''b''] (new_event_queue (demo_cfg 2 ''newest'')))) = []"
proof (rule unknown_policy_loses_all [THEN conjunct1])
  show "drop_policy (demo_cfg 2 ''newest'') \<notin> {[], policy_block, policy_drop, policy_oldest}"
    by (simp add: demo_cfg_def policy_block_def policy_drop_def policy_oldest_def)
qed (simp_all add: demo_cfg_def)

section \<open>Workers\<close>

text \<open>
  The loop of a worker: each round blocks for events, hands them on, and ends when it got none
  and the observer is closed. A round is what it reads of the closed flag and its polls.
\<close>

fun worker :: "(bool \<times> (event_queue \<Rightarrow> event_queue) list) list \<Rightarrow> event_queue \<Rightarrow>
  observation_event list \<times> bool \<times> event_queue" where
  "worker [] q = ([], False, q)"
| "worker ((stop, polls) # rounds) q =
     (case dequeue_blocking polls q of
        ((es, True), q) \<Rightarrow> (case worker rounds q of (ds, r) \<Rightarrow> (es @ ds, r))
      | ((es, False), q) \<Rightarrow> (if stop then ([], True, q) else worker rounds q))"

text \<open>
  Claim C28. After a stop a worker drains the queue and returns: given two rounds in which it can
  poll and sees the closed flag, it processes every event still in the queue, in order and
  once, and its loop ends with the queue empty.
\<close>

theorem worker_drains:
  assumes "queue_ok q" "queue_closed q" "p1 \<noteq> []" "p2 \<noteq> []"
  shows "\<exists>q'. worker ((True, p1) # (True, p2) # rounds) q = (contents q, True, q') \<and> contents q' = []"
proof -
  obtain es q1 where d1: "dequeue_all q = (es, q1)" by (cases "dequeue_all q")
  note o1 = dequeue_all_ok [OF assms(1) d1]
  obtain ds q2 where d2: "dequeue_all q1 = (ds, q2)" by (cases "dequeue_all q1")
  note o2 = dequeue_all_ok [OF o1(2) d2]
  obtain a as b bs where p: "p1 = a # as" "p2 = b # bs" using assms(3,4) by (auto simp: neq_Nil_conv)
  show ?thesis
  proof (cases "contents q = []")
    case True
    with assms(2) d1 o1 show ?thesis by (simp add: p)
  next
    case False
    have "worker ((True, p2) # rounds) q1 = ([], True, q2)" using assms(2) d2 o1 o2 by (simp add: p)
    with False d1 o1 o2 show ?thesis by (simp add: p)
  qed
qed

lemma worker_drains_witness:
  "\<exists>q'. worker [(True, [id]), (True, [id])]
      (snd (close_queue (snd (enqueue (numbered ''a'') (new_event_queue (demo_cfg 3 policy_drop)))))) =
    ([numbered ''a''], True, q') \<and> contents q' = []"
proof -
  let ?q = "snd (close_queue (snd (enqueue (numbered ''a'') (new_event_queue (demo_cfg 3 policy_drop)))))"
  have "queue_ok ?q" "contents ?q = [numbered ''a'']" by code_simp+
  moreover have "queue_closed ?q" by (simp add: close_queue_def)
  ultimately show ?thesis using worker_drains [of ?q "[id]" "[id]" "[]"] by simp
qed

end
