(* ===== verification/RuntimeParser.thy ===== *)
theory RuntimeParser
  imports GoRegexp "HOL-Library.Word"
begin

text \<open>
  \<open>internal/runtime/parser.go\<close> with the observation records of \<open>internal/reverse/normalized.go\<close>:
  what is read off captured output. Each line is tried against the patterns in the order of the
  code. A record field holds \<open>0\<close> or the empty string until a line sets it.
\<close>

section \<open>Observations\<close>

record extracted =
  x_file :: string
  x_line :: int
  x_column :: int
  x_symbol :: string
  x_address :: string
  x_offset :: string
  x_module :: string
  x_exception :: string
  x_error_code :: string
  x_test_name :: string
  x_func_name :: string
  x_class :: string
  x_struct :: string
  x_stack :: "string list"
  x_fields :: "(string \<times> string) list"

definition no_fields :: extracted where
  "no_fields = \<lparr>x_file = [], x_line = 0, x_column = 0, x_symbol = [], x_address = [], x_offset = [],
     x_module = [], x_exception = [], x_error_code = [], x_test_name = [], x_func_name = [],
     x_class = [], x_struct = [], x_stack = [], x_fields = []\<rparr>"

record observation =
  ob_id :: string
  ob_project :: string
  ob_session :: string
  ob_process :: string
  ob_source :: string
  ob_timestamp :: string
  ob_stream :: string
  ob_raw_hash :: string
  ob_text :: string
  ob_severity :: string
  ob_event_type :: string
  ob_extracted :: extracted
  ob_working_dir :: string
  ob_executable :: string
  ob_binary :: string
  ob_git_commit :: string
  ob_git_branch :: string
  ob_binary_hash :: string
  ob_source_revision :: string
  ob_graph_version :: "64 word"
  ob_dropped :: bool
  ob_drop_reason :: string

definition zero_observation :: observation where
  "zero_observation = \<lparr>ob_id = [], ob_project = [], ob_session = [], ob_process = [], ob_source = [],
     ob_timestamp = [], ob_stream = [], ob_raw_hash = [], ob_text = [], ob_severity = [],
     ob_event_type = [], ob_extracted = no_fields, ob_working_dir = [], ob_executable = [],
     ob_binary = [], ob_git_commit = [], ob_git_branch = [], ob_binary_hash = [],
     ob_source_revision = [], ob_graph_version = 0, ob_dropped = False, ob_drop_reason = []\<rparr>"

definition sev_p0 :: string where "sev_p0 = ''P0''"
definition sev_p1 :: string where "sev_p1 = ''P1''"
definition sev_p2 :: string where "sev_p2 = ''P2''"
definition sev_p3 :: string where "sev_p3 = ''P3''"

section \<open>Patterns\<close>

abbreviation alnum :: "(char \<times> char) list" where
  "alnum \<equiv> [(CHR ''a'', CHR ''z''), (CHR ''A'', CHR ''Z''), (CHR ''0'', CHR ''9'')]"

abbreviation these :: "string \<Rightarrow> (char \<times> char) list" where
  "these s \<equiv> map (\<lambda>c. (c, c)) s"

abbreviation cls :: "(char \<times> char) list \<Rightarrow> re" where "cls \<equiv> Cls False False"
abbreviation cls_ci :: "(char \<times> char) list \<Rightarrow> re" where "cls_ci \<equiv> Cls True False"

definition space_ranges :: "(char \<times> char) list" where
  "space_ranges = [(CHR 0x09, CHR 0x0A), (CHR 0x0C, CHR 0x0D), (CHR 0x20, CHR 0x20)]"

definition hex_cls :: re where
  "hex_cls = cls [(CHR ''0'', CHR ''9''), (CHR ''a'', CHR ''f''), (CHR ''A'', CHR ''F'')]"

definition file_cls :: re where
  "file_cls = cls (alnum @ these ''_-'' @ [(CHR 0x5C, CHR 0x5C)] @ these ''/.'')"

definition file_line_regex :: re where
  "file_line_regex = seq [Bol, Grp 1 (some file_cls), one (CHR '':''), Grp 2 (some digit_cls),
     opt (Then (one (CHR '':'')) (Grp 3 (some digit_cls))), one (CHR '':'')]"

definition address_regex :: re where
  "address_regex = seq [Bol, Grp 1 (Then (lit ''0x'') (some hex_cls)), Many True space_cls,
     opt (seq [one (CHR ''<''), Grp 2 (some (Cls False True (these ''+>''))),
               opt (Then (lit ''+0x'') (Grp 3 (some hex_cls))), one (CHR ''>'')])]"

definition stack_frame_regex :: re where
  "stack_frame_regex = seq [Bol, one (CHR ''#''), Grp 1 (some digit_cls), some space_cls,
     Grp 2 (some (Cls False True (space_ranges @ these ''(''))),
     opt (seq [some space_cls, one (CHR ''(''), Grp 3 (some (Cls False True (these '')''))), one (CHR '')'')])]"

definition exception_regex :: re where
  "exception_regex = seq [alts (map lit_ci [''exception'', ''error'', ''fault'', ''panic'', ''abort'']),
     one (CHR '':''), Many True space_cls, Grp 1 (some (Cls False True space_ranges))]"

definition error_code_regex :: re where
  "error_code_regex = seq [alts (map lit_ci [''error'', ''errno'', ''code'']),
     some (cls (these '':'' @ space_ranges @ these ''='')),
     Grp 1 (some (cls_ci [(CHR ''0'', CHR ''9''), (CHR ''a'', CHR ''f''), (CHR ''A'', CHR ''F''),
       (CHR ''x'', CHR ''x''), (CHR ''X'', CHR ''X''), (CHR ''-'', CHR ''-'')]))]"

definition test_fail_regex :: re where
  "test_fail_regex = seq [lit_ci ''FAIL'', some space_cls, opt (Then (lit ''---'') (some space_cls)),
     Grp 1 (some (cls_ci (alnum @ these ''_./'')))]"

definition symbol_offset_regex :: re where
  "symbol_offset_regex = seq [Bol, Grp 1 (some (cls (alnum @ these ''_.''))), Many True space_cls,
     one (CHR ''+''), Many True space_cls,
     Grp 2 (Alt (Then (lit ''0x'') (some hex_cls)) (Then (one (CHR ''0'')) (some digit_cls)))]"

definition module_offset_regex :: re where
  "module_offset_regex = seq [Bol, Grp 1 (some (Cls False True (space_ranges @ these ''!''))), one (CHR ''!''),
     Grp 2 (some (cls [(CHR ''0'', CHR ''9''), (CHR ''a'', CHR ''f''), (CHR ''A'', CHR ''F''),
       (CHR ''x'', CHR ''x''), (CHR ''X'', CHR ''X'')]))]"

section \<open>Normalising raw output\<close>

fun remove_ansi :: "bool \<Rightarrow> string \<Rightarrow> string" where
  "remove_ansi esc [] = []"
| "remove_ansi esc (c # s) =
     (if c = CHR 0x1B then remove_ansi True s
      else if esc then remove_ansi (c \<noteq> CHR ''m'') s
      else c # remove_ansi False s)"

definition bytes_remove_ansi :: "string \<Rightarrow> string" where
  "bytes_remove_ansi b = remove_ansi False b"

definition normalized :: "string \<Rightarrow> string" where
  "normalized raw = trim_space (bytes_remove_ansi raw)"

section \<open>The hash of the raw text\<close>

definition fnv_write :: "string \<Rightarrow> 64 word \<Rightarrow> 64 word" where
  "fnv_write p h =
     fold (\<lambda>b h. (xor h (of_nat (of_char b))) * 1099511628211) p
       (if h = 0 then 14695981039346656037 else h)"

fun format_hex :: "nat \<Rightarrow> string" where
  "format_hex n =
     (if n < 16 then [if n < 10 then char_of (48 + n) else char_of (87 + n)]
      else format_hex (n div 16) @ [if n mod 16 < 10 then char_of (48 + n mod 16) else char_of (87 + n mod 16)])"

declare format_hex.simps [simp del]

definition hash_raw :: "string \<Rightarrow> string" where
  "hash_raw raw = format_hex (unat (fnv_write raw 0))"

section \<open>Lines\<close>

text \<open>\<open>strconv.Atoi\<close> on digits: out of the range of \<open>int\<close> is an error, and the field stays.\<close>

definition atoi_or :: "int \<Rightarrow> string \<Rightarrow> int" where
  "atoi_or old s = (case atoi_digits s of None \<Rightarrow> old | Some i \<Rightarrow> i)"

type_synonym line_parser = "string \<Rightarrow> observation \<Rightarrow> observation option"

definition extracting :: "(extracted \<Rightarrow> extracted) \<Rightarrow> observation \<Rightarrow> observation" where
  "extracting f ob = ob\<lparr>ob_extracted := f (ob_extracted ob)\<rparr>"

definition parse_file_line :: line_parser where
  "parse_file_line line ob =
     map_option (\<lambda>m. extracting (\<lambda>x. x\<lparr>x_file := submatch m 1, x_line := atoi_or (x_line x) (submatch m 2),
         x_column := (if submatch m 3 \<noteq> [] then atoi_or (x_column x) (submatch m 3) else x_column x)\<rparr>) ob)
       (find_submatch file_line_regex line)"

definition parse_address :: line_parser where
  "parse_address line ob =
     map_option (\<lambda>m. extracting (\<lambda>x. x\<lparr>x_address := submatch m 1,
         x_symbol := (if submatch m 2 \<noteq> [] then submatch m 2 else x_symbol x),
         x_offset := (if submatch m 3 \<noteq> [] then ''0x'' @ submatch m 3 else x_offset x)\<rparr>) ob)
       (find_submatch address_regex line)"

definition parse_stack_frame :: line_parser where
  "parse_stack_frame line ob =
     map_option (\<lambda>m. extracting (\<lambda>x. x\<lparr>x_stack := x_stack x @ [submatch m 2]\<rparr>) ob)
       (find_submatch stack_frame_regex line)"

definition parse_exception :: line_parser where
  "parse_exception line ob =
     map_option (\<lambda>m. extracting (\<lambda>x. x\<lparr>x_exception := submatch m 1\<rparr>) ob) (find_submatch exception_regex line)"

definition parse_error_code :: line_parser where
  "parse_error_code line ob =
     map_option (\<lambda>m. extracting (\<lambda>x. x\<lparr>x_error_code := submatch m 1\<rparr>) ob) (find_submatch error_code_regex line)"

definition parse_test_failure :: line_parser where
  "parse_test_failure line ob =
     map_option (\<lambda>m. (extracting (\<lambda>x. x\<lparr>x_test_name := submatch m 1\<rparr>) ob)
         \<lparr>ob_event_type := ''TEST_FAILURE'', ob_severity := sev_p0\<rparr>)
       (find_submatch test_fail_regex line)"

definition parse_symbol_offset :: line_parser where
  "parse_symbol_offset line ob =
     map_option (\<lambda>m. extracting (\<lambda>x. x\<lparr>x_symbol := submatch m 1, x_offset := submatch m 2\<rparr>) ob)
       (find_submatch symbol_offset_regex line)"

definition parse_module_offset :: line_parser where
  "parse_module_offset line ob =
     map_option (\<lambda>m. extracting (\<lambda>x. x\<lparr>x_module := submatch m 1, x_address := submatch m 2\<rparr>) ob)
       (find_submatch module_offset_regex line)"

text \<open>The parsers in the order they are tried; the flag tells whether the line joins the message.\<close>

definition line_parsers :: "(line_parser \<times> bool) list" where
  "line_parsers =
     [(parse_file_line, True), (parse_address, True), (parse_stack_frame, False), (parse_exception, True),
      (parse_error_code, False), (parse_test_failure, True), (parse_symbol_offset, True), (parse_module_offset, True)]"

fun first_parse :: "(line_parser \<times> bool) list \<Rightarrow> string \<Rightarrow> observation \<Rightarrow> string list \<times> observation" where
  "first_parse [] line ob = ([line], ob)"
| "first_parse ((p, kept) # ps) line ob =
     (case p line ob of Some ob' \<Rightarrow> (if kept then [line] else [], ob') | None \<Rightarrow> first_parse ps line ob)"

definition parse_line :: "string \<Rightarrow> string list \<times> observation \<Rightarrow> string list \<times> observation" where
  "parse_line line acc =
     (let line = trim_space line
      in if line = [] then acc
         else (case first_parse line_parsers line (snd acc) of (ls, ob) \<Rightarrow> (fst acc @ ls, ob)))"

definition contains_any :: "string \<Rightarrow> string list \<Rightarrow> bool" where
  "contains_any s subs = list_ex (contains s) subs"

definition classify_severity :: "observation \<Rightarrow> string" where
  "classify_severity ob =
     (let t = to_lower (ob_text ob)
      in if contains_any t [''panic'', ''fatal'', ''crash'', ''segfault'', ''segmentation fault'', ''assertion failed'', ''abort'']
         then sev_p0
         else if contains_any t [''error'', ''exception'', ''fail'', ''invalid''] then sev_p1
         else if contains_any t [''warning'', ''warn'', ''unexpected''] then sev_p2
         else sev_p3)"

definition classify_event_type :: "observation \<Rightarrow> string" where
  "classify_event_type ob =
     (let t = to_lower (ob_text ob)
      in if contains_any t [''panic'', ''fatal'', ''crash'', ''segfault'', ''segmentation fault'', ''abort''] then ''CRASH''
         else if contains_any t [''exception''] then ''EXCEPTION''
         else if contains_any t [''assertion''] then ''ASSERTION''
         else if contains_any t [''test'', ''fail''] then ''TEST_FAILURE''
         else if contains_any t [''linker'', ''ld:''] then ''LINKER_DIAG''
         else if x_file (ob_extracted ob) \<noteq> [] \<and> contains_any t [''error''] then ''COMPILER_DIAG''
         else ''INFO'')"

definition parse_output :: "string \<Rightarrow> observation" where
  "parse_output raw =
     (let raw = normalized raw;
          (message, ob) = fold parse_line (split_byte (CHR 0x0A) raw) ([], zero_observation);
          ob = ob\<lparr>ob_text := join '' | '' message, ob_raw_hash := hash_raw raw\<rparr>;
          ob = ob\<lparr>ob_severity := classify_severity ob\<rparr>
      in ob\<lparr>ob_event_type := classify_event_type ob\<rparr>)"

text \<open>The template of a log line; the digits test after the letters can never hold.\<close>

definition template_char :: "char \<Rightarrow> char" where
  "template_char c =
     (if is_digit c \<or> is_upper c \<or> is_lower c \<or> c = CHR ''_'' then c
      else if is_digit c then CHR ''%'' else CHR '' '')"

definition runtime_template :: "string \<Rightarrow> string" where
  "runtime_template s = trim_space (map template_char s)"

end
