(* ===== verification/LogTemplates.thy ===== *)
theory LogTemplates
  imports RuntimeParser
begin

text \<open>
  \<open>internal/runtime/logtemplate.go\<close>: the store of log templates. Templates are shared by
  pointer; a template in the store is written through its key, and the store's list order is the
  order a range loop visits the map in. The clock is an argument.
\<close>

section \<open>Model\<close>

record log_template =
  lt_id :: string
  lt_project :: string
  lt_template :: string
  lt_sources :: "string list"
  lt_count :: int
  lt_first_seen :: string
  lt_last_seen :: string
  lt_samples :: "string list"

record template_store =
  templates :: "log_template store"
  template_ids :: "string list store"

definition new_template_store :: template_store where
  "new_template_store = \<lparr>templates = [], template_ids = []\<rparr>"

text \<open>
  \<open>newID\<close> formats the time with the layout \<open>nanoid\<close>. A layout element is one of Go's
  reference date, and the word contains none, so the result is the layout itself.
\<close>

definition new_template_id :: string where
  "new_template_id = ''nanoid''"

definition template_key :: "string \<Rightarrow> string \<Rightarrow> string" where
  "template_key project normalized_text = project @ '':'' @ normalized_text"

definition register_id :: "string \<Rightarrow> string \<Rightarrow> template_store \<Rightarrow> template_store" where
  "register_id project i s =
     s\<lparr>template_ids := AList.update project (slot (template_ids s) project @ [i]) (template_ids s)\<rparr>"

definition find_or_create :: "string \<Rightarrow> string \<Rightarrow> string \<Rightarrow> template_store \<Rightarrow>
  (log_template \<times> bool) \<times> template_store" where
  "find_or_create now project raw s =
     (let n = runtime_template raw; key = template_key project n
      in case map_of (templates s) key of
           Some t \<Rightarrow> ((t, False), s)
         | None \<Rightarrow>
             (let t = \<lparr>lt_id = new_template_id, lt_project = project, lt_template = n, lt_sources = [],
                        lt_count = 0, lt_first_seen = now, lt_last_seen = now, lt_samples = []\<rparr>
              in ((t, True), register_id project (lt_id t) (s\<lparr>templates := AList.update key t (templates s)\<rparr>))))"

text \<open>The loops that look for an id stop at the first template that has it.\<close>

fun on_first_id :: "string \<Rightarrow> (log_template \<Rightarrow> log_template) \<Rightarrow> log_template store \<Rightarrow> log_template store" where
  "on_first_id i f [] = []"
| "on_first_id i f ((k, t) # ts) = (if lt_id t = i then (k, f t) # ts else (k, t) # on_first_id i f ts)"

definition increment :: "string \<Rightarrow> string \<Rightarrow> string \<Rightarrow> template_store \<Rightarrow> template_store" where
  "increment now i sample s =
     s\<lparr>templates := on_first_id i
        (\<lambda>t. t\<lparr>lt_count := lt_count t + 1, lt_last_seen := now,
               lt_samples := (if sample \<noteq> [] \<and> length (lt_samples t) < 5 then lt_samples t @ [sample]
                              else lt_samples t)\<rparr>) (templates s)\<rparr>"

definition get_template :: "string \<Rightarrow> template_store \<Rightarrow> log_template option" where
  "get_template i s = map_of (templates s) i"

definition templates_of_project :: "string \<Rightarrow> template_store \<Rightarrow> log_template list" where
  "templates_of_project project s = filter (\<lambda>t. lt_project t = project) (map snd (templates s))"

definition link_source :: "string \<Rightarrow> string \<Rightarrow> template_store \<Rightarrow> template_store" where
  "link_source i source s =
     s\<lparr>templates := on_first_id i
        (\<lambda>t. if source \<in> set (lt_sources t) then t else t\<lparr>lt_sources := lt_sources t @ [source]\<rparr>)
        (templates s)\<rparr>"

definition load_template :: "log_template \<Rightarrow> template_store \<Rightarrow> template_store" where
  "load_template t s =
     register_id (lt_project t) (lt_id t)
       (s\<lparr>templates := AList.update (template_key (lt_project t) (runtime_template (lt_template t))) t (templates s)\<rparr>)"

definition load_from_graph :: "log_template list \<Rightarrow> template_store \<Rightarrow> template_store" where
  "load_from_graph ts s = fold load_template ts s"

text \<open>A worker writes the first count and sample of a new template through the pointer it got.\<close>

definition set_first_sample :: "string \<Rightarrow> string \<Rightarrow> template_store \<Rightarrow> template_store" where
  "set_first_sample key sample s =
     (case map_of (templates s) key of
        None \<Rightarrow> s
      | Some t \<Rightarrow> s\<lparr>templates := AList.update key (t\<lparr>lt_count := 1, lt_samples := [sample]\<rparr>) (templates s)\<rparr>)"

section \<open>Reachable stores\<close>

inductive template_run :: "template_store \<Rightarrow> bool" where
  new: "template_run new_template_store"
| found: "template_run s \<Longrightarrow> template_run (snd (find_or_create now project raw s))"
| incremented: "template_run s \<Longrightarrow> template_run (increment now i sample s)"
| linked: "template_run s \<Longrightarrow> template_run (link_source i source s)"
| loaded: "template_run s \<Longrightarrow> template_run (load_from_graph ts s)"
| sampled: "template_run s \<Longrightarrow> template_run (set_first_sample key sample s)"

lemma keys_on_first_id [simp]: "keys (on_first_id i f ts) = keys ts"
  by (induction i f ts rule: on_first_id.induct) simp_all

definition colon_keys :: "template_store \<Rightarrow> bool" where
  "colon_keys s \<longleftrightarrow> list_all (\<lambda>k. CHR '':'' \<in> set k) (keys (templates s))"

lemma colon_keys_update:
  "list_all P (keys m) \<Longrightarrow> P k \<Longrightarrow> list_all P (keys (AList.update k v m))"
  by (induction m) auto

lemma colon_in_key: "CHR '':'' \<in> set (template_key project n)"
  by (simp add: template_key_def)

lemma colon_keys_load: "colon_keys s \<Longrightarrow> colon_keys (load_template t s)"
  by (simp add: load_template_def register_id_def colon_keys_def colon_keys_update colon_in_key)

lemma colon_keys_run: "template_run s \<Longrightarrow> colon_keys s"
proof (induction rule: template_run.induct)
  case (found s now project raw)
  then show ?case
    by (auto simp: find_or_create_def Let_def register_id_def colon_keys_def intro!: colon_keys_update colon_in_key split: option.splits)
next
  case (loaded s ts)
  have "colon_keys s' \<Longrightarrow> colon_keys (fold load_template ts s')" for s'
    by (induction ts arbitrary: s') (simp_all add: colon_keys_load)
  with loaded show ?case by (simp add: load_from_graph_def)
next
  case (sampled s key sample)
  show ?case
  proof (cases "map_of (templates s) key")
    case (Some t)
    then have "key \<in> set (keys (templates s))" by (force dest: map_of_SomeD)
    with sampled Some show ?thesis by (simp add: set_first_sample_def colon_keys_def AList.update_keys)
  qed (use sampled in \<open>simp add: set_first_sample_def\<close>)
qed (simp_all add: new_template_store_def colon_keys_def increment_def link_source_def)

lemma on_first_id_append:
  "list_ex (\<lambda>(k, t). lt_id t = i) xs \<Longrightarrow> on_first_id i f (xs @ ys) = on_first_id i f xs @ ys"
  by (induction i f xs rule: on_first_id.induct) auto

lemma map_of_None_on_first_id: "map_of (on_first_id i f ts) k = None \<longleftrightarrow> map_of ts k = None"
  by (simp add: map_of_eq_None_iff flip: set_map)

lemma created_template:
  assumes "find_or_create now project raw s = ((t, True), s1)"
  shows "lt_id t = new_template_id" "map_of (templates s) (template_key project (runtime_template raw)) = None"
    "templates s1 = templates s @ [(template_key project (runtime_template raw), t)]"
  using assms by (auto simp: find_or_create_def Let_def register_id_def update_fresh split: option.splits)

text \<open>
  Templates cannot be told apart by id: two new log lines get templates of the same id, none is
  found under its id, and counting an occurrence of the second (its id is what the worker
  passes) leaves it as it is and counts one visited before it.
\<close>

theorem template_ids_collide:
  assumes "template_run s" "find_or_create now project raw s = ((t, True), s1)"
    and "find_or_create now' project' raw' s1 = ((t', True), s2)"
  shows "lt_id t' = lt_id t \<and> get_template (lt_id t') s2 = None \<and>
    map_of (templates (increment now'' (lt_id t') sample s2)) (template_key project' (runtime_template raw')) = Some t'"
proof -
  note c1 = created_template [OF assms(2)] and c2 = created_template [OF assms(3)]
  have "template_run s2" using template_run.found [OF template_run.found [OF assms(1)]] assms(2,3) by (metis snd_conv)
  then have keys: "list_all (\<lambda>k. CHR '':'' \<in> set k) (keys (templates s2))"
    using colon_keys_run by (simp add: colon_keys_def)
  have "CHR '':'' \<notin> set (lt_id t')" by (simp add: c2(1) new_template_id_def)
  then have "get_template (lt_id t') s2 = None"
    using keys by (auto simp: get_template_def map_of_eq_None_iff list_all_iff)
  moreover have "list_ex (\<lambda>(k, t). lt_id t = lt_id t') (templates s1)" by (simp add: c1 c2(1))
  then have "templates (increment now'' (lt_id t') sample s2) =
      on_first_id (lt_id t') (\<lambda>t. t\<lparr>lt_count := lt_count t + 1, lt_last_seen := now'',
        lt_samples := (if sample \<noteq> [] \<and> length (lt_samples t) < 5 then lt_samples t @ [sample] else lt_samples t)\<rparr>)
        (templates s1) @ [(template_key project' (runtime_template raw'), t')]"
    by (simp add: increment_def c2(3) on_first_id_append)
  then have "map_of (templates (increment now'' (lt_id t') sample s2)) (template_key project' (runtime_template raw')) = Some t'"
    by (simp add: map_add_def map_of_None_on_first_id [THEN iffD2, OF c2(2)])
  ultimately show ?thesis using c1(1) c2(1) by simp
qed

lemma template_ids_collide_witness:
  "let s1 = snd (find_or_create ''now'' ''p'' ''a'' new_template_store);
       r = find_or_create ''now'' ''p'' ''b'' s1
   in get_template (lt_id (fst (fst r))) (snd r) = None"
proof -
  have "snd (fst (find_or_create ''now'' ''p'' ''a'' new_template_store))" by code_simp
  then obtain t where t: "find_or_create ''now'' ''p'' ''a'' new_template_store =
      ((t, True), snd (find_or_create ''now'' ''p'' ''a'' new_template_store))"
    by (metis prod.collapse)
  let ?r = "find_or_create ''now'' ''p'' ''b'' (snd (find_or_create ''now'' ''p'' ''a'' new_template_store))"
  have "snd (fst ?r)" by code_simp
  then have "?r = ((fst (fst ?r), True), snd ?r)" by (simp add: prod_eq_iff)
  from template_ids_collide [OF template_run.new t this, THEN conjunct2, THEN conjunct1]
  show ?thesis by (simp only: Let_def)
qed

end
