(* ===== verification/RuntimeObserver.thy ===== *)
theory RuntimeObserver
  imports RuntimeQueue LogTemplates MemoryGraph GoFloat GoSha256
begin

text \<open>
  \<open>internal/runtime/resolver.go\<close>, \<open>internal/runtime/observer.go\<close> and \<open>internal/services/runtime.go\<close>:
  from a captured event to an observation node and its links to code. The repository is the
  dictionary of its operations. The code index is an interface the services set, so it is a
  record of functions that may be missing. A node a repository hands out may be the stored one;
  \<open>written\<close> says what a write through it does to the repository.
\<close>

section \<open>The resolver\<close>

record code_index =
  idx_symbol :: "string \<Rightarrow> string \<Rightarrow> string"
  idx_file_line :: "string \<Rightarrow> string \<Rightarrow> int \<Rightarrow> string"
  idx_address :: "string \<Rightarrow> string \<Rightarrow> string"
  idx_binary_function :: "string \<Rightarrow> string \<Rightarrow> string \<Rightarrow> string"

record resolution =
  res_target :: string
  res_kind :: string
  res_evidence :: string
  res_confidence :: f64
  res_method :: string
  res_reason :: string

definition ev_direct :: string where "ev_direct = ''DIRECT''"
definition ev_strong :: string where "ev_strong = ''STRONG''"
definition ev_unresolved :: string where "ev_unresolved = ''UNRESOLVED''"

definition conf_95 :: f64 where "conf_95 = round_double (95 / 100)"
definition conf_90 :: f64 where "conf_90 = round_double (9 / 10)"

definition resolved :: "string \<Rightarrow> string \<Rightarrow> string \<Rightarrow> f64 \<Rightarrow> string \<Rightarrow> string \<Rightarrow> resolution" where
  "resolved target kind evidence conf method reason =
     \<lparr>res_target = target, res_kind = kind, res_evidence = evidence, res_confidence = conf,
      res_method = method, res_reason = reason\<rparr>"

text \<open>A lookup in the index, if there is one; the empty id means nothing was found.\<close>

definition indexed :: "code_index option \<Rightarrow> (code_index \<Rightarrow> string) \<Rightarrow> string option" where
  "indexed idx q = (case idx of None \<Rightarrow> None | Some i \<Rightarrow> (if q i = [] then None else Some (q i)))"

text \<open>The first node of a lookup; an error counts as nothing found.\<close>

definition first_node :: "'r repo_ops \<Rightarrow> string \<Rightarrow> props \<Rightarrow> 'r \<Rightarrow> string option \<times> 'r" where
  "first_node G kind filters r =
     (case op_find G kind filters r of
        (Inr (n # _), r) \<Rightarrow> (Some (node_id n), r)
      | (_, r) \<Rightarrow> (None, r))"

definition obs_in_project :: "observation \<Rightarrow> string \<Rightarrow> string \<Rightarrow> props" where
  "obs_in_project ob key v = put_all [(key, VStr v), (''project_id'', VStr (ob_project ob))] []"

definition resolve_symbol :: "'r repo_ops \<Rightarrow> code_index option \<Rightarrow> observation \<Rightarrow> 'r \<Rightarrow> resolution \<times> 'r" where
  "resolve_symbol G idx ob r =
     (let sym = x_symbol (ob_extracted ob); kind = ''EMITTED_BY''
      in case indexed idx (\<lambda>i. idx_symbol i (ob_project ob) sym) of
           Some t \<Rightarrow> (resolved t kind ev_strong conf_95 ''exact_symbol_match'' ''exact symbol name match from index'', r)
         | None \<Rightarrow>
             (case first_node G ''Function'' (obs_in_project ob ''name'' sym) r of
                (Some t, r) \<Rightarrow> (resolved t kind ev_direct (Fin 1) ''exact_symbol_match'' ''exact symbol name match from graph'', r)
              | (None, r) \<Rightarrow>
                  (case first_node G ''Function'' (obs_in_project ob ''qualified_name'' sym) r of
                     (Some t, r) \<Rightarrow> (resolved t kind ev_direct (Fin 1) ''exact_qualified_symbol_match''
                                      ''exact qualified symbol name match from graph'', r)
                   | (None, r) \<Rightarrow> (resolved [] kind ev_unresolved (Fin 0) ''symbol_lookup'' ''symbol not found in graph'', r))))"

definition resolve_file_line :: "'r repo_ops \<Rightarrow> code_index option \<Rightarrow> observation \<Rightarrow> 'r \<Rightarrow> resolution \<times> 'r" where
  "resolve_file_line G idx ob r =
     (let x = ob_extracted ob; kind = ''OBSERVED_AT''
      in case indexed idx (\<lambda>i. idx_file_line i (ob_project ob) (x_file x) (x_line x)) of
           Some t \<Rightarrow> (resolved t kind ev_direct (Fin 1) ''exact_file_line_match'' ''exact file:line match from index'', r)
         | None \<Rightarrow>
             (case first_node G ''File'' (obs_in_project ob ''name'' (x_file x)) r of
                (Some t, r) \<Rightarrow> (resolved t kind ev_strong conf_90 ''exact_file_match'' ''file match via graph lookup'', r)
              | (None, r) \<Rightarrow> (resolved [] kind ev_unresolved (Fin 0) ''file_line_lookup'' ''file:line not found in graph'', r)))"

definition resolve_address :: "'r repo_ops \<Rightarrow> code_index option \<Rightarrow> observation \<Rightarrow> 'r \<Rightarrow> resolution option \<times> 'r" where
  "resolve_address G idx ob r =
     (let x = ob_extracted ob; kind = ''OCCURRED_IN'';
          unresolved = resolved [] kind ev_unresolved (Fin 0) ''address_lookup'' ''address not found in binary graph''
      in if x_address x = [] then (None, r)
         else case (if ob_binary ob \<noteq> [] then indexed idx (\<lambda>i. idx_binary_function i (ob_project ob) (ob_binary ob) (x_address x)) else None) of
           Some t \<Rightarrow> (Some (resolved t kind ev_direct (Fin 1) ''address_to_binary_function''
                            ''address resolved to binary function via index''), r)
         | None \<Rightarrow>
             (case first_node G ''BinaryFunction'' (obs_in_project ob ''address'' (x_address x)) r of
                (Some t, r) \<Rightarrow> (Some (resolved t kind ev_direct (Fin 1) ''address_to_binary_function''
                                 ''address resolved to binary function via graph''), r)
              | (None, r) \<Rightarrow>
                  (if x_symbol x \<noteq> []
                   then (case first_node G ''BinaryFunction'' (obs_in_project ob ''name'' (x_symbol x)) r of
                           (Some t, r) \<Rightarrow> (Some (resolved t kind ev_strong conf_95 ''symbol_to_binary_function''
                                            ''symbol resolved to binary function via graph''), r)
                         | (None, r) \<Rightarrow> (Some unresolved, r))
                   else (Some unresolved, r))))"

text \<open>One frame of the stack: unresolved frames give no result.\<close>

definition resolve_frame :: "'r repo_ops \<Rightarrow> code_index option \<Rightarrow> observation \<Rightarrow> string \<Rightarrow> string \<Rightarrow> 'r \<Rightarrow>
  resolution list \<times> 'r" where
  "resolve_frame G idx ob kind frame r =
     (case indexed idx (\<lambda>i. idx_symbol i (ob_project ob) frame) of
        Some t \<Rightarrow> ([resolved t kind ev_strong conf_95 ''stack_frame_symbol'' ''stack frame resolved via index''], r)
      | None \<Rightarrow>
          (case first_node G ''Function'' (obs_in_project ob ''name'' frame) r of
             (Some t, r) \<Rightarrow> ([resolved t kind ev_direct (Fin 1) ''stack_frame_symbol'' ''stack frame resolved via graph''], r)
           | (None, r) \<Rightarrow>
               (case first_node G ''BinaryFunction'' (obs_in_project ob ''name'' frame) r of
                  (Some t, r) \<Rightarrow> ([resolved t kind ev_strong conf_90 ''stack_frame_binary_symbol''
                                   ''stack frame resolved to binary function via graph''], r)
                | (None, r) \<Rightarrow> ([], r))))"

fun resolve_frames :: "'r repo_ops \<Rightarrow> code_index option \<Rightarrow> observation \<Rightarrow> string \<Rightarrow> string list \<Rightarrow> 'r \<Rightarrow>
  resolution list \<times> 'r" where
  "resolve_frames G idx ob kind [] r = ([], r)"
| "resolve_frames G idx ob kind (frame # frames) r =
     (case resolve_frame G idx ob kind frame r of
        (rs, r) \<Rightarrow> (case resolve_frames G idx ob ''CALLER'' frames r of (rs', r) \<Rightarrow> (rs @ rs', r)))"

definition resolve_stack :: "'r repo_ops \<Rightarrow> code_index option \<Rightarrow> observation \<Rightarrow> 'r \<Rightarrow> resolution list \<times> 'r" where
  "resolve_stack G idx ob r = resolve_frames G idx ob ''STACK_FRAME'' (x_stack (ob_extracted ob)) r"

text \<open>The four lookups, each under its guard, one after the other.\<close>

definition guarded :: "bool \<Rightarrow> ('r \<Rightarrow> resolution list \<times> 'r) \<Rightarrow> resolution list \<times> 'r \<Rightarrow> resolution list \<times> 'r" where
  "guarded b f acc =
     (if b then (case acc of (rs, r) \<Rightarrow> (case f r of (rs', r) \<Rightarrow> (rs @ rs', r))) else acc)"

definition resolve_observation :: "'r repo_ops \<Rightarrow> code_index option \<Rightarrow> observation \<Rightarrow> 'r \<Rightarrow> resolution list \<times> 'r" where
  "resolve_observation G idx ob r =
     (let x = ob_extracted ob;
          acc = guarded (x_symbol x \<noteq> []) (\<lambda>r. apfst (\<lambda>a. [a]) (resolve_symbol G idx ob r)) ([], r);
          acc = guarded (x_file x \<noteq> [] \<and> 0 < x_line x) (\<lambda>r. apfst (\<lambda>a. [a]) (resolve_file_line G idx ob r)) acc;
          acc = guarded (x_address x \<noteq> [])
                  (\<lambda>r. apfst (\<lambda>a. case a of None \<Rightarrow> [] | Some a \<Rightarrow> [a]) (resolve_address G idx ob r)) acc
      in guarded (x_stack x \<noteq> []) (resolve_stack G idx ob) acc)"

definition observation_props :: "observation \<Rightarrow> props" where
  "observation_props ob =
     (let x = ob_extracted ob
      in put_all
       [(''session_id'', VStr (ob_session ob)), (''process_id'', VStr (ob_process ob)),
        (''source'', VStr (ob_source ob)), (''stream'', VStr (ob_stream ob)),
        (''raw_hash'', VStr (ob_raw_hash ob)), (''normalized_text'', VStr (ob_text ob)),
        (''severity'', VStr (ob_severity ob)), (''event_type'', VStr (ob_event_type ob)),
        (''file'', VStr (x_file x)), (''line'', VInt (x_line x)), (''symbol'', VStr (x_symbol x)),
        (''address'', VStr (x_address x)), (''offset'', VStr (x_offset x)), (''module'', VStr (x_module x)),
        (''exception'', VStr (x_exception x)), (''error_code'', VStr (x_error_code x)),
        (''test_name'', VStr (x_test_name x)), (''working_directory'', VStr (ob_working_dir ob)),
        (''executable'', VStr (ob_executable ob)), (''binary_id'', VStr (ob_binary ob)),
        (''git_commit'', VStr (ob_git_commit ob)), (''git_branch'', VStr (ob_git_branch ob)),
        (''binary_hash'', VStr (ob_binary_hash ob)), (''source_revision'', VStr (ob_source_revision ob)),
        (''graph_version'', VInt (uint (ob_graph_version ob))), (''timestamp'', VStr (ob_timestamp ob))] [])"

definition observation_identity :: "observation \<Rightarrow> props" where
  "observation_identity ob = put_all [(''id'', VStr (ob_id ob)), (''project_id'', VStr (ob_project ob))] []"

definition create_observation_node :: "string \<Rightarrow> (node \<Rightarrow> 'r \<Rightarrow> 'r) \<Rightarrow> 'r repo_ops \<Rightarrow> observation \<Rightarrow> 'r \<Rightarrow> node res \<times> 'r" where
  "create_observation_node now written G ob r =
     (case op_upsert G now ''RuntimeObservation'' (observation_identity ob) (observation_props ob) r of
        (Inl e, r) \<Rightarrow> (Inl e, r)
      | (Inr n, r) \<Rightarrow>
          (if x_stack (ob_extracted ob) \<noteq> []
           then (let n' = set_property now ''stack_frames'' (VStr (join '','' (x_stack (ob_extracted ob)))) n
                 in (Inr n', written n' r))
           else (Inr n, r)))"

definition link_observation :: "'r repo_ops \<Rightarrow> string \<Rightarrow> resolution \<Rightarrow> 'r \<Rightarrow> unit res \<times> 'r" where
  "link_observation G i res r =
     (if res_target res = [] then (Inr (), r)
      else (case op_link G (res_kind res) i (res_target res)
              (Some (put_all [(''evidence'', VStr (res_evidence res)), (''confidence'', VFlt (res_confidence res)),
                (''method'', VStr (res_method res)), (''reason'', VStr (res_reason res))] [])) r of
              (Inl e, r) \<Rightarrow> (Inl e, r)
            | (Inr _, r) \<Rightarrow> (Inr (), r)))"

section \<open>The observer\<close>

record observer_config =
  oc_queue_size :: int
  oc_drop_policy :: string
  oc_workers :: int
  oc_interval :: int
  oc_privacy :: bool

record session =
  ses_id :: string
  ses_project :: string
  ses_task :: string
  ses_process :: string
  ses_active :: bool
  ses_start :: int

record 'r observer =
  ro_config :: observer_config
  ro_queue :: event_queue
  ro_store :: template_store
  ro_index :: "code_index option"
  ro_sessions :: "session store"
  ro_closed :: bool
  ro_graph :: 'r

text \<open>The clock as an operation reads it: the formatted time, the nanoseconds, the two formats.\<close>

record time_env =
  now_text :: string
  now_ns :: int
  rfc3339 :: "int \<Rightarrow> string"
  rfc3339_nano :: "int \<Rightarrow> string"

definition new_runtime_observer :: "int \<Rightarrow> 'r \<Rightarrow> observer_config \<Rightarrow> 'r observer" where
  "new_runtime_observer cpus g cfg =
     (let cfg = (if oc_workers cfg \<le> 0 then cfg\<lparr>oc_workers := cpus\<rparr> else cfg);
          cfg = (if oc_interval cfg \<le> 0 then cfg\<lparr>oc_interval := 100000000\<rparr> else cfg)
      in \<lparr>ro_config = cfg,
          ro_queue = new_event_queue \<lparr>capacity = oc_queue_size cfg, drop_policy = oc_drop_policy cfg, metrics_enabled = False\<rparr>,
          ro_store = new_template_store, ro_index = None, ro_sessions = [], ro_closed = False, ro_graph = g\<rparr>)"

definition set_code_index :: "code_index option \<Rightarrow> 'r observer \<Rightarrow> 'r observer" where
  "set_code_index idx ob = ob\<lparr>ro_index := idx\<rparr>"

text \<open>\<open>Stop\<close> closes once; waiting for the workers is \<open>worker\<close> of the queue.\<close>

definition stop_observer :: "'r observer \<Rightarrow> unit res \<times> 'r observer" where
  "stop_observer ob =
     (if ro_closed ob then (Inr (), ob)
      else (case close_queue (ro_queue ob) of (r, q) \<Rightarrow> (r, ob\<lparr>ro_closed := True, ro_queue := q\<rparr>)))"

definition extract_sample_value :: "string \<Rightarrow> string" where
  "extract_sample_value s =
     (let l = last (split_byte (CHR '' '') s)
      in if 0 < length l \<and> length l < 50 then l
         else if 50 < length s then take 50 s @ ''...'' else s)"

definition metadata_or :: "string \<Rightarrow> observation_event \<Rightarrow> string \<Rightarrow> string" where
  "metadata_or key e old = (case map_of (ev_metadata e) key of None \<Rightarrow> old | Some v \<Rightarrow> v)"

definition parse_event :: "time_env \<Rightarrow> observation_event \<Rightarrow> observation" where
  "parse_event clk e =
     (let ob = parse_output (ev_raw e)
      in ob\<lparr>ob_id := ev_id e, ob_project := ev_project e, ob_session := ev_session e,
            ob_process := ev_process e, ob_source := ev_source e, ob_stream := ev_stream e,
            ob_timestamp := rfc3339_nano clk (ev_time e),
            ob_working_dir := metadata_or ''working_dir'' e (ob_working_dir ob),
            ob_executable := metadata_or ''executable'' e (ob_executable ob),
            ob_binary := metadata_or ''binary_id'' e (ob_binary ob),
            ob_git_commit := metadata_or ''git_commit'' e (ob_git_commit ob),
            ob_git_branch := metadata_or ''git_branch'' e (ob_git_branch ob),
            ob_binary_hash := metadata_or ''binary_hash'' e (ob_binary_hash ob)\<rparr>)"

definition count_template :: "time_env \<Rightarrow> string \<Rightarrow> string \<Rightarrow> template_store \<Rightarrow> log_template \<times> template_store" where
  "count_template clk project line s =
     (case find_or_create (now_text clk) project line s of
        ((t, created), s) \<Rightarrow>
          (if created
           then (t\<lparr>lt_count := 1, lt_samples := [extract_sample_value line]\<rparr>,
                 set_first_sample (template_key project (runtime_template line)) (extract_sample_value line) s)
           else (t, increment (now_text clk) (lt_id t) (extract_sample_value line) s)))"

fun link_resolutions :: "'r repo_ops \<Rightarrow> string \<Rightarrow> resolution list \<Rightarrow> 'r \<Rightarrow> 'r" where
  "link_resolutions G i [] r = r"
| "link_resolutions G i (res # rs) r =
     link_resolutions G i rs (if res_target res \<noteq> [] then snd (link_observation G i res r) else r)"

definition link_template :: "'r repo_ops \<Rightarrow> string \<Rightarrow> log_template \<Rightarrow> 'r \<Rightarrow> 'r" where
  "link_template G i t r =
     (if lt_id t \<noteq> [] \<and> lt_sources t \<noteq> []
      then snd (op_link G ''MATCHES_LOG_TEMPLATE'' i (lt_id t)
             (Some (put_all [(''evidence'', VStr ev_strong), (''confidence'', VFlt conf_90),
                (''method'', VStr ''log_template_match''), (''reason'', VStr ''normalized log template match'')] [])) r)
      else r)"

definition link_session :: "time_env \<Rightarrow> 'r repo_ops \<Rightarrow> session store \<Rightarrow> string \<Rightarrow> observation_event \<Rightarrow> 'r \<Rightarrow> 'r" where
  "link_session clk G sessions i e r =
     (case map_of sessions (ev_session e) of
        None \<Rightarrow> r
      | Some s \<Rightarrow>
          (if ses_task s \<noteq> []
           then snd (op_link G ''RELATED_TO'' i (ses_task s)
                  (Some (put_all [(''session_id'', VStr (ev_session e)), (''timestamp'', VStr (rfc3339 clk (ev_time e)))] [])) r)
           else r))"

definition process_event :: "time_env \<Rightarrow> (node \<Rightarrow> 'r \<Rightarrow> 'r) \<Rightarrow> 'r repo_ops \<Rightarrow> observation_event \<Rightarrow> 'r observer \<Rightarrow> 'r observer" where
  "process_event clk written G e ro =
     (let ob = parse_event clk e;
          (t, store) = count_template clk (ev_project e) (ob_text ob) (ro_store ro);
          ro = ro\<lparr>ro_store := store\<rparr>
      in case create_observation_node (now_text clk) written G ob (ro_graph ro) of
           (Inl _, r) \<Rightarrow> ro\<lparr>ro_graph := r\<rparr>
         | (Inr n, r) \<Rightarrow>
             (case resolve_observation G (ro_index ro) ob r of
                (rs, r) \<Rightarrow>
                  ro\<lparr>ro_graph := link_session clk G (ro_sessions ro) (node_id n) e
                       (link_template G (node_id n) t (link_resolutions G (node_id n) rs r))\<rparr>))"

definition generate_event_id :: "time_env \<Rightarrow> string" where
  "generate_event_id clk = ''obs_'' @ take 16 (hex_bytes (sha256 (itoa (now_ns clk))))"

definition capture_process_output :: "time_env \<Rightarrow> string \<Rightarrow> string \<Rightarrow> string \<Rightarrow> string \<Rightarrow> string \<Rightarrow> string store \<Rightarrow>
  'r observer \<Rightarrow> bool \<times> 'r observer" where
  "capture_process_output clk project sess process output stream metadata ro =
     (let e = \<lparr>ev_id = generate_event_id clk, ev_project = project, ev_session = sess, ev_process = process,
               ev_source = [], ev_stream = stream, ev_time = now_ns clk, ev_raw = output, ev_metadata = metadata\<rparr>
      in case enqueue e (ro_queue ro) of (b, q) \<Rightarrow> (b, ro\<lparr>ro_queue := q\<rparr>))"

definition capture_output :: "time_env \<Rightarrow> string \<Rightarrow> string \<Rightarrow> string \<Rightarrow> string \<Rightarrow> 'r observer \<Rightarrow> bool \<times> 'r observer" where
  "capture_output clk project sess output stream ro = capture_process_output clk project sess [] output stream [] ro"

definition register_session :: "time_env \<Rightarrow> string \<Rightarrow> string \<Rightarrow> string \<Rightarrow> 'r observer \<Rightarrow> 'r observer" where
  "register_session clk sess project task ro =
     ro\<lparr>ro_sessions := AList.update sess
       \<lparr>ses_id = sess, ses_project = project, ses_task = task, ses_process = [], ses_active = True,
        ses_start = now_ns clk\<rparr> (ro_sessions ro)\<rparr>"

definition unregister_session :: "string \<Rightarrow> 'r observer \<Rightarrow> 'r observer" where
  "unregister_session sess ro =
     (case map_of (ro_sessions ro) sess of
        None \<Rightarrow> ro
      | Some s \<Rightarrow> ro\<lparr>ro_sessions := AList.update sess (s\<lparr>ses_active := False\<rparr>) (ro_sessions ro)\<rparr>)"

text \<open>
  \<open>StartProcess\<close> reads the process id of the command before it starts the command. The two pipes
  and the start are the operating system's answers; a command that was not started has no process.
\<close>

definition process_of_new_command :: "nat option" where
  "process_of_new_command = None"

definition start_process :: "time_env \<Rightarrow> string \<Rightarrow> string \<Rightarrow> unit res \<Rightarrow> unit res \<Rightarrow> unit res \<Rightarrow> 'r observer \<Rightarrow>
  unit res \<times> 'r observer" where
  "start_process clk project sess stdout_pipe stderr_pipe started ro =
     (case stdout_pipe of
        Inl e \<Rightarrow> (Inl e, ro)
      | Inr _ \<Rightarrow>
          (case stderr_pipe of
             Inl e \<Rightarrow> (Inl e, ro)
           | Inr _ \<Rightarrow>
               (case process_of_new_command of
                  None \<Rightarrow> (Inl (Panic ''invalid memory address or nil pointer dereference''), ro)
                | Some pid \<Rightarrow>
                    (started, ro\<lparr>ro_sessions := AList.update sess
                       \<lparr>ses_id = sess, ses_project = project, ses_task = [], ses_process = nat_str pid,
                        ses_active = True, ses_start = now_ns clk\<rparr> (ro_sessions ro)\<rparr>))))"

definition observations_by_function :: "'r repo_ops \<Rightarrow> string \<Rightarrow> 'r \<Rightarrow> node list res \<times> 'r" where
  "observations_by_function G fn r =
     (case op_neighbors G fn ''EMITTED_BY'' DirIn r of
        (Inl e, r) \<Rightarrow> (Inl e, r)
      | (Inr es, r) \<Rightarrow> (Inr (filter (\<lambda>n. node_kind n = ''RuntimeObservation'') (map snd es)), r))"

definition observations_by_project :: "'r repo_ops \<Rightarrow> string \<Rightarrow> int \<Rightarrow> 'r \<Rightarrow> node list res \<times> 'r" where
  "observations_by_project G project limit r =
     (case op_find G ''RuntimeObservation'' [(''project_id'', VStr project)] r of
        (Inl e, r) \<Rightarrow> (Inl e, r)
      | (Inr ns, r) \<Rightarrow> (Inr (if 0 < limit \<and> limit < int (length ns) then take (nat limit) ns else ns), r))"

section \<open>The runtime service\<close>

definition runtime_service_config :: observer_config where
  "runtime_service_config = \<lparr>oc_queue_size = 10000, oc_drop_policy = policy_drop, oc_workers = 4,
     oc_interval = 100000000, oc_privacy = False\<rparr>"

definition template_props :: "log_template \<Rightarrow> props" where
  "template_props t = put_all
     [(''id'', VStr (lt_id t)), (''project_id'', VStr (lt_project t)), (''template'', VStr (lt_template t)),
      (''source_ids'', VStrs (lt_sources t)), (''count'', VInt (lt_count t)), (''first_seen'', VStr (lt_first_seen t)),
      (''last_seen'', VStr (lt_last_seen t)), (''sample_vals'', VStrs (lt_samples t))] []"

definition edge_to_map :: "edge \<Rightarrow> props" where
  "edge_to_map e = put_all (case edge_props e of None \<Rightarrow> [] | Some m \<Rightarrow> m)
     (put_all [(''id'', VStr (edge_id e)), (''kind'', VStr (edge_kind e)), (''from_id'', VStr (edge_from e)),
               (''to_id'', VStr (edge_to e))] [])"

definition related_observations :: "'r repo_ops \<Rightarrow> string \<Rightarrow> 'r \<Rightarrow> props list res \<times> 'r" where
  "related_observations G i r =
     (case op_neighbors G i [] DirBoth r of
        (Inl e, r) \<Rightarrow> (Inl e, r)
      | (Inr es, r) \<Rightarrow> (Inr (map (\<lambda>(e, n). put_all [(''edge'', VObj (edge_to_map e)), (''node'', VObj (present n))] []) es), r))"

definition edge_prop :: "edge \<Rightarrow> string \<Rightarrow> val" where
  "edge_prop e k = pget (case edge_props e of None \<Rightarrow> [] | Some m \<Rightarrow> m) k"

definition explain_relation :: "'r repo_ops \<Rightarrow> string \<Rightarrow> string \<Rightarrow> 'r \<Rightarrow> props option res \<times> 'r" where
  "explain_relation G i target r =
     (case op_neighbors G i [] DirOut r of
        (Inl e, r) \<Rightarrow> (Inl e, r)
      | (Inr es, r) \<Rightarrow>
          (Inr (map_option (\<lambda>(e, n). put_all
             [(''observation_id'', VStr i), (''target_id'', VStr target), (''relation_kind'', VStr (edge_kind e)),
              (''evidence'', edge_prop e ''evidence''), (''confidence'', edge_prop e ''confidence''),
              (''method'', edge_prop e ''method''), (''reason'', edge_prop e ''reason'')] [])
             (find (\<lambda>(_, n). node_id n = target) es)), r))"

definition runtime_stats :: "'r observer \<Rightarrow> props" where
  "runtime_stats ro =
     (let st = queue_stats_of (ro_queue ro)
      in put_all [(''queue_count'', VInt (stat_count st)), (''queue_capacity'', VInt (int (stat_capacity st))),
           (''dropped'', VInt (stat_dropped st)), (''num_sessions'', VInt (int (length (ro_sessions ro))))] [])"

record agent_event =
  ae_project :: string
  ae_session :: string
  ae_kind :: string
  ae_content :: string
  ae_entity :: string
  ae_confidence :: f64

text \<open>The id the event is given here is not the one the captured event gets.\<close>

definition agent_observation_id :: "string \<Rightarrow> string" where
  "agent_observation_id project = ''agent_'' @ project @ ''_nanoid''"

definition record_agent_event :: "time_env \<Rightarrow> 'r repo_ops \<Rightarrow> agent_event \<Rightarrow> 'r observer \<Rightarrow> 'r observer" where
  "record_agent_event clk G a ro =
     (case capture_output clk (ae_project a) (ae_session a) (ae_content a) ''agent'' ro of
        (captured, ro) \<Rightarrow>
          (if \<not> captured then ro
           else if ae_entity a \<noteq> []
           then (case indexed (ro_index ro) (\<lambda>i. idx_symbol i (ae_project a) (ae_entity a)) of
                   None \<Rightarrow> ro
                 | Some target \<Rightarrow>
                     ro\<lparr>ro_graph := snd (op_link G ''REFERENCES'' target (agent_observation_id (ae_project a))
                          (Some (put_all [(''agent_event'', VStr (ae_kind a)), (''content'', VStr (ae_content a)),
                             (''confidence'', VFlt (ae_confidence a))] [])) (ro_graph ro))\<rparr>)
           else ro))"

end
