(* ===== verification/RuntimeProperties.thy ===== *)
theory RuntimeProperties
  imports RuntimeObserver
begin

text \<open>What the observer makes of captured output, on the in-memory repository.\<close>

section \<open>Grades of evidence\<close>

text \<open>
  A node of the observation's project with the given kind and property, the least such; and that
  there is none. Both speak of the stored nodes only.
\<close>

definition is_hit :: "mem_repo \<Rightarrow> observation \<Rightarrow> string \<Rightarrow> string \<Rightarrow> string \<Rightarrow> string \<Rightarrow> bool" where
  "is_hit r ob kind key v t \<longleftrightarrow>
     (\<exists>n. map_of (nodes r) t = Some n \<and> node_kind n = kind \<and> pget (node_props n) key = VStr v \<and>
          pget (node_props n) ''project_id'' = VStr (ob_project ob))"

definition hit :: "mem_repo \<Rightarrow> observation \<Rightarrow> string \<Rightarrow> string \<Rightarrow> string \<Rightarrow> string \<Rightarrow> bool" where
  "hit r ob kind key v t \<longleftrightarrow> is_hit r ob kind key v t \<and> (\<forall>t'. is_hit r ob kind key v t' \<longrightarrow> t \<le> t')"

definition miss :: "mem_repo \<Rightarrow> observation \<Rightarrow> string \<Rightarrow> string \<Rightarrow> string \<Rightarrow> bool" where
  "miss r ob kind key v \<longleftrightarrow> (\<forall>t. \<not> is_hit r ob kind key v t)"

text \<open>
  How a target may be found, and the kind, evidence level, confidence and method that go with it.
  Each rule but the first of a group also says that the better ways before it found nothing. The
  two functions are the index's answers for a symbol and for a frame, a file and line, an address.
\<close>

definition ask_symbol :: "code_index option \<Rightarrow> observation \<Rightarrow> string \<Rightarrow> string option" where
  "ask_symbol idx ob name = indexed idx (\<lambda>i. idx_symbol i (ob_project ob) name)"

definition ask_line :: "code_index option \<Rightarrow> observation \<Rightarrow> string option" where
  "ask_line idx ob = indexed idx (\<lambda>i. idx_file_line i (ob_project ob) (x_file (ob_extracted ob)) (x_line (ob_extracted ob)))"

definition ask_binary :: "code_index option \<Rightarrow> observation \<Rightarrow> string option" where
  "ask_binary idx ob = (if ob_binary ob = [] then None
     else indexed idx (\<lambda>i. idx_binary_function i (ob_project ob) (ob_binary ob) (x_address (ob_extracted ob))))"

abbreviation seen_symbol :: "observation \<Rightarrow> string" where "seen_symbol ob \<equiv> x_symbol (ob_extracted ob)"
abbreviation seen_address :: "observation \<Rightarrow> string" where "seen_address ob \<equiv> x_address (ob_extracted ob)"

inductive found :: "code_index option \<Rightarrow> observation \<Rightarrow> mem_repo \<Rightarrow> resolution \<Rightarrow> bool"
  for idx :: "code_index option" and ob :: observation and r :: mem_repo where
  symbol_by_index: "seen_symbol ob \<noteq> [] \<Longrightarrow> ask_symbol idx ob (seen_symbol ob) = Some t \<Longrightarrow>
    found idx ob r (resolved t ''EMITTED_BY'' ev_strong conf_95 ''exact_symbol_match'' s)"
| symbol_by_name: "seen_symbol ob \<noteq> [] \<Longrightarrow> ask_symbol idx ob (seen_symbol ob) = None \<Longrightarrow>
    hit r ob ''Function'' ''name'' (seen_symbol ob) t \<Longrightarrow>
    found idx ob r (resolved t ''EMITTED_BY'' ev_direct (Fin 1) ''exact_symbol_match'' s)"
| symbol_by_qualified_name: "seen_symbol ob \<noteq> [] \<Longrightarrow> ask_symbol idx ob (seen_symbol ob) = None \<Longrightarrow>
    miss r ob ''Function'' ''name'' (seen_symbol ob) \<Longrightarrow> hit r ob ''Function'' ''qualified_name'' (seen_symbol ob) t \<Longrightarrow>
    found idx ob r (resolved t ''EMITTED_BY'' ev_direct (Fin 1) ''exact_qualified_symbol_match'' s)"
| symbol_unknown: "seen_symbol ob \<noteq> [] \<Longrightarrow> ask_symbol idx ob (seen_symbol ob) = None \<Longrightarrow>
    miss r ob ''Function'' ''name'' (seen_symbol ob) \<Longrightarrow> miss r ob ''Function'' ''qualified_name'' (seen_symbol ob) \<Longrightarrow>
    found idx ob r (resolved [] ''EMITTED_BY'' ev_unresolved (Fin 0) ''symbol_lookup'' s)"
| line_by_index: "ask_line idx ob = Some t \<Longrightarrow>
    found idx ob r (resolved t ''OBSERVED_AT'' ev_direct (Fin 1) ''exact_file_line_match'' s)"
| line_by_file: "ask_line idx ob = None \<Longrightarrow> hit r ob ''File'' ''name'' (x_file (ob_extracted ob)) t \<Longrightarrow>
    found idx ob r (resolved t ''OBSERVED_AT'' ev_strong conf_90 ''exact_file_match'' s)"
| line_unknown: "ask_line idx ob = None \<Longrightarrow> miss r ob ''File'' ''name'' (x_file (ob_extracted ob)) \<Longrightarrow>
    found idx ob r (resolved [] ''OBSERVED_AT'' ev_unresolved (Fin 0) ''file_line_lookup'' s)"
| address_by_index: "ask_binary idx ob = Some t \<Longrightarrow>
    found idx ob r (resolved t ''OCCURRED_IN'' ev_direct (Fin 1) ''address_to_binary_function'' s)"
| address_by_address: "ask_binary idx ob = None \<Longrightarrow> hit r ob ''BinaryFunction'' ''address'' (seen_address ob) t \<Longrightarrow>
    found idx ob r (resolved t ''OCCURRED_IN'' ev_direct (Fin 1) ''address_to_binary_function'' s)"
| address_by_symbol: "ask_binary idx ob = None \<Longrightarrow> miss r ob ''BinaryFunction'' ''address'' (seen_address ob) \<Longrightarrow>
    seen_symbol ob \<noteq> [] \<Longrightarrow> hit r ob ''BinaryFunction'' ''name'' (seen_symbol ob) t \<Longrightarrow>
    found idx ob r (resolved t ''OCCURRED_IN'' ev_strong conf_95 ''symbol_to_binary_function'' s)"
| address_unknown: "ask_binary idx ob = None \<Longrightarrow> miss r ob ''BinaryFunction'' ''address'' (seen_address ob) \<Longrightarrow>
    seen_symbol ob = [] \<or> miss r ob ''BinaryFunction'' ''name'' (seen_symbol ob) \<Longrightarrow>
    found idx ob r (resolved [] ''OCCURRED_IN'' ev_unresolved (Fin 0) ''address_lookup'' s)"
| frame_by_index: "frame \<in> set (x_stack (ob_extracted ob)) \<Longrightarrow> kind \<in> {''STACK_FRAME'', ''CALLER''} \<Longrightarrow>
    ask_symbol idx ob frame = Some t \<Longrightarrow>
    found idx ob r (resolved t kind ev_strong conf_95 ''stack_frame_symbol'' s)"
| frame_by_name: "frame \<in> set (x_stack (ob_extracted ob)) \<Longrightarrow> kind \<in> {''STACK_FRAME'', ''CALLER''} \<Longrightarrow>
    ask_symbol idx ob frame = None \<Longrightarrow> hit r ob ''Function'' ''name'' frame t \<Longrightarrow>
    found idx ob r (resolved t kind ev_direct (Fin 1) ''stack_frame_symbol'' s)"
| frame_in_binary: "frame \<in> set (x_stack (ob_extracted ob)) \<Longrightarrow> kind \<in> {''STACK_FRAME'', ''CALLER''} \<Longrightarrow>
    ask_symbol idx ob frame = None \<Longrightarrow> miss r ob ''Function'' ''name'' frame \<Longrightarrow>
    hit r ob ''BinaryFunction'' ''name'' frame t \<Longrightarrow>
    found idx ob r (resolved t kind ev_strong conf_90 ''stack_frame_binary_symbol'' s)"

lemma first_node_mem [simp]:
  "first_node mem_ops kind filters r =
     (case find_nodes_locked kind filters r of [] \<Rightarrow> None | n # _ \<Rightarrow> Some (node_id n), r)"
  by (simp add: first_node_def mem_ops_def find_nodes_def split: list.split)

lemma resolve_parts_mem [simp]:
  "snd (resolve_symbol mem_ops idx ob r) = r" "snd (resolve_file_line mem_ops idx ob r) = r"
  "snd (resolve_address mem_ops idx ob r) = r" "snd (resolve_frame mem_ops idx ob kind frame r) = r"
  by (simp_all add: resolve_symbol_def resolve_file_line_def resolve_address_def resolve_frame_def Let_def
    split: option.split list.split)

text \<open>The repository's lookup of one property within the project is a hit or a miss.\<close>

lemma is_hit_iff:
  assumes "mem_ok r" "kind \<noteq> []" "key \<noteq> ''project_id''"
  shows "is_hit r ob kind key v t \<longleftrightarrow>
    (\<exists>n. n \<in> set (find_nodes_locked kind (obs_in_project ob key v) r) \<and> node_id n = t)"
proof -
  have "node_matches kind (obs_in_project ob key v) n \<longleftrightarrow> node_kind n = kind \<and> pget (node_props n) key = VStr v \<and>
      pget (node_props n) ''project_id'' = VStr (ob_project ob)" for n
    using assms(2,3) by (auto simp: node_matches_iff obs_in_project_def)
  then show ?thesis
    using mem_okD(4) [OF assms(1)] unfolding set_find_locked [OF assms(1)] is_hit_def matching_def by auto
qed

lemma first_node_hit:
  assumes "mem_ok r" "kind \<noteq> []" "key \<noteq> ''project_id''"
  shows "first_node mem_ops kind (obs_in_project ob key v) r = (Some t, r') \<Longrightarrow> hit r ob kind key v t \<and> r' = r"
    "first_node mem_ops kind (obs_in_project ob key v) r = (None, r') \<Longrightarrow> miss r ob kind key v \<and> r' = r"
proof -
  let ?ns = "find_nodes_locked kind (obs_in_project ob key v) r"
  note iff = is_hit_iff [OF assms]
  show "hit r ob kind key v t \<and> r' = r" if "first_node mem_ops kind (obs_in_project ob key v) r = (Some t, r')"
  proof -
    from that obtain n ns where ns: "?ns = n # ns" "t = node_id n" "r' = r" by (cases ?ns) simp_all
    have "sorted_wrt (\<lambda>a b. node_id a < node_id b) (n # ns)"
      using sorted_find_locked [OF assms(1), of kind "obs_in_project ob key v"] unfolding ns(1) .
    then have least: "node_id n \<le> node_id m" if "m \<in> set (n # ns)" for m using that by auto
    have "is_hit r ob kind key v t" unfolding iff using ns(1,2) by auto
    moreover have "t \<le> t'" if "is_hit r ob kind key v t'" for t'
      using that least ns(2) unfolding iff ns(1) by blast
    ultimately show ?thesis using ns(3) by (simp add: hit_def)
  qed
  show "miss r ob kind key v \<and> r' = r" if "first_node mem_ops kind (obs_in_project ob key v) r = (None, r')"
    using that unfolding miss_def iff by (auto split: list.splits)
qed

lemma found_symbol:
  assumes "mem_ok r" "seen_symbol ob \<noteq> []"
  shows "found idx ob r (fst (resolve_symbol mem_ops idx ob r))"
  using assms(2) unfolding resolve_symbol_def Let_def ask_symbol_def [symmetric]
  by (auto simp del: first_node_mem split: option.split prod.split intro: found.intros
    dest: first_node_hit [OF assms(1), rotated -1])

lemma found_file_line:
  assumes "mem_ok r"
  shows "found idx ob r (fst (resolve_file_line mem_ops idx ob r))"
  unfolding resolve_file_line_def Let_def ask_line_def [symmetric]
  by (auto simp del: first_node_mem split: option.split prod.split intro: found.intros
    dest: first_node_hit [OF assms(1), rotated -1])

lemma found_address:
  assumes "mem_ok r" "fst (resolve_address mem_ops idx ob r) = Some a"
  shows "found idx ob r a"
proof -
  have "(if ob_binary ob \<noteq> [] then indexed idx (\<lambda>i. idx_binary_function i (ob_project ob) (ob_binary ob) (seen_address ob)) else None)
    = ask_binary idx ob" by (simp add: ask_binary_def)
  with assms(2) show ?thesis unfolding resolve_address_def Let_def
    by (auto simp del: first_node_mem split: option.splits prod.splits if_splits intro: found.intros
      dest!: first_node_hit [OF assms(1), rotated -1])
qed

lemma found_frame:
  assumes "mem_ok r" "frame \<in> set (x_stack (ob_extracted ob))" "kind \<in> {''STACK_FRAME'', ''CALLER''}"
    and "a \<in> set (fst (resolve_frame mem_ops idx ob kind frame r))"
  shows "found idx ob r a"
  using assms(4) unfolding resolve_frame_def Let_def ask_symbol_def [symmetric]
  by (auto simp del: first_node_mem split: option.splits prod.splits intro!: found.intros(12-) [OF assms(2,3)]
    dest!: first_node_hit [OF assms(1), rotated -1])

lemma resolve_frames_mem: "snd (resolve_frames mem_ops idx ob kind frames r) = r"
proof (induction frames arbitrary: kind)
  case (Cons f fs)
  obtain rs r1 where f: "resolve_frame mem_ops idx ob kind f r = (rs, r1)" by fastforce
  have "r1 = r" using resolve_parts_mem(4) [of idx ob kind f r] unfolding f by simp
  with f Cons [of "''CALLER''"] show ?case by (simp add: case_prod_beta)
qed simp



lemma found_frames:
  assumes "mem_ok r" "set frames \<subseteq> set (x_stack (ob_extracted ob))" "kind \<in> {''STACK_FRAME'', ''CALLER''}"
    and "a \<in> set (fst (resolve_frames mem_ops idx ob kind frames r))"
  shows "found idx ob r a"
  using assms(2-4)
proof (induction frames arbitrary: kind)
  case (Cons f fs)
  obtain rs r1 where f: "resolve_frame mem_ops idx ob kind f r = (rs, r1)" by fastforce
  moreover have "r1 = r" using resolve_parts_mem(4) [of idx ob kind f r] unfolding f by simp
  ultimately have "a \<in> set rs \<or> a \<in> set (fst (resolve_frames mem_ops idx ob ''CALLER'' fs r))"
    using Cons.prems(3) by (auto split: prod.splits)
  then show ?case
  proof
    assume "a \<in> set rs"
    then show ?case using found_frame [OF assms(1), of f ob kind a idx] Cons.prems(1,2) f by simp
  next
    assume "a \<in> set (fst (resolve_frames mem_ops idx ob ''CALLER'' fs r))"
    then show ?case using Cons.IH [of "''CALLER''"] Cons.prems(1) by simp
  qed
qed simp

lemma guarded_fst:
  assumes "snd acc = r" "snd (f r) = r"
  shows "guarded b f acc = (fst acc @ (if b then fst (f r) else []), r)"
  using assms by (cases acc; cases "f r") (auto simp: guarded_def)

lemma resolve_observation_mem:
  "resolve_observation mem_ops idx ob r =
    ((if seen_symbol ob \<noteq> [] then [fst (resolve_symbol mem_ops idx ob r)] else []) @
     (if x_file (ob_extracted ob) \<noteq> [] \<and> 0 < x_line (ob_extracted ob) then [fst (resolve_file_line mem_ops idx ob r)] else []) @
     (if seen_address ob \<noteq> []
      then (case fst (resolve_address mem_ops idx ob r) of None \<Rightarrow> [] | Some a \<Rightarrow> [a]) else []) @
     (if x_stack (ob_extracted ob) \<noteq> [] then fst (resolve_stack mem_ops idx ob r) else []), r)"
  unfolding resolve_observation_def Let_def
  by (simp add: guarded_fst [where r = r] resolve_stack_def resolve_frames_mem)

lemma frame_kinds:
  "res \<in> set (fst (resolve_frames mem_ops idx ob kind frames r)) \<Longrightarrow> kind \<in> {''STACK_FRAME'', ''CALLER''} \<Longrightarrow>
   res_kind res \<in> {''STACK_FRAME'', ''CALLER''}"
proof (induction frames arbitrary: kind)
  case (Cons f fs)
  obtain rs r1 where f: "resolve_frame mem_ops idx ob kind f r = (rs, r1)" by fastforce
  have "r1 = r" using resolve_parts_mem(4) [of idx ob kind f r] unfolding f by simp
  moreover have "res_kind a = kind" if "a \<in> set rs" for a
    using that arg_cong [OF f, of fst] by (auto simp: resolve_frame_def resolved_def split: option.splits list.splits)
  ultimately show ?case using Cons.prems Cons.IH [of "''CALLER''"] f by (auto split: prod.splits)
qed simp

lemma part_kinds:
  "res_kind (fst (resolve_symbol mem_ops idx ob r)) = ''EMITTED_BY''"
  "res_kind (fst (resolve_file_line mem_ops idx ob r)) = ''OBSERVED_AT''"
  "fst (resolve_address mem_ops idx ob r) = Some a \<Longrightarrow> res_kind a = ''OCCURRED_IN''"
  "seen_address ob \<noteq> [] \<Longrightarrow> fst (resolve_address mem_ops idx ob r) \<noteq> None"
  by (auto simp: resolve_symbol_def resolve_file_line_def resolve_address_def resolved_def Let_def
    split: option.splits list.splits if_splits)

text \<open>
  Claim C30. What the resolver proposes on the in-memory repository is graded by how it was found:
  every proposal is one of the rules of \<open>found\<close>, each of which fixes, for one way of finding the
  target (the index, a node's name, its qualified name, its address, its file, or nothing), the
  link's kind, evidence level, confidence and method, and says that the ways tried before it found
  nothing; a target from the graph is the least node with the property asked for. A symbol, a file
  with a positive line and an address give exactly one proposal each, found or unresolved.
\<close>

theorem resolutions_graded:
  fixes idx :: "code_index option" and ob :: observation
  assumes "mem_ok r"
  defines "rs \<equiv> fst (resolve_observation mem_ops idx ob r)"
  shows "list_all (found idx ob r) rs \<and>
    length (filter (\<lambda>a. res_kind a = ''EMITTED_BY'') rs) = (if x_symbol (ob_extracted ob) = [] then 0 else 1) \<and>
    length (filter (\<lambda>a. res_kind a = ''OBSERVED_AT'') rs) =
      (if x_file (ob_extracted ob) = [] \<or> x_line (ob_extracted ob) \<le> 0 then 0 else 1) \<and>
    length (filter (\<lambda>a. res_kind a = ''OCCURRED_IN'') rs) = (if x_address (ob_extracted ob) = [] then 0 else 1)"
proof -
  let ?stack = "if x_stack (ob_extracted ob) \<noteq> [] then fst (resolve_stack mem_ops idx ob r) else []"
  have "res_kind a \<in> {''STACK_FRAME'', ''CALLER''}" if "a \<in> set ?stack" for a
    by (rule frame_kinds [of a idx ob "''STACK_FRAME''" "x_stack (ob_extracted ob)" r])
      (use that in \<open>simp_all add: resolve_stack_def split: if_splits\<close>)
  then have none: "filter (\<lambda>a. res_kind a = k) ?stack = []" if "k \<notin> {''STACK_FRAME'', ''CALLER''}" for k
    using that by (auto simp: filter_empty_conv)
  have stack: "list_all (found idx ob r) ?stack"
    using found_frames [OF assms(1), of "x_stack (ob_extracted ob)" ob "''STACK_FRAME''"]
    by (simp add: resolve_stack_def list_all_iff)
  obtain c where c: "seen_address ob \<noteq> [] \<Longrightarrow> fst (resolve_address mem_ops idx ob r) = Some c"
    using part_kinds(4) [of ob idx r] by fastforce
  define a where "a = fst (resolve_symbol mem_ops idx ob r)"
  define b where "b = fst (resolve_file_line mem_ops idx ob r)"
  have rs: "rs = (if seen_symbol ob \<noteq> [] then [a] else []) @
      (if x_file (ob_extracted ob) \<noteq> [] \<and> 0 < x_line (ob_extracted ob) then [b] else []) @
      (if seen_address ob \<noteq> [] then [c] else []) @ ?stack"
    unfolding rs_def resolve_observation_mem a_def b_def using c by simp
  have k: "res_kind a = ''EMITTED_BY''" "res_kind b = ''OBSERVED_AT''"
    "seen_address ob \<noteq> [] \<Longrightarrow> res_kind c = ''OCCURRED_IN''"
    using part_kinds [where idx = idx and ob = ob and r = r] c by (simp_all add: a_def b_def)
  have f: "seen_symbol ob \<noteq> [] \<Longrightarrow> found idx ob r a" "found idx ob r b"
    "seen_address ob \<noteq> [] \<Longrightarrow> found idx ob r c"
    using found_symbol [OF assms(1), of ob idx] found_file_line [OF assms(1), of idx ob]
      found_address [OF assms(1), of idx ob c] c by (simp_all add: a_def b_def)
  define st where "st = ?stack"
  have st: "list_all (found idx ob r) st" "filter (\<lambda>a. res_kind a = ''EMITTED_BY'') st = []"
    "filter (\<lambda>a. res_kind a = ''OBSERVED_AT'') st = []" "filter (\<lambda>a. res_kind a = ''OCCURRED_IN'') st = []"
    using stack none by (simp_all only: st_def) simp_all
  show ?thesis
    using st k f unfolding rs st_def [symmetric] by auto
qed

text \<open>The witness: a symbol that only the graph knows, by its qualified name.\<close>

lemma resolutions_graded_witness:
  "let r = snd (upsert_node ''now'' ''Function'' [(''project_id'', VStr ''p''), (''qualified_name'', VStr ''f'')] []
             (new_memory_repo demo_ids));
       ob = zero_observation\<lparr>ob_project := ''p'', ob_extracted := no_fields\<lparr>x_symbol := ''f''\<rparr>\<rparr>
   in list_all (found None ob r) (fst (resolve_observation mem_ops None ob r)) \<and>
      map res_method (fst (resolve_observation mem_ops None ob r)) = [''exact_qualified_symbol_match'']"
proof -
  define r where "r = snd (upsert_node ''now'' ''Function'' [(''project_id'', VStr ''p''), (''qualified_name'', VStr ''f'')] []
             (new_memory_repo demo_ids))"
  define ob where "ob = zero_observation\<lparr>ob_project := ''p'', ob_extracted := no_fields\<lparr>x_symbol := ''f''\<rparr>\<rparr>"
  have "mem_ok r" unfolding r_def
    by (intro mem_ok_upsert_node mem_ok_new inj_demo_ids no_id_brings_no_future_id) (simp_all add: has_key_def)
  from resolutions_graded [OF this, of None ob]
  have "list_all (found None ob r) (fst (resolve_observation mem_ops None ob r))" by blast
  moreover have "map res_method (fst (resolve_observation mem_ops None ob r)) = [''exact_qualified_symbol_match'']"
    unfolding r_def ob_def by code_simp
  ultimately show ?thesis by (simp add: r_def ob_def Let_def)
qed

section \<open>An observation in the graph\<close>

lemma link_observation_mem [simp]: "nodes (snd (link_observation mem_ops i res r)) = nodes r"
proof -
  have "nodes r' = nodes r" if "link k i t ps r = (x, r')" for k t ps x r'
    using nodes_link [of k i t ps r] unfolding that by simp
  then show ?thesis by (auto simp: link_observation_def mem_ops_def split: prod.split sum.split)
qed

lemma link_resolutions_mem [simp]: "nodes (link_resolutions mem_ops i rs r) = nodes r"
  by (induction rs arbitrary: r) simp_all

lemma link_others_mem [simp]:
  "nodes (link_template mem_ops i t r) = nodes r" "nodes (link_session clk mem_ops ss i e r) = nodes r"
  by (simp_all add: link_template_def link_session_def mem_ops_def split: option.split)








definition demo_observer :: "mem_repo observer" where
  "demo_observer = new_runtime_observer 4 (new_memory_repo (\<lambda>n. ''n'' @ nat_str n)) runtime_service_config"

definition demo_time :: time_env where
  "demo_time = \<lparr>now_text = ''now'', now_ns = 0, rfc3339 = itoa, rfc3339_nano = itoa\<rparr>"


section \<open>Links that lead nowhere and processes that never start\<close>

lemma edge_neighbors_missing: "map_of ns i = None \<Longrightarrow> edge_to e = i \<Longrightarrow> edge_neighbors ns j DirOut e = []"
  by (simp add: edge_neighbors_def far_ends_def)

text \<open>
  The reference of an agent event ends at an id made for the purpose, while the captured event gets
  an id of its own; no node has the former, so no lookup of neighbours shows the reference.
\<close>

theorem agent_reference_dangles:
  assumes "mem_ok (ro_graph ro)" "map_of (nodes (ro_graph ro)) (agent_observation_id (ae_project a)) = None"
  shows "neighbors j kind DirOut (ro_graph (record_agent_event clk mem_ops a ro)) = neighbors j kind DirOut (ro_graph ro)"
proof -
  have link: "neighbors j kind DirOut (snd (link ''REFERENCES'' t (agent_observation_id (ae_project a)) ps r)) = neighbors j kind DirOut r"
    if r: "mem_ok r" "map_of (nodes r) (agent_observation_id (ae_project a)) = None" for t ps r
    using link_appends [OF r(1), of "''REFERENCES''" t "agent_observation_id (ae_project a)" ps]
  proof
    assume "edges (snd (link ''REFERENCES'' t (agent_observation_id (ae_project a)) ps r)) = edges r"
    then show ?thesis by (simp add: neighbors_def cong: if_cong)
  next
    assume "find (same_edge ''REFERENCES'' t (agent_observation_id (ae_project a)) ps) (map snd (edges r)) = None \<and>
      (\<exists>i. edges (snd (link ''REFERENCES'' t (agent_observation_id (ae_project a)) ps r)) =
        edges r @ [(i, new_edge i ''REFERENCES'' t (agent_observation_id (ae_project a)) ps)])"
    then obtain i where i: "edges (snd (link ''REFERENCES'' t (agent_observation_id (ae_project a)) ps r)) =
        edges r @ [(i, new_edge i ''REFERENCES'' t (agent_observation_id (ae_project a)) ps)]" by blast
    have "edge_to (new_edge i ''REFERENCES'' t (agent_observation_id (ae_project a)) ps) = agent_observation_id (ae_project a)"
      by (simp add: new_edge_def)
    from edge_neighbors_missing [OF r(2) this] show ?thesis by (simp add: neighbors_def i cong: if_cong)
  qed
  obtain b ro1 where c: "capture_output clk (ae_project a) (ae_session a) (ae_content a) ''agent'' ro = (b, ro1)" by fastforce
  then have "ro_graph ro1 = ro_graph ro"
    by (auto simp: capture_output_def capture_process_output_def Let_def split: prod.splits)
  then show ?thesis using link assms by (simp add: record_agent_event_def c mem_ops_def split: option.split)
qed

lemma agent_reference_dangles_witness:
  "neighbors ''f'' [] DirOut (ro_graph (record_agent_event demo_time mem_ops
     \<lparr>ae_project = ''p'', ae_session = ''s'', ae_kind = ''FIX'', ae_content = ''c'', ae_entity = ''f'', ae_confidence = Fin 1\<rparr>
     demo_observer)) = neighbors ''f'' [] DirOut (ro_graph demo_observer)"
proof (rule agent_reference_dangles)
  have "inj (\<lambda>n. ''n'' @ nat_str n)" by (auto intro!: injI nat_str_inj)
  then show "mem_ok (ro_graph demo_observer)"
    by (simp add: demo_observer_def new_runtime_observer_def Let_def mem_ok_new)
qed (simp add: demo_observer_def new_runtime_observer_def new_memory_repo_def Let_def)

text \<open>No call of \<open>StartProcess\<close> starts a process: it reads the id of a process there is not yet.\<close>

theorem start_process_panics:
  "fst (start_process clk project sess stdout_pipe stderr_pipe started ro) \<noteq> Inr () \<and>
   snd (start_process clk project sess stdout_pipe stderr_pipe started ro) = ro"
  by (auto simp: start_process_def process_of_new_command_def split: sum.split)

end
