(* ===== verification/ParserProperties.thy ===== *)
theory ParserProperties
  imports RuntimeParser
begin

text \<open>What the parser reads off compiler diagnostics, and what it loses of other output.\<close>

section \<open>Locations\<close>

definition is_file_char :: "char \<Rightarrow> bool" where
  "is_file_char c \<longleftrightarrow> is_word c \<or> c \<in> set ''-/.'' \<or> c = CHR 0x5C"

lemma in_file_cls: "file_cls = Cls False False rs \<Longrightarrow> in_class False False rs c = is_file_char c"
  by (auto simp: file_cls_def in_class_def is_file_char_def is_word_def is_letter_def is_upper_def is_lower_def is_digit_def)

lemma in_digit_cls: "in_class False False [(CHR ''0'', CHR ''9'')] c = is_digit c"
  by (simp add: in_class_def is_digit_def)

lemma not_digit_colon: "\<not> is_digit (CHR '':'')" "\<not> is_file_char (CHR '':'')"
  by code_simp+

lemma run_one_stuck: "rest u \<noteq> [] \<Longrightarrow> hd (rest u) \<noteq> c \<Longrightarrow> run (one c) u = []"
  by (cases "rest u") (simp_all add: run_one)

lemma run_one_Then_stuck: "rest u \<noteq> [] \<Longrightarrow> hd (rest u) \<noteq> c \<Longrightarrow> run (Then (one c) k) u = []"
  using run_one_stuck by simp

lemma run_one_hit: "rest u = c # t \<Longrightarrow> run (one c) u = [u\<lparr>past := c # past u, rest := t\<rparr>]"
  by (simp add: run_one)

lemma run_one_Then: "run (Then (one c) k) u = (case rest u of [] \<Rightarrow> [] | d # t \<Rightarrow>
    if d = c then run k (u\<lparr>past := c # past u, rest := t\<rparr>) else [])"
  by (simp add: run_one split: list.split)

text \<open>The digits of a number, and the byte after them.\<close>

lemma run_number:
  assumes "rest u = nat_str n @ c # t" "\<not> is_digit c"
    and "\<And>u. rest u \<noteq> [] \<Longrightarrow> is_digit (hd (rest u)) \<Longrightarrow> run k u = []"
  shows "run (Then (Grp i (some digit_cls)) k) u =
    run k (u\<lparr>past := rev (nat_str n) @ past u, rest := c # t, groups := AList.update i (nat_str n) (groups u)\<rparr>)"
  unfolding digit_cls_def using assms nat_str_digits [of n]
  by (intro run_greedy_group) (auto simp: in_digit_cls list_all_iff)

lemma find_file_line:
  assumes path: "path \<noteq> []" "list_all is_file_char path"
  shows "\<exists>m. find_submatch file_line_regex (path @ '':'' @ nat_str n @ '':'' @ nat_str k @ '':'' @ t) = Some m \<and>
    submatch m 1 = path \<and> submatch m 2 = nat_str n \<and> submatch m 3 = nat_str k"
proof -
  let ?s = "path @ '':'' @ nat_str n @ '':'' @ nat_str k @ '':'' @ t"
  let ?colon = "one (CHR '':'')"
  let ?col = "Then ?colon (Grp 3 (some digit_cls))"
  let ?tail = "Then (opt ?col) ?colon"
  let ?st0 = "start_at [] ?s"
  have digit_stuck: "run ?colon u = []" if "rest u \<noteq> []" "is_digit (hd (rest u))" for u
    using that not_digit_colon(1) by (intro run_one_stuck) auto
  have tail_stuck: "run ?tail u = []" if "rest u \<noteq> []" "is_digit (hd (rest u))" for u
    unfolding run_opt_Then run_Then_assoc
    using digit_stuck [OF that] that not_digit_colon(1) by (cases "rest u") (auto simp: run_one_Then)
  obtain rs where cls: "file_cls = Cls False False rs" by (simp add: file_cls_def)
  let ?st1 = "?st0\<lparr>past := rev path, rest := drop (length path) ?s, groups := [(1, path)]\<rparr>"
  have "run (Then (Grp 1 (some file_cls)) (Then ?colon (Then (Grp 2 (some digit_cls)) ?tail))) ?st0 =
      run (Then ?colon (Then (Grp 2 (some digit_cls)) ?tail)) (?st0\<lparr>past := rev path @ past ?st0,
        rest := '':'' @ nat_str n @ '':'' @ nat_str k @ '':'' @ t, groups := AList.update 1 path (groups ?st0)\<rparr>)"
    unfolding cls
  proof (rule run_greedy_group)
    fix u :: pos assume "rest u \<noteq> []" "in_class False False rs (hd (rest u))"
    then show "run (Then ?colon (Then (Grp 2 (some digit_cls)) ?tail)) u = []"
      using not_digit_colon(2) by (intro run_one_Then_stuck) (auto simp: in_file_cls [OF cls])
  qed (use path not_digit_colon(2) in \<open>auto simp: start_at_def in_file_cls [OF cls] list_all_iff\<close>)
  also have "\<dots> = run (Then ?colon (Then (Grp 2 (some digit_cls)) ?tail)) ?st1"
    by (simp add: start_at_def del: run.simps)
  also have "\<dots> = run (Then (Grp 2 (some digit_cls)) ?tail)
      (?st1\<lparr>past := CHR '':'' # past ?st1, rest := nat_str n @ '':'' @ nat_str k @ '':'' @ t\<rparr>)"
    by (simp add: run_one_Then del: run.simps)
  also have "\<dots> = run ?tail (?st1\<lparr>past := rev (nat_str n) @ CHR '':'' # past ?st1,
      rest := '':'' @ nat_str k @ '':'' @ t, groups := [(1, path), (2, nat_str n)]\<rparr>)"
    using run_number [where k = ?tail, OF _ not_digit_colon(1) tail_stuck, of
        "?st1\<lparr>past := CHR '':'' # past ?st1, rest := nat_str n @ '':'' @ nat_str k @ '':'' @ t\<rparr>" n "nat_str k @ '':'' @ t" 2]
    by (simp del: run.simps)
  finally have main: "run (Then (Grp 1 (some file_cls)) (Then ?colon (Then (Grp 2 (some digit_cls)) ?tail))) ?st0 =
     run ?tail (?st1\<lparr>past := rev (nat_str n) @ CHR '':'' # past ?st1,
      rest := '':'' @ nat_str k @ '':'' @ t, groups := [(1, path), (2, nat_str n)]\<rparr>)" .
  let ?st2 = "?st1\<lparr>past := rev (nat_str n) @ CHR '':'' # past ?st1,
      rest := '':'' @ nat_str k @ '':'' @ t, groups := [(1, path), (2, nat_str n)]\<rparr>"
  let ?st3 = "?st2\<lparr>past := CHR '':'' # past ?st2, rest := nat_str k @ '':'' @ t\<rparr>"
  have "run (Then ?col ?colon) ?st2 = run (Then (Grp 3 (some digit_cls)) ?colon) ?st3"
    unfolding run_Then_assoc by (simp add: run_one_Then del: run.simps)
  also have "\<dots> = run ?colon (?st3\<lparr>past := rev (nat_str k) @ past ?st3, rest := '':'' @ t,
      groups := [(1, path), (2, nat_str n), (3, nat_str k)]\<rparr>)"
    using run_number [where k = ?colon, OF _ not_digit_colon(1) digit_stuck, of ?st3 k t 3] by (simp del: run.simps)
  also have "\<dots> = [?st3\<lparr>past := CHR '':'' # rev (nat_str k) @ past ?st3, rest := t,
      groups := [(1, path), (2, nat_str n), (3, nat_str k)]\<rparr>]"
    by (subst run_one_hit [of _ _ t]) simp_all
  finally obtain st sts where st: "run ?tail ?st2 = st # sts" "groups st = [(1, path), (2, nat_str n), (3, nat_str k)]"
    unfolding run_opt_Then by auto
  have "run file_line_regex ?st0 = st # sts"
    using main st(1) by (simp add: file_line_regex_def start_at_def del: run.simps(3)) (simp add: start_at_def)
  from search_hit [OF this] st(2) show ?thesis by (simp add: find_submatch_def submatch_def)
qed

lemma lf_not_in_location: "\<not> is_file_char (CHR 0x0A)" "\<not> is_digit (CHR 0x0A)"
  by code_simp+

text \<open>A path with a byte outside the pattern's class: the line has no location at its front.\<close>

lemma search_anchored: "search (Then Bol r) (b # bef) s = None"
proof (induction s arbitrary: b bef)
  case Nil
  show ?case by (rule search_end) (simp add: start_at_def)
next
  case (Cons c s)
  have "run (Then Bol r) (start_at (b # bef) (c # s)) = []" by (simp add: start_at_def)
  from search_skip [OF this] Cons show ?case by simp
qed

lemma file_line_regex_anchored:
  "file_line_regex = Then Bol (Then (Grp 1 (some file_cls)) (Then (one (CHR '':''))
     (Then (Grp 2 (some digit_cls)) (Then (opt (Then (one (CHR '':'')) (Grp 3 (some digit_cls)))) (one (CHR '':''))))))"
  by (simp add: file_line_regex_def)

lemma no_file_line:
  assumes "\<not> list_all is_file_char path" "CHR '':'' \<notin> set path"
  shows "find_submatch file_line_regex (path @ t) = None"
proof -
  obtain rs where cls: "file_cls = Cls False False rs" by (simp add: file_cls_def)
  define w where "w = takeWhile is_file_char path"
  have "dropWhile is_file_char path \<noteq> []" using assms(1) by (auto simp: dropWhile_eq_Nil_conv list_all_iff)
  then obtain c v where cv: "dropWhile is_file_char path = c # v" by (cases "dropWhile is_file_char path") auto
  then have c: "\<not> is_file_char c" "c \<noteq> CHR '':''"
    using assms(2) hd_dropWhile [of is_file_char path] set_dropWhileD [of c is_file_char path] by auto
  have path: "path = w @ c # v" unfolding w_def cv [symmetric] by simp
  have w: "list_all is_file_char w" by (auto simp: w_def list_all_iff dest: set_takeWhileD)
  define k where "k = Then (one (CHR '':'')) (Then (Grp 2 (some digit_cls))
    (Then (opt (Then (one (CHR '':'')) (Grp 3 (some digit_cls)))) (one (CHR '':''))))"
  have stuck: "run k u = []" if "rest u \<noteq> []" "hd (rest u) \<noteq> CHR '':''" for u
    unfolding k_def using that by (rule run_one_Then_stuck)
  let ?st = "start_at [] (path @ t)"
  have "run (Then (Grp 1 (some file_cls)) k) ?st = []"
  proof (cases "w = []")
    case True
    then show ?thesis using c by (simp add: cls path start_at_def some_def in_file_cls [OF cls])
  next
    case False
    have "run (Then (Grp 1 (some (Cls False False rs))) k) ?st =
        run k (?st\<lparr>past := rev w @ past ?st, rest := c # v @ t, groups := AList.update 1 w (groups ?st)\<rparr>)"
    proof (rule run_greedy_group)
      fix u :: pos assume "rest u \<noteq> []" "in_class False False rs (hd (rest u))"
      then show "run k u = []" using not_digit_colon(2) by (intro stuck) (auto simp: in_file_cls [OF cls])
    qed (use w c False in \<open>auto simp: path start_at_def in_file_cls [OF cls] list_all_iff\<close>)
    also have "\<dots> = []" using c by (intro stuck) simp_all
    finally show ?thesis by (simp only: cls)
  qed
  then have r: "run file_line_regex ?st = []" by (simp add: file_line_regex_anchored k_def start_at_def del: run.simps(3)) (simp add: start_at_def)
  show ?thesis
  proof (cases "path @ t")
    case Nil
    with path show ?thesis by simp
  next
    case (Cons d u)
    from search_skip [OF r [unfolded Cons]] show ?thesis
      unfolding find_submatch_def Cons by (simp add: file_line_regex_anchored search_anchored)
  qed
qed

lemma other_parsers_keep_file:
  assumes "(p, kept) \<in> set (tl line_parsers)" "p line ob = Some ob'"
  shows "x_file (ob_extracted ob') = x_file (ob_extracted ob) \<and> x_line (ob_extracted ob') = x_line (ob_extracted ob)"
  using assms by (auto simp: line_parsers_def extracting_def parse_address_def parse_stack_frame_def parse_exception_def
    parse_error_code_def parse_test_failure_def parse_symbol_offset_def parse_module_offset_def)

lemma first_parse_keeps_file:
  assumes "\<And>p kept ob'. (p, kept) \<in> set ps \<Longrightarrow> p line ob = Some ob' \<Longrightarrow>
      x_file (ob_extracted ob') = x_file (ob_extracted ob) \<and> x_line (ob_extracted ob') = x_line (ob_extracted ob)"
  shows "x_file (ob_extracted (snd (first_parse ps line ob))) = x_file (ob_extracted ob) \<and>
    x_line (ob_extracted (snd (first_parse ps line ob))) = x_line (ob_extracted ob)"
  using assms
proof (induction ps line ob rule: first_parse.induct)
  case (2 p kept ps line ob)
  show ?case
  proof (cases "p line ob")
    case None
    then have "x_file (ob_extracted (snd (first_parse ps line ob))) = x_file (ob_extracted ob) \<and>
      x_line (ob_extracted (snd (first_parse ps line ob))) = x_line (ob_extracted ob)"
      using "2.prems" by (intro "2.IH") auto
    with None show ?thesis by simp
  next
    case (Some ob')
    then show ?thesis using "2.prems" [of p kept ob'] by simp
  qed
qed simp

lemma parse_line_no_file:
  assumes "\<not> list_all is_file_char path" "CHR '':'' \<notin> set path" "trim_space (path @ t) = path @ t"
  shows "x_file (ob_extracted (snd (parse_line (path @ t) ([], zero_observation)))) = [] \<and>
    x_line (ob_extracted (snd (parse_line (path @ t) ([], zero_observation)))) = 0"
proof -
  have none: "parse_file_line (path @ t) zero_observation = None"
    using no_file_line [OF assms(1,2)] by (simp add: parse_file_line_def)
  have "line_parsers = (parse_file_line, True) # tl line_parsers" by (simp add: line_parsers_def)
  then have "first_parse line_parsers (path @ t) zero_observation = first_parse (tl line_parsers) (path @ t) zero_observation"
    using none by (metis first_parse.simps(2) option.case(1))
  moreover have "x_file (ob_extracted (snd (first_parse (tl line_parsers) (path @ t) zero_observation))) = x_file (ob_extracted zero_observation) \<and>
      x_line (ob_extracted (snd (first_parse (tl line_parsers) (path @ t) zero_observation))) = x_line (ob_extracted zero_observation)"
    by (rule first_parse_keeps_file) (rule other_parsers_keep_file)
  moreover have "path @ t \<noteq> []" using assms(1) by auto
  ultimately show ?thesis using assms(3)
    by (simp add: parse_line_def Let_def split_beta zero_observation_def no_fields_def)
qed

text \<open>
  Claim C31. A diagnostic in the usual form, file, line, column and message with a colon after
  each of the first three: when every byte of the file's path is a letter, a digit or one of
  \<open>_ - \ / .\<close>, it is read back exactly, the observation holds the file, both numbers and the whole
  line as its text; when the path has any other byte, as \<open>/usr/include/c++/11/map\<close> does, no file
  and no line are read. Assumed of the line: the path is not empty and has no colon, neither it nor
  the message has a line feed, the numbers fit the machine's, and normalising (trimming and removing
  escape sequences) leaves the line as it is.
\<close>

theorem diagnostic_located:
  assumes "path \<noteq> []" "CHR '':'' \<notin> set path" "CHR 0x0A \<notin> set (path @ msg)" "n < 2 ^ 63" "k < 2 ^ 63"
    and "normalized (path @ '':'' @ nat_str n @ '':'' @ nat_str k @ '':'' @ msg) =
      path @ '':'' @ nat_str n @ '':'' @ nat_str k @ '':'' @ msg"
  shows "let ob = parse_output (path @ '':'' @ nat_str n @ '':'' @ nat_str k @ '':'' @ msg)
    in if list_all (\<lambda>c. is_letter c \<or> is_digit c \<or> c \<in> set ''_-/.'' \<or> c = CHR 0x5C) path
       then x_file (ob_extracted ob) = path \<and> x_line (ob_extracted ob) = int n \<and>
         x_column (ob_extracted ob) = int k \<and> ob_text ob = path @ '':'' @ nat_str n @ '':'' @ nat_str k @ '':'' @ msg
       else x_file (ob_extracted ob) = [] \<and> x_line (ob_extracted ob) = 0"
proof -
  let ?rest = "'':'' @ nat_str n @ '':'' @ nat_str k @ '':'' @ msg"
  let ?line = "path @ ?rest"
  have trim: "trim_space ?line = ?line"
    using assms(6) trim_space_idem by (simp only: normalized_def) metis
  have "CHR 0x0A \<notin> set ?line"
    using assms(3) lf_not_in_location nat_str_digits [of n] nat_str_digits [of k] by (auto simp: list_all_iff)
  then have split: "split_byte (CHR 0x0A) ?line = [?line]" by (rule split_byte_single)
  have chars: "(\<lambda>c. is_letter c \<or> is_digit c \<or> c \<in> set ''_-/.'' \<or> c = CHR 0x5C) = is_file_char"
    by (auto simp: fun_eq_iff is_file_char_def is_word_def)
  show ?thesis
  proof (cases "list_all is_file_char path")
    case True
    obtain m where m: "find_submatch file_line_regex ?line = Some m" "submatch m 1 = path"
        "submatch m 2 = nat_str n" "submatch m 3 = nat_str k"
      using find_file_line [OF assms(1) True] by meson
    have "parse_file_line ?line zero_observation = Some (extracting (\<lambda>x. x\<lparr>x_file := path, x_line := int n, x_column := int k\<rparr>) zero_observation)"
      unfolding parse_file_line_def m(1) option.map m(2-4)
      using assms(4,5) by (simp add: atoi_or_def atoi_nat_str)
    then have "parse_line ?line ([], zero_observation) =
        ([?line], extracting (\<lambda>x. x\<lparr>x_file := path, x_line := int n, x_column := int k\<rparr>) zero_observation)"
      unfolding parse_line_def line_parsers_def trim Let_def using assms(1) by simp
    then have fold: "fold parse_line [?line] ([], zero_observation) =
        ([?line], extracting (\<lambda>x. x\<lparr>x_file := path, x_line := int n, x_column := int k\<rparr>) zero_observation)"
      by (simp only: fold.simps comp_def id_def)
    show ?thesis
      unfolding chars parse_output_def assms(6) split Let_def fold prod.case
      using True by (simp add: extracting_def)
  next
    case False
    obtain ls ob where p: "parse_line ?line ([], zero_observation) = (ls, ob)" by fastforce
    have none: "x_file (ob_extracted ob) = [] \<and> x_line (ob_extracted ob) = 0"
      using parse_line_no_file [OF False assms(2) trim] unfolding p by simp
    have fold: "fold parse_line [?line] ([], zero_observation) = (ls, ob)"
      using p by (simp only: fold.simps comp_def id_def)
    show ?thesis
      unfolding chars parse_output_def assms(6) split Let_def fold prod.case
      using False none by simp
  qed
qed

text \<open>The witness: a location that is read, and one in the C++ headers that is not.\<close>

theorem diagnostic_located_witness:
  "x_line (ob_extracted (parse_output ''a.go:7:12: bad'')) = 7 \<and> x_column (ob_extracted (parse_output ''a.go:7:12: bad'')) = 12 \<and>
   x_file (ob_extracted (parse_output ''/c++/map:7:12: bad'')) = []"
proof -
  have l: "''a.go'' @ '':'' @ nat_str 7 @ '':'' @ nat_str 12 @ '':'' @ '' bad'' = ''a.go:7:12: bad''"
    "''/c++/map'' @ '':'' @ nat_str 7 @ '':'' @ nat_str 12 @ '':'' @ '' bad'' = ''/c++/map:7:12: bad''" by code_simp+
  have "normalized ''a.go:7:12: bad'' = ''a.go:7:12: bad''" "normalized ''/c++/map:7:12: bad'' = ''/c++/map:7:12: bad''"
    by code_simp+
  moreover have "CHR '':'' \<notin> set ''a.go''" "CHR 0x0A \<notin> set (''a.go'' @ '' bad'')"
    "CHR '':'' \<notin> set ''/c++/map''" "CHR 0x0A \<notin> set (''/c++/map'' @ '' bad'')" by code_simp+
  moreover have "list_all (\<lambda>c. is_letter c \<or> is_digit c \<or> c \<in> set ''_-/.'' \<or> c = CHR 0x5C) ''a.go''"
    "\<not> list_all (\<lambda>c. is_letter c \<or> is_digit c \<or> c \<in> set ''_-/.'' \<or> c = CHR 0x5C) ''/c++/map''" by code_simp+
  ultimately show ?thesis
    using diagnostic_located [of "''a.go''" "'' bad''" 7 12, unfolded l]
      diagnostic_located [of "''/c++/map''" "'' bad''" 7 12, unfolded l] unfolding Let_def
    by (simp only: if_True if_False) simp
qed

section \<open>Escape sequences\<close>

lemma remove_ansi_plain: "CHR 0x1B \<notin> set s \<Longrightarrow> remove_ansi False s = s"
  by (induction s) auto

lemma remove_ansi_append:
  "CHR 0x1B \<notin> set a \<Longrightarrow> remove_ansi False (a @ b) = a @ remove_ansi False b"
  by (induction a) auto

lemma remove_ansi_inside: "CHR ''m'' \<notin> set e \<Longrightarrow> remove_ansi True (e @ s) = remove_ansi True s"
  by (induction e) auto

text \<open>Colours are invisible to the parser: a sequence that ends in \<open>m\<close> is as if it were not there.\<close>

lemma colours_ignored:
  assumes "CHR 0x1B \<notin> set a" "CHR ''m'' \<notin> set e"
  shows "parse_output (a @ CHR 0x1B # e @ CHR ''m'' # b) = parse_output (a @ b)"
proof -
  have "normalized (a @ CHR 0x1B # e @ CHR ''m'' # b) = normalized (a @ b)"
    using assms by (simp add: normalized_def bytes_remove_ansi_def remove_ansi_append remove_ansi_inside)
  then show ?thesis by (simp only: parse_output_def)
qed

text \<open>Any other escape sequence hides the output up to the next \<open>m\<close>, here all of it.\<close>

lemma escape_swallows:
  assumes "CHR 0x1B \<notin> set a" "CHR ''m'' \<notin> set e"
  shows "parse_output (a @ CHR 0x1B # e) = parse_output a"
proof -
  have "normalized (a @ CHR 0x1B # e) = normalized a"
    using assms remove_ansi_inside [of e "[]"]
    by (simp add: normalized_def bytes_remove_ansi_def remove_ansi_append remove_ansi_plain)
  then show ?thesis by (simp only: parse_output_def)
qed

text \<open>Severity is read off the text alone, whatever the parser of the line set.\<close>

lemma text_of_parse:
  "ob_text (parse_output raw) = join '' | '' (fst (fold parse_line (split_byte (CHR 0x0A) (normalized raw)) ([], zero_observation)))"
  by (simp add: parse_output_def Let_def split_beta)

lemma severity_of_text:
  "ob_severity (parse_output raw) = classify_severity (zero_observation\<lparr>ob_text := ob_text (parse_output raw)\<rparr>)"
  by (simp add: parse_output_def Let_def split_beta classify_severity_def)

text \<open>A failed test is not of the highest severity, and an error code alone leaves no message.\<close>

lemma test_failure_downgraded: "ob_severity (parse_output ''FAIL x'') = sev_p1"
  unfolding severity_of_text text_of_parse by code_simp

lemma error_code_unseen:
  "ob_text (parse_output ''errno=5'') = [] \<and> ob_severity (parse_output ''errno=5'') = sev_p3"
  unfolding severity_of_text text_of_parse by code_simp

end
