(* ===== verification/Search.thy ===== *)
theory Search
  imports GraphModel GoFloat
begin

text \<open>
  \<open>internal/search/search.go\<close> and \<open>internal/services/ranking.go\<close>: tokens of identifiers, three
  rankers and the ranking of nodes with its fallback. The interface \<open>search.Ranker\<close> is the
  locale \<open>ranker\<close>; what the services do with any ranker is proved in it once. Texts are ASCII.
  \<open>math.Log\<close> is an argument of the one ranker that calls it.
\<close>

section \<open>Tokens\<close>

text \<open>Whether a word splits between two runes; \<open>after\<close> is what follows the second.\<close>

definition camel_boundary :: "char \<Rightarrow> char \<Rightarrow> string \<Rightarrow> bool" where
  "camel_boundary prev cur after \<longleftrightarrow>
     is_lower prev \<and> is_upper cur \<or>
     is_letter prev \<noteq> is_letter cur \<or>
     is_upper prev \<and> is_upper cur \<and> (case after of [] \<Rightarrow> False | c # _ \<Rightarrow> is_lower c)"

fun camel_from :: "char \<Rightarrow> string \<Rightarrow> string list" where
  "camel_from prev [] = [[prev]]"
| "camel_from prev (cur # s) =
     (let parts = camel_from cur s
      in if camel_boundary prev cur s then [prev] # parts else (prev # hd parts) # tl parts)"

definition split_camel :: "string \<Rightarrow> string list" where
  "split_camel w = (case w of [] \<Rightarrow> [[]] | c # s \<Rightarrow> camel_from c s)"

definition stem :: "string \<Rightarrow> string" where
  "stem t =
     (if 4 < length t \<and> has_suffix t ''ies'' then take (length t - 3) t @ ''y''
      else if 4 < length t \<and> has_suffix t ''es'' \<and> \<not> has_suffix t ''ses'' then take (length t - 2) t
      else if 3 < length t \<and> has_suffix t ''s'' \<and> \<not> has_suffix t ''ss'' then take (length t - 1) t
      else t)"

definition word_tokens :: "string \<Rightarrow> string list" where
  "word_tokens w =
     (let parts = split_camel w
      in (if 1 < length parts then [stem (to_lower w)] else []) @ map (\<lambda>p. stem (to_lower p)) parts)"

definition search_tokens :: "string \<Rightarrow> string list" where
  "search_tokens text = concat (map word_tokens (fields_func (\<lambda>c. \<not> is_letter c \<and> \<not> is_digit c) text))"

section \<open>Documents, hits and the order of hits\<close>

record field =
  fld_text :: string
  fld_weight :: f64

record document =
  doc_id :: string
  doc_fields :: "field list"

record hit =
  hit_id :: string
  hit_score :: f64

type_synonym rank_fun = "string \<Rightarrow> document list \<Rightarrow> int \<Rightarrow> hit list"

definition better_hit :: "hit \<Rightarrow> hit \<Rightarrow> bool" where
  "better_hit a b \<longleftrightarrow>
     (if \<not> f64_eq (hit_score a) (hit_score b) then f64_less (hit_score b) (hit_score a) else hit_id a < hit_id b)"

definition top_k :: "hit list \<Rightarrow> int \<Rightarrow> hit list" where
  "top_k hits limit =
     (let hits = sort_by better_hit hits
      in if 0 < limit \<and> limit < int (length hits) then take (nat limit) hits else hits)"

section \<open>BM25\<close>

record bm25 =
  bm_k1 :: f64
  bm_b :: f64

definition new_bm25 :: bm25 where
  "new_bm25 = \<lparr>bm_k1 = round_double (12 / 10), bm_b = round_double (75 / 100)\<rparr>"

text \<open>The terms in the order they appear first.\<close>

definition unique_terms :: "string list \<Rightarrow> string list" where
  "unique_terms ts = fold (\<lambda>t out. if t \<in> set out then out else out @ [t]) ts []"

record doc_stats =
  st_tf :: "f64 store"
  st_len :: f64

definition number_at :: "f64 store \<Rightarrow> string \<Rightarrow> f64" where
  "number_at m t = (case map_of m t of None \<Rightarrow> Fin 0 | Some x \<Rightarrow> x)"

definition count_at :: "int store \<Rightarrow> string \<Rightarrow> int" where
  "count_at m t = (case map_of m t of None \<Rightarrow> 0 | Some x \<Rightarrow> x)"

definition add_tok :: "f64 \<Rightarrow> string \<Rightarrow> doc_stats \<Rightarrow> doc_stats" where
  "add_tok w tok st =
     \<lparr>st_tf = AList.update tok (f64_add (number_at (st_tf st) tok) w) (st_tf st), st_len = f64_add (st_len st) w\<rparr>"

definition stats_of :: "document \<Rightarrow> doc_stats" where
  "stats_of d =
     fold (\<lambda>f. fold (add_tok (fld_weight f)) (search_tokens (fld_text f))) (doc_fields d) \<lparr>st_tf = [], st_len = Fin 0\<rparr>"

definition doc_frequencies :: "doc_stats list \<Rightarrow> int store" where
  "doc_frequencies all =
     fold (\<lambda>st. fold (\<lambda>tok df. AList.update tok (count_at df tok + 1) df) (map fst (st_tf st))) all []"

definition half :: f64 where "half = Fin (1 / 2)"

definition idf :: "(f64 \<Rightarrow> f64) \<Rightarrow> f64 \<Rightarrow> f64 \<Rightarrow> f64" where
  "idf log64 n df = log64 (f64_add (Fin 1) (f64_div (f64_add (f64_sub n df) half) (f64_add df half)))"

definition term_score :: "(f64 \<Rightarrow> f64) \<Rightarrow> bm25 \<Rightarrow> f64 \<Rightarrow> f64 \<Rightarrow> int store \<Rightarrow> doc_stats \<Rightarrow> string \<Rightarrow> f64" where
  "term_score log64 b n avg df st t =
     (let f = number_at (st_tf st) t
      in f64_div (f64_mul (f64_mul (idf log64 n (f64_of_int (count_at df t))) f) (f64_add (bm_k1 b) (Fin 1)))
           (f64_add f (f64_mul (bm_k1 b)
              (f64_add (f64_sub (Fin 1) (bm_b b)) (f64_div (f64_mul (bm_b b) (st_len st)) avg)))))"

definition doc_score :: "(f64 \<Rightarrow> f64) \<Rightarrow> bm25 \<Rightarrow> f64 \<Rightarrow> f64 \<Rightarrow> int store \<Rightarrow> string list \<Rightarrow> doc_stats \<Rightarrow> f64" where
  "doc_score log64 b n avg df terms st =
     fold (\<lambda>t score. if f64_eq (number_at (st_tf st) t) (Fin 0) then score
                     else f64_add score (term_score log64 b n avg df st t)) terms (Fin 0)"

definition positive_hits :: "(document \<times> f64) list \<Rightarrow> hit list" where
  "positive_hits scored =
     map (\<lambda>(d, s). \<lparr>hit_id = doc_id d, hit_score = s\<rparr>) (filter (\<lambda>(d, s). f64_less (Fin 0) s) scored)"

definition bm25_rank :: "(f64 \<Rightarrow> f64) \<Rightarrow> bm25 \<Rightarrow> rank_fun" where
  "bm25_rank log64 b query docs limit =
     (let terms = unique_terms (search_tokens query)
      in if terms = [] \<or> docs = [] then []
         else let all = map stats_of docs;
                  df = doc_frequencies all;
                  n = f64_of_int (int (length docs));
                  avg = f64_div (fold (\<lambda>st total. f64_add total (st_len st)) all (Fin 0)) n
              in if f64_eq avg (Fin 0) then []
                 else top_k (positive_hits (map (\<lambda>(d, st). (d, doc_score log64 b n avg df terms st)) (zip docs all))) limit)"

section \<open>Vectors\<close>

definition doc_vector :: "string list \<Rightarrow> f64 store" where
  "doc_vector tokens = fold (\<lambda>t v. AList.update t (f64_add (number_at v t) (Fin 1)) v) tokens []"

definition squares :: "f64 store \<Rightarrow> f64" where
  "squares v = fold (\<lambda>(_, x) mag. f64_add mag (f64_mul x x)) v (Fin 0)"

definition vector_cosine :: "f64 store \<Rightarrow> f64 store \<Rightarrow> f64" where
  "vector_cosine a b =
     (if a = [] \<or> b = [] then Fin 0
      else let dot = fold (\<lambda>(k, x) dot. case map_of b k of None \<Rightarrow> dot | Some y \<Rightarrow> f64_add dot (f64_mul x y)) a (Fin 0);
               mag_a = squares a; mag_b = squares b
           in if f64_eq mag_a (Fin 0) \<or> f64_eq mag_b (Fin 0) then Fin 0
              else f64_div dot (f64_mul (f64_sqrt mag_a) (f64_sqrt mag_b)))"

definition fields_tokens :: "field list \<Rightarrow> string list" where
  "fields_tokens fs = concat (map (\<lambda>f. search_tokens (fld_text f)) fs)"

definition vector_rank :: rank_fun where
  "vector_rank query docs limit =
     (let q = doc_vector (search_tokens query)
      in if q = [] \<or> docs = [] then []
         else top_k (positive_hits (map (\<lambda>(d, v). (d, vector_cosine q v))
                (filter (\<lambda>(d, v). v \<noteq> []) (map (\<lambda>d. (d, doc_vector (fields_tokens (doc_fields d)))) docs)))) limit)"

section \<open>Reciprocal rank fusion\<close>

record hybrid =
  hy_rankers :: "rank_fun list"
  hy_k :: f64

text \<open>Ranks are numbered from one.\<close>

fun fuse_ranks :: "f64 \<Rightarrow> int \<Rightarrow> hit list \<Rightarrow> f64 store \<Rightarrow> f64 store" where
  "fuse_ranks k n [] m = m"
| "fuse_ranks k n (h # hs) m =
     fuse_ranks k (n + 1) hs
       (AList.update (hit_id h) (f64_add (number_at m (hit_id h)) (f64_div (Fin 1) (f64_add k (f64_of_int n)))) m)"

definition fused_scores :: "hybrid \<Rightarrow> string \<Rightarrow> document list \<Rightarrow> f64 store" where
  "fused_scores h query docs =
     (let k = (if f64_le (hy_k h) (Fin 0) then Fin 60 else hy_k h)
      in fold (\<lambda>r. fuse_ranks k 1 (r query docs 0)) (hy_rankers h) [])"

definition hybrid_rank :: "hybrid \<Rightarrow> rank_fun" where
  "hybrid_rank h query docs limit =
     top_k (map (\<lambda>(i, s). \<lparr>hit_id = i, hit_score = s\<rparr>) (fused_scores h query docs)) limit"

text \<open>
  The ranker the code, memory and document services are built with, and the one \<open>SearchSemantic\<close>
  uses in its place.
\<close>

definition code_ranker :: "(f64 \<Rightarrow> f64) \<Rightarrow> rank_fun" where
  "code_ranker log64 = bm25_rank log64 new_bm25"

definition semantic_ranker :: "(f64 \<Rightarrow> f64) \<Rightarrow> rank_fun" where
  "semantic_ranker log64 = hybrid_rank \<lparr>hy_rankers = [bm25_rank log64 new_bm25, vector_rank], hy_k = Fin 0\<rparr>"

section \<open>Ranking nodes\<close>

type_synonym row = props

definition scored_row :: "node \<Rightarrow> f64 \<Rightarrow> row" where
  "scored_row n s = put ''score'' (VFlt s) (present n)"

definition rows_of_hits :: "node store \<Rightarrow> hit list \<Rightarrow> row list res" where
  "rows_of_hits by_id hs =
     (if list_all (\<lambda>h. map_of by_id (hit_id h) \<noteq> None) hs
      then Inr (map (\<lambda>h. scored_row (the (map_of by_id (hit_id h))) (hit_score h)) hs)
      else Inl (Panic ''assignment to entry in nil map''))"

definition mentions :: "string \<Rightarrow> document \<Rightarrow> bool" where
  "mentions q d = list_ex (\<lambda>f. contains (to_lower (fld_text f)) q) (doc_fields d)"

text \<open>The loop of the fallback stops once it has enough rows; it has at least one round.\<close>

definition substring_rows :: "string \<Rightarrow> node store \<Rightarrow> document list \<Rightarrow> nat \<Rightarrow> row list" where
  "substring_rows q by_id docs limit =
     take limit (map (\<lambda>d. scored_row (the (map_of by_id (doc_id d))) (Fin 0)) (filter (mentions q) docs))"

definition nodes_by_id :: "node list \<Rightarrow> node store" where
  "nodes_by_id ns = fold (\<lambda>n. AList.update (node_id n) n) ns []"

definition rank_nodes :: "rank_fun \<Rightarrow> node list \<Rightarrow> string \<Rightarrow> int \<Rightarrow> (node \<Rightarrow> field list) \<Rightarrow> row list res" where
  "rank_nodes rank nodes query limit build =
     (let limit = (if limit \<le> 0 then 20 else limit);
          by_id = nodes_by_id nodes;
          docs = map (\<lambda>n. \<lparr>doc_id = node_id n, doc_fields = build n\<rparr>) nodes
      in case rows_of_hits by_id (rank query docs limit) of
           Inl e \<Rightarrow> Inl e
         | Inr rows \<Rightarrow>
             (if rows \<noteq> [] then Inr rows
              else let q = to_lower (trim_space query)
                   in Inr (if q = [] then [] else substring_rows q by_id docs (nat limit))))"

end
