(* ===== verification/SearchProperties.thy ===== *)
theory SearchProperties
  imports Search
begin

text \<open>
  The laws of a ranker as the locale \<open>ranker\<close>, its three interpretations, and what the services
  return whichever ranker is set.
\<close>

section \<open>The interface\<close>

definition relevant :: "string \<Rightarrow> document \<Rightarrow> bool" where
  "relevant q d \<longleftrightarrow> set (search_tokens q) \<inter> set (fields_tokens (doc_fields d)) \<noteq> {}"

definition document_of :: "(node \<Rightarrow> field list) \<Rightarrow> node \<Rightarrow> document" where
  "document_of build n = \<lparr>doc_id = node_id n, doc_fields = build n\<rparr>"

lemma document_of_simps [simp]:
  "doc_id (document_of build n) = node_id n" "doc_fields (document_of build n) = build n"
  by (simp_all add: document_of_def)

lemma rank_nodes_docs: "map (\<lambda>n. \<lparr>doc_id = node_id n, doc_fields = build n\<rparr>) ns = map (document_of build) ns"
  by (simp add: document_of_def)

lemma map_of_other_nodes: "i \<notin> node_id ` set ns \<Longrightarrow> map_of (fold (\<lambda>n. AList.update (node_id n) n) ns m) i = map_of m i"
  by (induction ns arbitrary: m) (auto simp: update_conv')

lemma map_of_nodes_by_id:
  "distinct (map node_id ns) \<Longrightarrow> n \<in> set ns \<Longrightarrow> map_of (fold (\<lambda>n. AList.update (node_id n) n) ns m) (node_id n) = Some n"
proof (induction ns arbitrary: m)
  case (Cons x ns)
  show ?case
  proof (cases "n = x")
    case True
    then show ?thesis using Cons.prems by (simp add: map_of_other_nodes update_conv')
  next
    case False
    then show ?thesis using Cons by simp
  qed
qed simp

lemma nodes_by_id_unique:
  "distinct (map node_id ns) \<Longrightarrow> n \<in> set ns \<Longrightarrow> map_of (nodes_by_id ns) (node_id n) = Some n"
  by (simp add: nodes_by_id_def map_of_nodes_by_id)

locale ranker =
  fixes rank :: rank_fun
  assumes rank_relevant: "h \<in> set (rank q ds k) \<Longrightarrow> \<exists>d \<in> set ds. doc_id d = hit_id h \<and> relevant q d"
    and rank_limit: "0 < k \<Longrightarrow> int (length (rank q ds k)) \<le> k"
    and rank_best_first: "sorted_wrt (\<lambda>a b. \<not> better_hit b a) (rank q ds k)"
begin

text \<open>The rows of a search: nodes that were given, no more than asked for, the ranker's order kept.\<close>

lemma rows_of_rank:
  assumes "distinct (map node_id ns)"
  shows "\<exists>ms. rows_of_hits (nodes_by_id ns) (rank q (map (document_of build) ns) k) =
      Inr (map (\<lambda>(n, s). scored_row n s) ms) \<and>
    map (\<lambda>(n, s). \<lparr>hit_id = node_id n, hit_score = s\<rparr>) ms = rank q (map (document_of build) ns) k \<and>
    list_all (\<lambda>(n, s). n \<in> set ns \<and> relevant q (document_of build n)) ms"
proof -
  let ?hs = "rank q (map (document_of build) ns) k"
  have "\<exists>n \<in> set ns. node_id n = hit_id h \<and> relevant q (document_of build n)" if "h \<in> set ?hs" for h
    using rank_relevant [OF that] by auto
  then obtain nd where nd: "\<And>h. h \<in> set ?hs \<Longrightarrow> nd h \<in> set ns \<and> node_id (nd h) = hit_id h \<and> relevant q (document_of build (nd h))"
    by metis
  let ?ms = "map (\<lambda>h. (nd h, hit_score h)) ?hs"
  have "map_of (nodes_by_id ns) (hit_id h) = Some (nd h)" if "h \<in> set ?hs" for h
    using nodes_by_id_unique [OF assms, of "nd h"] nd [OF that] by simp
  then have "rows_of_hits (nodes_by_id ns) ?hs = Inr (map (\<lambda>(n, s). scored_row n s) ?ms)"
    by (simp add: rows_of_hits_def list_all_iff comp_def)
  moreover have "map (\<lambda>(n, s). \<lparr>hit_id = node_id n, hit_score = s\<rparr>) ?ms = ?hs"
    using nd by (simp add: comp_def map_idI)
  moreover have "list_all (\<lambda>(n, s). n \<in> set ns \<and> relevant q (document_of build n)) ?ms"
    using nd by (simp add: list_all_iff)
  ultimately show ?thesis by blast
qed

lemma rank_nodes_hits:
  "rows_of_hits (nodes_by_id ns) (rank q (map (document_of build) ns) (if k \<le> 0 then 20 else k)) = Inr rows \<Longrightarrow>
   rows \<noteq> [] \<or> to_lower (trim_space q) = [] \<Longrightarrow> rank_nodes rank ns q k build = Inr rows"
  unfolding rank_nodes_def Let_def rank_nodes_docs by auto

lemma rank_nodes_substring:
  assumes "distinct (map node_id ns)" "to_lower (trim_space q) \<noteq> []"
    and "rows_of_hits (nodes_by_id ns) (rank q (map (document_of build) ns) (if k \<le> 0 then 20 else k)) = Inr []"
  shows "rank_nodes rank ns q k build =
    Inr (map (\<lambda>n. scored_row n (Fin 0)) (take (nat (if k \<le> 0 then 20 else k))
      (filter (\<lambda>n. mentions (to_lower (trim_space q)) (document_of build n)) ns)))"
proof -
  have "map (\<lambda>d. scored_row (the (map_of (nodes_by_id ns) (doc_id d))) (Fin 0))
      (filter (mentions q') (map (document_of build) ns)) =
    map (\<lambda>n. scored_row n (Fin 0)) (filter (\<lambda>n. mentions q' (document_of build n)) ns)" for q'
    using nodes_by_id_unique [OF assms(1)] by (simp add: filter_map comp_def)
  then show ?thesis
    unfolding rank_nodes_def Let_def rank_nodes_docs assms(3) substring_rows_def using assms(2)
    by (simp add: take_map)
qed

lemma rank_order_score: "\<not> better_hit b a \<Longrightarrow> \<not> f64_less (hit_score a) (hit_score b)"
  using f64_less_irrefl [of "hit_score b"] f64_eq_imp_eq [of "hit_score b" "hit_score a"]
  by (auto simp: better_hit_def split: if_splits)

lemma rank_nodes_rows:
  assumes "distinct (map node_id ns)"
  shows "\<exists>ms. rank_nodes rank ns q k build = Inr (map (\<lambda>(n, s). scored_row n s) ms) \<and>
    int (length ms) \<le> (if k \<le> 0 then 20 else k) \<and>
    sorted_wrt (\<lambda>a b. \<not> f64_less a b) (map snd ms) \<and>
    list_all (\<lambda>(n, s). n \<in> set ns \<and>
      (relevant q (document_of build n) \<or> mentions (to_lower (trim_space q)) (document_of build n))) ms"
proof -
  let ?k = "if k \<le> 0 then 20 else k"
  let ?q = "to_lower (trim_space q)"
  obtain ms where ms: "rows_of_hits (nodes_by_id ns) (rank q (map (document_of build) ns) ?k) =
      Inr (map (\<lambda>(n, s). scored_row n s) ms)"
    and hits: "map (\<lambda>(n, s). \<lparr>hit_id = node_id n, hit_score = s\<rparr>) ms = rank q (map (document_of build) ns) ?k"
    and rel: "list_all (\<lambda>(n, s). n \<in> set ns \<and> relevant q (document_of build n)) ms"
    using rows_of_rank [OF assms, of q build ?k] by (elim exE conjE) (rule that)
  show ?thesis
  proof (cases "ms = [] \<and> ?q \<noteq> []")
    case True
    define xs where "xs = take (nat ?k) (filter (\<lambda>n. mentions ?q (document_of build n)) ns)"
    define ys where "ys = map (\<lambda>n. (n, Fin 0)) xs"
    have "rank_nodes rank ns q k build = Inr (map (\<lambda>n. scored_row n (Fin 0)) xs)"
      unfolding xs_def using True ms by (intro rank_nodes_substring [OF assms]) auto
    then have "rank_nodes rank ns q k build = Inr (map (\<lambda>(n, s). scored_row n s) ys)"
      by (simp add: ys_def comp_def)
    moreover have "sorted_wrt (\<lambda>a b. \<not> f64_less a b) (map snd ys)"
      by (simp add: ys_def comp_def sorted_wrt_map)
    moreover have "set xs \<subseteq> {n \<in> set ns. mentions ?q (document_of build n)}"
      unfolding xs_def by (auto dest: in_set_takeD)
    then have "list_all (\<lambda>(n, s). n \<in> set ns \<and> (relevant q (document_of build n) \<or> mentions ?q (document_of build n))) ys"
      by (auto simp: ys_def list_all_iff)
    moreover have "int (length ys) \<le> ?k" unfolding ys_def xs_def length_map length_take by (auto simp: min_def)
    ultimately show ?thesis by (intro exI conjI)
  next
    case False
    then have "rank_nodes rank ns q k build = Inr (map (\<lambda>(n, s). scored_row n s) ms)"
      using ms by (intro rank_nodes_hits) auto
    moreover have "int (length ms) \<le> ?k"
      using rank_limit [of ?k q "map (document_of build) ns"] by (simp flip: hits split: if_splits)
    moreover have "sorted_wrt (\<lambda>a b. \<not> f64_less (hit_score a) (hit_score b)) (rank q (map (document_of build) ns) ?k)"
      by (rule sorted_wrt_mono_rel [OF _ rank_best_first]) (rule rank_order_score)
    then have "sorted_wrt (\<lambda>a b. \<not> f64_less a b) (map snd ms)"
      by (simp flip: hits add: sorted_wrt_map split_beta)
    moreover have "list_all (\<lambda>(n, s). n \<in> set ns \<and>
        (relevant q (document_of build n) \<or> mentions ?q (document_of build n))) ms"
      by (rule list.pred_mono_strong [OF rel]) auto
    ultimately show ?thesis by (intro exI conjI)
  qed
qed

text \<open>Where nothing is relevant the search falls back to the nodes that contain the query.\<close>

lemma rank_nodes_fallback:
  assumes "distinct (map node_id ns)" "list_all (\<lambda>n. \<not> relevant q (document_of build n)) ns" "trim_space q \<noteq> []"
  shows "rank_nodes rank ns q k build =
    Inr (map (\<lambda>n. scored_row n (Fin 0)) (take (nat (if k \<le> 0 then 20 else k))
      (filter (\<lambda>n. mentions (to_lower (trim_space q)) (document_of build n)) ns)))"
proof -
  let ?k = "if k \<le> 0 then 20 else k"
  have "rank q (map (document_of build) ns) ?k = []"
  proof (cases "rank q (map (document_of build) ns) ?k")
    case (Cons h hs)
    then show ?thesis
      using rank_relevant [of h q "map (document_of build) ns" ?k] assms(2) by (auto simp: list_all_iff)
  qed simp
  then have "rows_of_hits (nodes_by_id ns) (rank q (map (document_of build) ns) ?k) = Inr []"
    by (simp add: rows_of_hits_def)
  moreover have "to_lower (trim_space q) \<noteq> []" using assms(3) by (simp add: to_lower_def)
  ultimately show ?thesis by (intro rank_nodes_substring [OF assms(1)])
qed

end

section \<open>The order of hits\<close>

lemma better_hit_order: "weak_order_on {h. hit_score h \<noteq> NaN} better_hit"
proof -
  have asym: "better_hit a b \<Longrightarrow> hit_score a \<noteq> NaN \<Longrightarrow> hit_score b \<noteq> NaN \<Longrightarrow> \<not> better_hit b a" for a b
    by (cases "hit_score a"; cases "hit_score b") (auto simp: better_hit_def split: if_splits)
  have trans: "\<not> better_hit a b \<Longrightarrow> \<not> better_hit b c \<Longrightarrow> hit_score a \<noteq> NaN \<Longrightarrow> hit_score b \<noteq> NaN \<Longrightarrow>
      hit_score c \<noteq> NaN \<Longrightarrow> \<not> better_hit a c" for a b c
    by (cases "hit_score a"; cases "hit_score b"; cases "hit_score c")
      (auto simp: better_hit_def not_less split: if_splits)
  show ?thesis
    unfolding weak_order_on_def by (intro conjI ballI impI; elim CollectE) (rule asym trans; assumption)+
qed

lemma in_top_k: "h \<in> set (top_k hs k) \<Longrightarrow> h \<in> set hs"
  by (auto simp: top_k_def Let_def split: if_splits dest: in_set_takeD)

lemma length_top_k: "0 < k \<Longrightarrow> int (length (top_k hs k)) \<le> k"
  by (auto simp: top_k_def Let_def)

lemma sorted_top_k:
  assumes "list_all (\<lambda>h. hit_score h \<noteq> NaN) hs"
  shows "sorted_wrt (\<lambda>a b. \<not> better_hit b a) (top_k hs k)"
proof -
  have "sorted_wrt (\<lambda>a b. \<not> better_hit b a) (sort_by better_hit hs)"
    using assms by (intro sorted_sort_by [OF better_hit_order]) (auto simp: list_all_iff)
  then show ?thesis by (simp add: top_k_def Let_def sorted_wrt_take)
qed

text \<open>
  Among hits with different ids the order is total, so the order in which a map is walked to
  collect them does not show.
\<close>

lemma sorted_wrt_unique:
  assumes "\<And>a b. a \<in> set xs \<Longrightarrow> b \<in> set xs \<Longrightarrow> R a b \<Longrightarrow> R b a \<Longrightarrow> a = b"
  shows "sorted_wrt R xs \<Longrightarrow> sorted_wrt R ys \<Longrightarrow> mset xs = mset ys \<Longrightarrow> xs = ys"
  using assms
proof (induction xs arbitrary: ys)
  case (Cons x xs)
  then obtain y zs where ys: "ys = y # zs" by (cases ys) auto
  have "x = y"
  proof (rule ccontr)
    assume ne: "x \<noteq> y"
    have "x \<in> set ys" "y \<in> set (x # xs)" using Cons.prems(3) ys by (metis list.set_intros(1) mset_eq_setD)+
    then have "x \<in> set zs" "y \<in> set xs" using ne ys by auto
    then show False using Cons.prems ys ne by auto
  qed
  with Cons ys show ?case by auto
qed simp

lemma top_k_order_free:
  assumes "mset xs = mset ys" "distinct (map hit_id xs)" "list_all (\<lambda>h. hit_score h \<noteq> NaN) xs"
  shows "top_k xs k = top_k ys k"
proof -
  have "a = b" if "a \<in> set xs" "b \<in> set xs" "\<not> better_hit b a" "\<not> better_hit a b" for a b
  proof -
    have "hit_id a = hit_id b"
      using that assms(3) by (cases "hit_score a"; cases "hit_score b")
        (auto simp: better_hit_def list_all_iff not_less split: if_splits)
    then show ?thesis using assms(2) that(1,2) by (simp add: distinct_map inj_on_def)
  qed
  moreover have "list_all (\<lambda>h. hit_score h \<noteq> NaN) ys"
    using assms(1,3) by (metis list_all_iff mset_eq_setD)
  ultimately have "sort_by better_hit xs = sort_by better_hit ys"
    using assms by (intro sorted_wrt_unique [where R = "\<lambda>a b. \<not> better_hit b a"] sorted_sort_by [OF better_hit_order])
      (auto simp: list_all_iff)
  then show ?thesis by (simp add: top_k_def)
qed

lemma in_positive_hits: "h \<in> set (positive_hits ds) \<Longrightarrow>
    \<exists>d. (d, hit_score h) \<in> set ds \<and> doc_id d = hit_id h \<and> f64_less (Fin 0) (hit_score h)"
  by (auto simp: positive_hits_def)

lemma positive_hits_finite: "list_all (\<lambda>h. hit_score h \<noteq> NaN) (positive_hits ds)"
  using in_positive_hits f64_not_NaN(1) by (auto simp: list_all_iff)

section \<open>BM25 is a ranker\<close>

lemma number_at_none: "t \<notin> fst ` set m \<Longrightarrow> number_at m t = Fin 0"
  by (simp add: number_at_def map_of_eq_None_iff [THEN iffD2])

lemma keys_add_toks: "fst ` set (st_tf (fold (add_tok w) ts st)) = fst ` set (st_tf st) \<union> set ts"
  by (induction ts arbitrary: st) (auto simp: add_tok_def dom_map_of_conv_image_fst [symmetric] update_conv' split: if_splits)

lemma keys_stats_of: "fst ` set (st_tf (stats_of d)) = set (fields_tokens (doc_fields d))"
proof -
  have "fst ` set (st_tf (fold (\<lambda>f. fold (add_tok (fld_weight f)) (search_tokens (fld_text f))) fs st)) =
    fst ` set (st_tf st) \<union> set (fields_tokens fs)" for fs st
    by (induction fs arbitrary: st) (auto simp: keys_add_toks fields_tokens_def)
  then show ?thesis by (simp add: stats_of_def)
qed

lemma set_unique_terms [simp]: "set (unique_terms ts) = set ts"
proof -
  have "set (fold (\<lambda>t out. if t \<in> set out then out else out @ [t]) ts out) = set out \<union> set ts" for out
    by (induction ts arbitrary: out) auto
  then show ?thesis by (simp add: unique_terms_def)
qed

lemma doc_score_zero:
  assumes "set terms \<inter> fst ` set (st_tf st) = {}"
  shows "doc_score log64 b n avg df terms st = Fin 0"
proof -
  have "fold (\<lambda>t score. if f64_eq (number_at (st_tf st) t) (Fin 0) then score
      else f64_add score (term_score log64 b n avg df st t)) ts x = x" if "set ts \<subseteq> set terms" for ts x
  proof -
    have "number_at (st_tf st) t = Fin 0" if "t \<in> set ts" for t
      using that \<open>set ts \<subseteq> set terms\<close> assms by (intro number_at_none) auto
    then show ?thesis by (induction ts) auto
  qed
  then show ?thesis by (simp add: doc_score_def)
qed

interpretation bm: ranker "bm25_rank log64 b" for log64 b
proof
  fix h q ds k
  assume "h \<in> set (bm25_rank log64 b q ds k)"
  then obtain d n avg df where d: "d \<in> set ds" "doc_id d = hit_id h"
    and pos: "f64_less (Fin 0) (doc_score log64 b n avg df (unique_terms (search_tokens q)) (stats_of d))"
    by (auto simp: bm25_rank_def Let_def zip_map2 zip_same_conv_map split: if_splits dest!: in_top_k in_positive_hits)
  have "relevant q d"
  proof (rule ccontr)
    assume "\<not> relevant q d"
    then have "doc_score log64 b n avg df (unique_terms (search_tokens q)) (stats_of d) = Fin 0"
      by (intro doc_score_zero) (simp add: relevant_def keys_stats_of)
    with pos show False by simp
  qed
  with d show "\<exists>d \<in> set ds. doc_id d = hit_id h \<and> relevant q d" by blast
next
  show "int (length (bm25_rank log64 b q ds k)) \<le> k" if "0 < k" for q ds k
    using that length_top_k by (simp add: bm25_rank_def Let_def)
next
  show "sorted_wrt (\<lambda>a b. \<not> better_hit b a) (bm25_rank log64 b q ds k)" for q ds k
    by (simp add: bm25_rank_def Let_def sorted_top_k positive_hits_finite)
qed

section \<open>The vector ranker is one\<close>

lemma keys_doc_vector: "fst ` set (doc_vector ts) = set ts"
proof -
  have "fst ` set (fold (\<lambda>t v. AList.update t (f64_add (number_at v t) (Fin 1)) v) ts m) = fst ` set m \<union> set ts" for m
    by (induction ts arbitrary: m) (auto simp: dom_map_of_conv_image_fst [symmetric] update_conv' split: if_splits)
  then show ?thesis by (simp add: doc_vector_def)
qed

lemma f64_div_zero: "\<not> f64_less (Fin 0) (f64_div (Fin 0) x)"
  by (cases x) (auto simp: round_double_def)

lemma vector_cosine_zero:
  assumes "fst ` set a \<inter> fst ` set b = {}"
  shows "\<not> f64_less (Fin 0) (vector_cosine a b)"
proof -
  have "fold (\<lambda>(k, x) dot. case map_of b k of None \<Rightarrow> dot | Some y \<Rightarrow> f64_add dot (f64_mul x y)) c z = z"
    if "set c \<subseteq> set a" for c z
  proof -
    have "\<forall>p \<in> set c. map_of b (fst p) = None"
      using that assms by (auto simp: map_of_eq_None_iff disjoint_iff)
    then show ?thesis by (induction c arbitrary: z) auto
  qed
  from this [of a] show ?thesis by (simp add: vector_cosine_def Let_def f64_div_zero)
qed

interpretation ve: ranker vector_rank
proof
  fix h q ds k
  assume "h \<in> set (vector_rank q ds k)"
  then obtain d where d: "d \<in> set ds" "doc_id d = hit_id h"
    and pos: "f64_less (Fin 0) (vector_cosine (doc_vector (search_tokens q)) (doc_vector (fields_tokens (doc_fields d))))"
    by (auto simp: vector_rank_def Let_def split: if_splits dest!: in_top_k in_positive_hits)
  have "relevant q d"
  proof (rule ccontr)
    assume "\<not> relevant q d"
    then have "\<not> f64_less (Fin 0) (vector_cosine (doc_vector (search_tokens q)) (doc_vector (fields_tokens (doc_fields d))))"
      by (intro vector_cosine_zero) (simp add: relevant_def keys_doc_vector)
    with pos show False by simp
  qed
  with d show "\<exists>d \<in> set ds. doc_id d = hit_id h \<and> relevant q d" by blast
next
  show "int (length (vector_rank q ds k)) \<le> k" if "0 < k" for q ds k
    using that length_top_k by (simp add: vector_rank_def Let_def)
next
  show "sorted_wrt (\<lambda>a b. \<not> better_hit b a) (vector_rank q ds k)" for q ds k
    by (simp add: vector_rank_def Let_def sorted_top_k positive_hits_finite)
qed

section \<open>A fusion of rankers is one\<close>

definition nonneg :: "f64 \<Rightarrow> bool" where
  "nonneg x \<longleftrightarrow> (case x of Fin q \<Rightarrow> 0 \<le> q | PosInf \<Rightarrow> True | _ \<Rightarrow> False)"

lemma nonneg_simps [simp]: "nonneg (Fin q) = (0 \<le> q)" "nonneg PosInf" "\<not> nonneg NegInf" "\<not> nonneg NaN"
  by (simp_all add: nonneg_def)

lemma round_half_even_nonneg: "0 \<le> q \<Longrightarrow> 0 \<le> round_half_even q"
  by (simp add: round_half_even_def Let_def)

lemma pow2_pos: "0 < pow2 e"
  by (simp add: pow2_def)

lemma nonneg_round_double:
  assumes "0 \<le> q"
  shows "nonneg (round_double q)"
proof -
  have "0 \<le> of_int (round_half_even (q / pow2 e)) * pow2 e" for e
    using assms pow2_pos [of e] by (intro mult_nonneg_nonneg) (simp_all add: round_half_even_nonneg)
  then have "nonneg (nearest_double q)" by (simp add: nearest_double_def Let_def split_beta)
  with assms show ?thesis by (simp add: round_double_def)
qed

lemma nonneg_add: "nonneg x \<Longrightarrow> nonneg y \<Longrightarrow> nonneg (f64_add x y)"
  by (cases x; cases y) (simp_all add: nonneg_round_double)

lemma nonneg_inverse: "nonneg x \<Longrightarrow> nonneg (f64_div (Fin 1) x)"
  by (cases x) (simp_all add: nonneg_round_double signed_inf_def)

lemma nonneg_of_int: "0 \<le> n \<Longrightarrow> nonneg (f64_of_int n)"
  by (simp add: f64_of_int_def nonneg_round_double)

lemma nonneg_number_at: "list_all (\<lambda>(_, x). nonneg x) m \<Longrightarrow> nonneg (number_at m t)"
  by (auto simp: number_at_def list_all_iff split: option.split dest: map_of_SomeD)

lemma list_all_AList_update: "list_all (\<lambda>(_, x). P x) m \<Longrightarrow> P v \<Longrightarrow> list_all (\<lambda>(_, x). P x) (AList.update i v m)"
  by (induction m) auto

lemma fuse_ranks_nonneg:
  "nonneg k \<Longrightarrow> 0 \<le> n \<Longrightarrow> list_all (\<lambda>(_, x). nonneg x) m \<Longrightarrow> list_all (\<lambda>(_, x). nonneg x) (fuse_ranks k n hs m)"
  by (induction hs arbitrary: n m)
    (simp_all add: list_all_AList_update nonneg_number_at nonneg_add nonneg_inverse nonneg_of_int)

lemma fused_scores_nonneg:
  assumes "hy_k h \<noteq> NaN"
  shows "list_all (\<lambda>(_, x). nonneg x) (fused_scores h q ds)"
proof -
  have "list_all (\<lambda>(_, x). nonneg x) (fold (\<lambda>r. fuse_ranks k 1 (r q ds 0)) rs m)"
    if "nonneg k" "list_all (\<lambda>(_, x). nonneg x) m" for k m and rs :: "rank_fun list"
    using that by (induction rs arbitrary: m) (simp_all add: fuse_ranks_nonneg)
  moreover have "nonneg (if f64_le (hy_k h) (Fin 0) then Fin 60 else hy_k h)"
    using assms by (cases "hy_k h") (auto simp: f64_le_def)
  ultimately show ?thesis by (simp add: fused_scores_def Let_def)
qed

lemma keys_update_set: "fst ` set (AList.update i v m) = insert i (fst ` set m)"
  by (induction m) auto

lemma keys_fuse_ranks: "fst ` set (fuse_ranks k n hs m) = fst ` set m \<union> hit_id ` set hs"
  by (induction hs arbitrary: n m) (auto simp: keys_update_set)

lemma keys_fused_scores: "fst ` set (fused_scores h q ds) = (\<Union>r \<in> set (hy_rankers h). hit_id ` set (r q ds 0))"
proof -
  have "fst ` set (fold (\<lambda>r. fuse_ranks k 1 (r q ds 0)) rs m) = fst ` set m \<union> (\<Union>r \<in> set rs. hit_id ` set (r q ds 0))" for k m and rs :: "rank_fun list"
    by (induction rs arbitrary: m) (auto simp: keys_fuse_ranks)
  then show ?thesis by (simp add: fused_scores_def Let_def)
qed

lemma hybrid_ranker:
  assumes "\<And>r. r \<in> set (hy_rankers h) \<Longrightarrow> ranker r" "hy_k h \<noteq> NaN"
  shows "ranker (hybrid_rank h)"
proof
  fix x q ds k
  assume "x \<in> set (hybrid_rank h q ds k)"
  then have "hit_id x \<in> fst ` set (fused_scores h q ds)"
    by (force simp: hybrid_rank_def dest!: in_top_k)
  then obtain r y where "r \<in> set (hy_rankers h)" "y \<in> set (r q ds 0)" "hit_id y = hit_id x"
    by (auto simp: keys_fused_scores)
  then show "\<exists>d \<in> set ds. doc_id d = hit_id x \<and> relevant q d"
    using ranker.rank_relevant [OF assms(1)] by metis
next
  show "int (length (hybrid_rank h q ds k)) \<le> k" if "0 < k" for q ds k
    using that length_top_k by (simp add: hybrid_rank_def)
next
  show "sorted_wrt (\<lambda>a b. \<not> better_hit b a) (hybrid_rank h q ds k)" for q ds k
    unfolding hybrid_rank_def using fused_scores_nonneg [OF assms(2), of q ds]
    by (intro sorted_top_k) (auto simp: list_all_iff)
qed

interpretation co: ranker "code_ranker log64" for log64
  unfolding code_ranker_def by (rule bm.ranker_axioms)

interpretation se: ranker "semantic_ranker log64" for log64
  unfolding semantic_ranker_def by (rule hybrid_ranker) (auto intro: bm.ranker_axioms ve.ranker_axioms)

section \<open>Searches\<close>

text \<open>The BM25 score of one document among others: zero where the ranker gives up at once.\<close>

definition bm25_score :: "(f64 \<Rightarrow> f64) \<Rightarrow> bm25 \<Rightarrow> string \<Rightarrow> document list \<Rightarrow> document \<Rightarrow> f64" where
  "bm25_score log64 b q ds d =
     (let all = map stats_of ds; n = f64_of_int (int (length ds));
          avg = f64_div (fold (\<lambda>st total. f64_add total (st_len st)) all (Fin 0)) n
      in if f64_eq avg (Fin 0) then Fin 0
         else doc_score log64 b n avg (doc_frequencies all) (unique_terms (search_tokens q)) (stats_of d))"

lemma bm25_rank_score:
  "bm25_rank log64 b q ds k = top_k (positive_hits (map (\<lambda>d. (d, bm25_score log64 b q ds d)) ds)) k"
proof -
  have none: "top_k (positive_hits (map (\<lambda>d. (d, x)) ds)) k = []" if "\<not> f64_less (Fin 0) x" for x and ds :: "document list"
    using that by (simp add: positive_hits_def filter_map comp_def top_k_def)
  let ?all = "map stats_of ds"
  let ?n = "f64_of_int (int (length ds))"
  let ?avg = "f64_div (fold (\<lambda>st total. f64_add total (st_len st)) ?all (Fin 0)) ?n"
  consider "unique_terms (search_tokens q) = []" | "ds = []" | "f64_eq ?avg (Fin 0)"
    | "unique_terms (search_tokens q) \<noteq> []" "ds \<noteq> []" "\<not> f64_eq ?avg (Fin 0)" by blast
  then show ?thesis
  proof cases
    case 1
    then have "bm25_score log64 b q ds d = Fin 0" for d by (simp add: bm25_score_def doc_score_def Let_def)
    then show ?thesis using 1 none [of "Fin 0" ds] by (simp add: bm25_rank_def Let_def)
  next
    case 2
    then show ?thesis by (simp add: bm25_rank_def positive_hits_def top_k_def Let_def)
  next
    case 3
    then have "bm25_score log64 b q ds d = Fin 0" for d by (simp add: bm25_score_def Let_def)
    then show ?thesis using 3 none [of "Fin 0" ds] by (simp add: bm25_rank_def Let_def)
  next
    case 4
    then show ?thesis
      by (simp add: bm25_rank_def bm25_score_def Let_def zip_map2 zip_same_conv_map comp_def)
  qed
qed

lemma bm25_score_relevant:
  assumes "f64_less (Fin 0) (bm25_score log64 b q ds d)"
  shows "relevant q d"
proof (rule ccontr)
  assume "\<not> relevant q d"
  then have "doc_score log64 b n avg df (unique_terms (search_tokens q)) (stats_of d) = Fin 0" for n avg df
    by (intro doc_score_zero) (simp add: relevant_def keys_stats_of)
  then have "bm25_score log64 b q ds d = Fin 0" by (simp add: bm25_score_def Let_def)
  with assms show False by simp
qed

text \<open>Hits of nodes back to the nodes.\<close>

lemma positive_hits_nodes:
  "positive_hits (map (\<lambda>d. (d, sc d)) (map (document_of build) ns)) =
    map (\<lambda>n. \<lparr>hit_id = node_id n, hit_score = sc (document_of build n)\<rparr>)
      (filter (\<lambda>n. f64_less (Fin 0) (sc (document_of build n))) ns)"
  by (simp add: positive_hits_def filter_map comp_def)

lemma better_hit_scores:
  assumes "\<not> better_hit h g" "hit_score g \<noteq> NaN" "hit_score h \<noteq> NaN"
  shows "f64_less (hit_score h) (hit_score g) \<or> hit_score g = hit_score h \<and> hit_id g \<le> hit_id h"
  using assms by (cases "hit_score g"; cases "hit_score h") (auto simp: better_hit_def not_less split: if_splits)

lemma ranked_nodes:
  fixes sc :: "node \<Rightarrow> f64"
  assumes "distinct (map node_id ns)"
  defines "pos \<equiv> filter (\<lambda>n. f64_less (Fin 0) (sc n)) ns"
    and "hit \<equiv> (\<lambda>n. \<lparr>hit_id = node_id n, hit_score = sc n\<rparr>)"
  shows "\<exists>xs. mset xs = mset pos \<and> sort_by better_hit (map hit pos) = map hit xs \<and>
    sorted_wrt (\<lambda>m n. f64_less (sc n) (sc m) \<or> sc m = sc n \<and> node_id m \<le> node_id n) xs"
proof -
  let ?nd = "\<lambda>h. the (map_of (nodes_by_id ns) (hit_id h))"
  let ?hs = "sort_by better_hit (map hit pos)"
  have nd: "?nd (hit n) = n" if "n \<in> set pos" for n
    using that nodes_by_id_unique [OF assms(1), of n] by (simp add: pos_def hit_def)
  have same: "mset ?hs = mset (map hit pos)" by simp
  define xs where "xs = map ?nd ?hs"
  have "mset xs = image_mset ?nd (mset (map hit pos))" unfolding xs_def using same by (metis mset_map)
  also have "\<dots> = mset (map (?nd \<circ> hit) pos)" by (simp only: mset_map image_mset.compositionality)
  also have "map (?nd \<circ> hit) pos = pos" using nd by (intro map_idI) simp
  finally have perm: "mset xs = mset pos" .
  have "hit (?nd h) = h" if "h \<in> set ?hs" for h
  proof -
    have "h \<in> set (map hit pos)" using that same by (metis mset_eq_setD)
    then obtain n where "n \<in> set pos" "h = hit n" by auto
    then show ?thesis using nd by simp
  qed
  then have hits: "map hit xs = ?hs" unfolding xs_def map_map by (intro map_idI) (simp only: comp_def)
  have nn: "sc n \<noteq> NaN" if "n \<in> set xs" for n
  proof -
    have "n \<in> set pos" using that perm by (metis mset_eq_setD)
    then show ?thesis using f64_not_NaN(1) by (auto simp: pos_def)
  qed
  have "list_all (\<lambda>h. hit_score h \<noteq> NaN) (map hit pos)"
    using f64_not_NaN(1) by (auto simp: pos_def hit_def list_all_iff)
  then have "sorted_wrt (\<lambda>a b. \<not> better_hit b a) ?hs"
    by (intro sorted_sort_by [OF better_hit_order]) (auto simp: list_all_iff)
  then have "sorted_wrt (\<lambda>m n. \<not> better_hit (hit n) (hit m)) xs" by (simp flip: hits add: sorted_wrt_map)
  then have "sorted_wrt (\<lambda>m n. f64_less (sc n) (sc m) \<or> sc m = sc n \<and> node_id m \<le> node_id n) xs"
    by (rule sorted_wrt_mono_rel [rotated]) (use nn better_hit_scores in \<open>force simp: hit_def\<close>)
  with perm hits show ?thesis by auto
qed

text \<open>
  Claim C32. What a search by the ranker of the code service (BM25, as of the memory and document
  services) answers, whatever logarithm the library computes and whatever fields are searched. It
  never fails. When some node scores above zero, the answer is the first \<open>limit\<close> (twenty when none
  is given) of all such nodes, from the best score down and by id among equal scores, each with
  its score; and each of them shares a token with the query. Only when no node does, and the query
  is not blank, it is the first \<open>limit\<close> nodes, in the order given, one of whose fields contains the
  query, with score zero; otherwise it is empty.
\<close>

theorem search_rows_relevant:
  fixes log64 :: "f64 \<Rightarrow> f64" and build :: "node \<Rightarrow> field list" and k :: int and q :: string
  assumes "distinct (map node_id ns)"
  defines "score \<equiv> (\<lambda>n. bm25_score log64 new_bm25 q (map (document_of build) ns) (document_of build n))"
    and "limit \<equiv> nat (if k \<le> 0 then 20 else k)"
  defines "pos \<equiv> filter (\<lambda>n. f64_less (Fin 0) (score n)) ns"
  shows "list_all (\<lambda>n. relevant q (document_of build n)) pos \<and>
    (\<exists>xs. mset xs = mset pos \<and>
      sorted_wrt (\<lambda>m n. f64_less (score n) (score m) \<or> score m = score n \<and> node_id m \<le> node_id n) xs \<and>
      rank_nodes (code_ranker log64) ns q k build = Inr
        (if pos \<noteq> [] then map (\<lambda>n. scored_row n (score n)) (take limit xs)
         else if trim_space q = [] then []
         else map (\<lambda>n. scored_row n (Fin 0))
           (take limit (filter (\<lambda>n. mentions (to_lower (trim_space q)) (document_of build n)) ns))))"
proof -
  let ?k = "if k \<le> 0 then 20 else k"
  let ?ds = "map (document_of build) ns"
  let ?hit = "\<lambda>n. \<lparr>hit_id = node_id n, hit_score = score n\<rparr>"
  have rel: "list_all (\<lambda>n. relevant q (document_of build n)) pos"
    by (auto simp: list_all_iff pos_def score_def intro: bm25_score_relevant)
  from ranked_nodes [OF assms(1), of score] obtain xs where xs: "mset xs = mset pos"
    "sort_by better_hit (map ?hit pos) = map ?hit xs"
    "sorted_wrt (\<lambda>m n. f64_less (score n) (score m) \<or> score m = score n \<and> node_id m \<le> node_id n) xs"
    unfolding pos_def [symmetric] by (elim exE conjE) (rule that)
  have pos_hits: "positive_hits (map (\<lambda>d. (d, bm25_score log64 new_bm25 q ?ds d)) ?ds) = map ?hit pos"
    unfolding positive_hits_nodes pos_def score_def ..
  have "code_ranker log64 q ?ds ?k = top_k (map ?hit pos) ?k"
    unfolding code_ranker_def bm25_rank_score pos_hits ..
  also have "\<dots> = take limit (map ?hit xs)"
    unfolding top_k_def xs(2) by (simp add: limit_def Let_def)
  finally have rank: "code_ranker log64 q ?ds ?k = map ?hit (take limit xs)" by (simp add: take_map)
  have mem: "n \<in> set ns" if "n \<in> set (take limit xs)" for n
  proof -
    have "n \<in> set xs" using that by (rule in_set_takeD)
    then have "n \<in> set pos" using xs(1) by (metis mset_eq_setD)
    then show ?thesis by (simp add: pos_def)
  qed
  have rows: "rows_of_hits (nodes_by_id ns) (code_ranker log64 q ?ds ?k) =
      Inr (map (\<lambda>n. scored_row n (score n)) (take limit xs))"
    unfolding rank using nodes_by_id_unique [OF assms(1)] mem
    by (simp add: rows_of_hits_def list_all_iff comp_def)
  have "rank_nodes (code_ranker log64) ns q k build = Inr
        (if pos \<noteq> [] then map (\<lambda>n. scored_row n (score n)) (take limit xs)
         else if trim_space q = [] then []
         else map (\<lambda>n. scored_row n (Fin 0))
           (take limit (filter (\<lambda>n. mentions (to_lower (trim_space q)) (document_of build n)) ns)))"
  proof (cases "pos = []")
    case False
    then have "xs \<noteq> []" using xs(1) by auto
    moreover have "0 < limit" by (simp add: limit_def)
    ultimately have "map (\<lambda>n. scored_row n (score n)) (take limit xs) \<noteq> []" by simp
    with co.rank_nodes_hits [OF rows] False show ?thesis by simp
  next
    case True
    then have "xs = []" using xs(1) by simp
    then have empty: "rows_of_hits (nodes_by_id ns) (code_ranker log64 q ?ds ?k) = Inr []" using rows by simp
    show ?thesis
    proof (cases "trim_space q = []")
      case blank: True
      with co.rank_nodes_hits [OF empty] True show ?thesis by (simp add: to_lower_def)
    next
      case query: False
      with co.rank_nodes_substring [OF assms(1) _ empty] True show ?thesis by (simp add: to_lower_def limit_def)
    qed
  qed
  with rel xs show ?thesis by blast
qed

definition named_node :: "string \<Rightarrow> node" where
  "named_node i = \<lparr>node_id = i, node_kind = ''Function'', node_props = [(''name'', VStr i)]\<rparr>"

definition id_field :: "node \<Rightarrow> field list" where
  "id_field n = [\<lparr>fld_text = node_id n, fld_weight = Fin 1\<rparr>]"

text \<open>The witness: no name has the token \<open>pars\<close>, so the search falls back to the names that contain it.\<close>

theorem search_rows_relevant_witness:
  "rank_nodes (code_ranker id) [named_node ''parsePacket'', named_node ''main''] ''pars'' 0 id_field =
     Inr [scored_row (named_node ''parsePacket'') (Fin 0)]"
proof -
  let ?ns = "[named_node ''parsePacket'', named_node ''main'']"
  have ids: "distinct (map node_id ?ns)" and rel: "list_all (\<lambda>n. \<not> relevant ''pars'' (document_of id_field n)) ?ns"
    and ment: "filter (\<lambda>n. mentions (to_lower (trim_space ''pars'')) (document_of id_field n)) ?ns = [named_node ''parsePacket'']"
    and q: "trim_space ''pars'' \<noteq> []" by code_simp+
  note answer = search_rows_relevant [OF ids, where ?log64.0 = id and q = "''pars''" and k = 0 and build = id_field]
  define pos where "pos = filter (\<lambda>n. f64_less (Fin 0)
    (bm25_score id new_bm25 ''pars'' (map (document_of id_field) ?ns) (document_of id_field n))) ?ns"
  have "list_all (\<lambda>n. relevant ''pars'' (document_of id_field n)) pos"
    using answer unfolding pos_def by (rule conjunct1)
  then have "n \<notin> set pos" for n
    using rel by (auto simp: list_all_iff pos_def)
  then have "pos = []" by (cases pos) auto
  with answer q show ?thesis unfolding pos_def [symmetric] ment by auto
qed

text \<open>
  \<open>SearchSemantic\<close> is said to find related identifiers that keyword search misses, \<open>teardown\<close> for
  \<open>cleanup\<close>. Its ranker only ranks nodes that share a token with the query, as the other one does;
  where there are none, both fall back to the same substring search.
\<close>

theorem semantic_search_needs_token:
  assumes "distinct (map node_id ns)" "list_all (\<lambda>n. \<not> relevant q (document_of build n)) ns" "trim_space q \<noteq> []"
  shows "rank_nodes (semantic_ranker log64) ns q k build = rank_nodes (code_ranker log64) ns q k build"
  unfolding se.rank_nodes_fallback [OF assms] co.rank_nodes_fallback [OF assms] ..

text \<open>
  Claim C33. The ranking by fusion does not depend on the order in which the map of fused scores is
  walked: any other order of its entries gives the same hits in the same order.
\<close>

theorem fusion_order_free:
  assumes "hy_k h \<noteq> NaN" "mset scores = mset (fused_scores h q ds)"
  shows "top_k (map (\<lambda>(i, s). \<lparr>hit_id = i, hit_score = s\<rparr>) scores) k = hybrid_rank h q ds k"
proof -
  have "distinct (map fst (fold (\<lambda>r. fuse_ranks c 1 (r q ds 0)) rs m))" if "distinct (map fst m)" for c m and rs :: "rank_fun list"
  proof -
    have "distinct (map fst (fuse_ranks c n hs m))" if "distinct (map fst m)" for n m and hs :: "hit list"
      using that by (induction hs arbitrary: n m) (simp_all add: distinct_update)
    with that show ?thesis by (induction rs arbitrary: m) simp_all
  qed
  then have "distinct (map fst (fused_scores h q ds))" by (simp add: fused_scores_def Let_def)
  then have "distinct (map fst scores)" using assms(2) by (metis mset_eq_imp_distinct_iff mset_map)
  moreover have "list_all (\<lambda>(_, x). nonneg x) scores"
    using fused_scores_nonneg [OF assms(1), of q ds] assms(2) by (metis list_all_iff mset_eq_setD)
  ultimately show ?thesis
    unfolding hybrid_rank_def using assms(2)
    by (intro top_k_order_free) (auto simp: list_all_iff comp_def split_beta)
qed

theorem fusion_order_free_witness:
  "top_k [] 5 = hybrid_rank \<lparr>hy_rankers = [vector_rank], hy_k = Fin 0\<rparr> ''packet'' [] 5"
proof -
  have "fused_scores \<lparr>hy_rankers = [vector_rank], hy_k = Fin 0\<rparr> ''packet'' [] = []"
    by (simp add: fused_scores_def vector_rank_def Let_def)
  then show ?thesis using fusion_order_free [of "\<lparr>hy_rankers = [vector_rank], hy_k = Fin 0\<rparr>" "[]" "''packet''" "[]" 5]
    by simp
qed

text \<open>
  Plurals in \<open>es\<close> after a silent \<open>e\<close> are not folded onto their singular: \<open>files\<close> becomes
  \<open>fil\<close>, and no document that says \<open>file\<close> is found by the query \<open>files\<close>, nor the other way round.
\<close>

theorem plural_files_missed:
  "search_tokens ''files'' = [''fil''] \<and> search_tokens ''file'' = [''file''] \<and>
   bm25_rank log64 b ''files'' [\<lparr>doc_id = i, doc_fields = [\<lparr>fld_text = ''file'', fld_weight = w\<rparr>]\<rparr>] k = [] \<and>
   bm25_rank log64 b ''file'' [\<lparr>doc_id = i, doc_fields = [\<lparr>fld_text = ''files'', fld_weight = w\<rparr>]\<rparr>] k = []"
proof -
  have t: "search_tokens ''files'' = [''fil'']" "search_tokens ''file'' = [''file'']" by code_simp+
  have "bm25_rank log64 b q [d] k = []" if "\<not> relevant q d" for q d
    using that bm.rank_relevant [of _ log64 b q "[d]" k] by (cases "bm25_rank log64 b q [d] k") auto
  with t show ?thesis by (simp add: relevant_def fields_tokens_def)
qed

section \<open>Tokens\<close>

lemma camel_from_not_Nil [simp]: "camel_from c s \<noteq> []"
  by (induction s arbitrary: c) (simp_all add: Let_def)

lemma concat_camel_from: "concat (camel_from c s) = c # s"
proof (induction s arbitrary: c)
  case (Cons d s)
  from Cons.IH [of d] show ?case by (cases "camel_from d s") (simp_all add: Let_def)
qed simp

text \<open>The parts of a word are the word again.\<close>

lemma concat_split_camel: "concat (split_camel w) = w"
  by (simp add: split_camel_def concat_camel_from split: list.split)

text \<open>The documented example.\<close>

lemma tokens_ParsePacket: "search_tokens ''ParsePacket'' = [''parsepacket'', ''parse'', ''packet'']"
  by code_simp

end
