(* ===== verification/Slice.thy ===== *)
theory Slice
  imports GoStrings "HOL-Library.Word"
begin

text \<open>
  \<open>internal/services/slice.go\<close>: the arithmetic of an array window. An \<open>int\<close> is a 64-bit word
  read as a signed number, so sums and products wrap as they do in the program.
\<close>

type_synonym int64 = "64 word"

record slice_request =
  sr_base :: string
  sr_base_length :: "int64 option"
  sr_offset :: int64
  sr_length :: "int64 option"
  sr_end :: "int64 option"
  sr_element_size :: int64
  sr_element_type :: string
  sr_source_reference :: string
  sr_expression :: string

record slice_result =
  sl_base :: string
  sl_offset :: int64
  sl_length :: int64
  sl_end :: int64
  sl_last_index :: int64
  sl_element_size :: int64
  sl_byte_offset :: int64
  sl_byte_length :: int64
  sl_byte_end :: int64
  sl_notation :: string
  sl_valid :: bool
  sl_problems :: "string list"
  sl_element_type :: string
  sl_source_ref :: string
  sl_source_expr :: string

definition show_int :: "int64 \<Rightarrow> string" where
  "show_int w = itoa (sint w)"

text \<open>The window the request describes, and what is wrong with the description.\<close>

definition slice_window :: "slice_request \<Rightarrow> int64 \<times> int64 \<times> string list" where
  "slice_window req =
     (case (sr_length req, sr_end req) of
        (Some l, Some e) \<Rightarrow>
          (l, e, if sr_offset req + l \<noteq> e
                 then [''length '' @ show_int l @ '' and end '' @ show_int e @ '' disagree: offset '' @
                       show_int (sr_offset req) @ '' + length '' @ show_int l @ '' = '' @
                       show_int (sr_offset req + l) @ '' (end is exclusive)'']
                 else [])
      | (Some l, None) \<Rightarrow> (l, sr_offset req + l, [])
      | (None, Some e) \<Rightarrow> (e - sr_offset req, e, [])
      | (None, None) \<Rightarrow> (0, 0, [''either length or end is required'']))"

definition sign_problems :: "int64 \<Rightarrow> int64 \<Rightarrow> int64 \<Rightarrow> string list" where
  "sign_problems off len e =
     (if sint off < 0 then [''offset '' @ show_int off @ '' is negative''] else []) @
     (if sint len < 0 then [''length '' @ show_int len @ '' is negative (end '' @ show_int e @
        '' is before offset '' @ show_int off @ '')''] else [])"

definition base_problems :: "string \<Rightarrow> int64 option \<Rightarrow> int64 \<Rightarrow> int64 \<Rightarrow> int64 \<Rightarrow> string list" where
  "base_problems base bl off len e =
     (case bl of
        None \<Rightarrow> []
      | Some b \<Rightarrow>
          (if sint b < sint e
           then [''window ends at '' @ show_int e @ '' but '' @ base @ '' has '' @ show_int b @ '' elements: '' @
                 show_int (e - b) @ '' past the end''] @
                (if e - 1 = b
                 then [''off by one? if '' @ show_int (e - 1) @ '' was an inclusive last index, the exclusive end is '' @
                       show_int e @ '' and the length is '' @ show_int len]
                 else [])
           else []) @
          (if sint b < sint off
           then [''offset '' @ show_int off @ '' is past the end of '' @ base @ '' ('' @ show_int b @ '' elements)'']
           else []))"

definition compute_slice :: "slice_request \<Rightarrow> slice_result" where
  "compute_slice req =
     (let size = (if sint (sr_element_size req) \<le> 0 then 1 else sr_element_size req);
          off = sr_offset req;
          (len, e, ps) = slice_window req;
          problems = ps @ sign_problems off len e @ base_problems (sr_base req) (sr_base_length req) off len e
      in \<lparr>sl_base = sr_base req, sl_offset = off, sl_length = len, sl_end = e, sl_last_index = e - 1,
          sl_element_size = size, sl_byte_offset = off * size, sl_byte_length = len * size, sl_byte_end = e * size,
          sl_notation = sr_base req @ ''['' @ show_int off @ '':'' @ show_int e @ ''] (half-open: '' @ show_int len @
            '' element(s), indexes '' @ show_int off @ ''..'' @ show_int (e - 1) @ ''; bytes '' @
            show_int (off * size) @ ''..'' @ show_int (e * size - 1) @ '')'',
          sl_valid = (problems = []), sl_problems = problems, sl_element_type = sr_element_type req,
          sl_source_ref = sr_source_reference req, sl_source_expr = sr_expression req\<rparr>)"

section \<open>What validity means\<close>

lemma compute_slice_fields:
  "sl_offset (compute_slice req) = sr_offset req"
  "sl_byte_offset (compute_slice req) = sr_offset req * sl_element_size (compute_slice req)"
  "sl_byte_length (compute_slice req) = sl_length (compute_slice req) * sl_element_size (compute_slice req)"
  "sl_byte_end (compute_slice req) = sl_end (compute_slice req) * sl_element_size (compute_slice req)"
  "sl_last_index (compute_slice req) = sl_end (compute_slice req) - 1"
  by (simp_all add: compute_slice_def Let_def split_beta)

lemma slice_window_end: "snd (snd (slice_window req)) = [] \<Longrightarrow>
    fst (snd (slice_window req)) = sr_offset req + fst (slice_window req)"
  by (auto simp: slice_window_def split: option.splits if_splits)

lemma compute_slice_valid:
  "sl_valid (compute_slice req) \<longleftrightarrow>
     (sr_length req \<noteq> None \<or> sr_end req \<noteq> None) \<and>
     (\<forall>l e. sr_length req = Some l \<and> sr_end req = Some e \<longrightarrow> sr_offset req + l = e) \<and>
     0 \<le> sint (sr_offset req) \<and> 0 \<le> sint (sl_length (compute_slice req)) \<and>
     (case sr_base_length req of None \<Rightarrow> True
      | Some b \<Rightarrow> sint (sl_end (compute_slice req)) \<le> sint b \<and> sint (sr_offset req) \<le> sint b)"
  by (auto simp: compute_slice_def Let_def slice_window_def sign_problems_def base_problems_def split: option.splits if_splits)

lemma valid_window:
  assumes "sl_valid (compute_slice req)"
  shows "sl_end (compute_slice req) = sl_offset (compute_slice req) + sl_length (compute_slice req)"
proof -
  from assms have "snd (snd (slice_window req)) = []"
    by (auto simp: compute_slice_def Let_def split_beta)
  from slice_window_end [OF this] show ?thesis by (simp add: compute_slice_def Let_def split_beta)
qed

lemma sint_add_fits: "- (2 ^ 63) \<le> sint a + sint b \<Longrightarrow> sint a + sint b < 2 ^ 63 \<Longrightarrow> sint (a + b) = sint a + sint b"
  for a b :: int64
  by (simp add: sint_word_ariths signed_take_bit_int_eq_self)

lemma sint_diff_fits: "- (2 ^ 63) \<le> sint a - sint b \<Longrightarrow> sint a - sint b < 2 ^ 63 \<Longrightarrow> sint (a - b) = sint a - sint b"
  for a b :: int64
  by (simp add: sint_word_ariths signed_take_bit_int_eq_self)

text \<open>
  The window as mathematical integers: where it ends, if the two ways to say so agree, and that
  it lies in the base.
\<close>

definition ends_at :: "slice_request \<Rightarrow> int \<Rightarrow> bool" where
  "ends_at req e \<longleftrightarrow> (sr_length req \<noteq> None \<or> sr_end req \<noteq> None) \<and>
     (case sr_length req of None \<Rightarrow> True | Some l \<Rightarrow> sint (sr_offset req) + sint l = e) \<and>
     (case sr_end req of None \<Rightarrow> True | Some x \<Rightarrow> sint x = e)"

definition window_in_base :: "slice_request \<Rightarrow> int \<Rightarrow> bool" where
  "window_in_base req e \<longleftrightarrow> 0 \<le> sint (sr_offset req) \<and> sint (sr_offset req) \<le> e \<and>
     (case sr_base_length req of None \<Rightarrow> True | Some b \<Rightarrow> e \<le> sint b)"

definition sums_fit :: "slice_request \<Rightarrow> bool" where
  "sums_fit req \<longleftrightarrow>
     (case sr_length req of None \<Rightarrow> True | Some l \<Rightarrow> sint (sr_offset req) + sint l \<in> {- (2 ^ 63) ..< 2 ^ 63}) \<and>
     (case sr_end req of None \<Rightarrow> True | Some e \<Rightarrow> sint e - sint (sr_offset req) \<in> {- (2 ^ 63) ..< 2 ^ 63})"

lemma slice_cases:
  "sr_length req = Some l \<Longrightarrow> sl_length (compute_slice req) = l"
  "sr_length req = None \<Longrightarrow> sr_end req = Some e \<Longrightarrow> sl_length (compute_slice req) = e - sr_offset req"
  "sr_end req = Some e \<Longrightarrow> sl_end (compute_slice req) = e"
  "sr_length req = Some l \<Longrightarrow> sr_end req = None \<Longrightarrow> sl_end (compute_slice req) = sr_offset req + l"
  by (cases "sr_length req"; cases "sr_end req"; simp add: compute_slice_def Let_def slice_window_def)+

text \<open>
  Claim C34. As long as no sum overflows, a window is reported as valid exactly when what was asked
  for is consistent and lies within the base.
\<close>

theorem slice_valid_iff:
  assumes "sums_fit req"
  shows "sl_valid (compute_slice req) \<longleftrightarrow> (\<exists>e. ends_at req e \<and> window_in_base req e)"
proof (cases "sr_length req")
  case None
  show ?thesis
  proof (cases "sr_end req")
    case (Some e)
    with assms None show ?thesis
      unfolding compute_slice_valid
      by (auto simp: slice_cases ends_at_def window_in_base_def sums_fit_def sint_diff_fits split: option.splits)
  qed (simp add: None compute_slice_valid ends_at_def)
next
  case (Some l)
  have sum: "sint (sr_offset req + l) = sint (sr_offset req) + sint l"
    using assms Some by (intro sint_add_fits) (simp_all add: sums_fit_def)
  show ?thesis
  proof (cases "sr_end req")
    case None
    with Some sum show ?thesis
      unfolding compute_slice_valid
      by (auto simp: slice_cases ends_at_def window_in_base_def split: option.splits)
  next
    case (Some e)
    have "sr_offset req + l = e \<longleftrightarrow> sint (sr_offset req) + sint l = sint e"
      using sum by (metis signed_word_eqI)
    with Some \<open>sr_length req = Some l\<close> show ?thesis
      unfolding compute_slice_valid
      by (auto simp: slice_cases ends_at_def window_in_base_def split: option.splits)
  qed
qed

definition demo_request :: slice_request where
  "demo_request = \<lparr>sr_base = ''buffer'', sr_base_length = Some 100, sr_offset = 37, sr_length = None,
     sr_end = Some 52, sr_element_size = 4, sr_element_type = [], sr_source_reference = [], sr_expression = []\<rparr>"

theorem slice_valid_iff_witness: "sl_valid (compute_slice demo_request)"
proof -
  have "sums_fit demo_request" by (simp add: demo_request_def sums_fit_def)
  moreover have "ends_at demo_request 52 \<and> window_in_base demo_request 52"
    by (simp add: demo_request_def ends_at_def window_in_base_def)
  ultimately show ?thesis using slice_valid_iff by blast
qed

text \<open>
  Overflow is not noticed: a window of \<open>2 ^ 63 - 1\<close> elements at offset 5 of a base with
  10 elements is valid, and it ends before it starts.
\<close>

theorem slice_overflow_accepted:
  "let r = compute_slice (demo_request\<lparr>sr_base_length := Some 10, sr_offset := 5, sr_end := None,
         sr_length := Some (2 ^ 63 - 1)\<rparr>)
   in sl_valid r \<and> sl_problems r = [] \<and> sint (sl_end r) < 0"
  by (simp add: demo_request_def compute_slice_def Let_def slice_window_def sign_problems_def base_problems_def)

text \<open>The byte window is the element window times the size of an element, where that fits.\<close>

lemma slice_bytes:
  assumes "sl_valid (compute_slice req)"
  shows "sl_byte_end (compute_slice req) - sl_byte_offset (compute_slice req) = sl_byte_length (compute_slice req)"
  unfolding compute_slice_fields valid_window [OF assms] by (simp add: algebra_simps)

end
