(* ===== verification/EventEngine.thy ===== *)
theory EventEngine
  imports GoStrings "HOL-Library.Word" "HOL-Library.Multiset"
begin

text \<open>
  \<open>internal/services/events.go\<close>: events are kept in a ring, queued, and handed to every
  registered worker by a pool of goroutines. Each function below is what one goroutine does
  between two points where it can be interrupted: a branch of a \<open>select\<close>, or a section under the
  mutex. It is undefined where that branch is not ready. The step relation interleaves them.
  Workers are names; \<open>delivered\<close> lists the calls of \<open>OnEvent\<close> that returned, \<open>accepted\<close> the
  events that entered the queue, \<open>dispatched\<close> the events taken from it with the workers of that
  moment, and \<open>en_ever_stopped\<close> whether a stop was ever asked for; the code keeps none of the four.
\<close>

section \<open>State\<close>

record event =
  evt_id :: string
  evt_kind :: string
  evt_project :: string
  evt_agent :: string
  evt_session :: string
  evt_time :: int
  evt_payload :: props

type_synonym job = "event \<times> string"

text \<open>Where the dispatching goroutine is: \<open>Deliver e ws\<close> has still to hand \<open>e\<close> to \<open>ws\<close>.\<close>

datatype dispatcher = Idle_Select | Deliver event "string list" | Drain | Await | Finished

datatype runner = Ready | Running job | Exited

text \<open>An emitter between recording its event and getting rid of it, before and after it found the queue full.\<close>

datatype emitter = Sending event | Blocked event

record engine =
  en_workers :: "string list"
  en_queue :: "event list"
  en_jobs :: "job list"
  en_buffer :: "event list"
  en_head :: nat
  en_len :: nat
  en_max :: nat
  en_worker_count :: nat
  en_running :: bool
  en_ever_stopped :: bool
  en_stop :: bool
  en_stopping :: bool
  en_dispatcher :: dispatcher
  en_runners :: "runner list"
  en_emitters :: "emitter list"
  en_metrics :: "int store"
  en_next_id :: "64 word"
  accepted :: "event list"
  dispatched :: "(event \<times> string list) list"
  delivered :: "job list"

definition zero_evt :: event where
  "zero_evt = \<lparr>evt_id = [], evt_kind = [], evt_project = [], evt_agent = [], evt_session = [],
     evt_time = 0, evt_payload = []\<rparr>"

definition new_event_engine :: "int \<Rightarrow> int list \<Rightarrow> engine" where
  "new_event_engine max_buf counts =
     (let m = (if max_buf \<le> 0 then 1024 else nat max_buf);
          n = (case counts of c # _ \<Rightarrow> (if 0 < c then nat c else 4) | [] \<Rightarrow> 4)
      in \<lparr>en_workers = [], en_queue = [], en_jobs = [], en_buffer = replicate m zero_evt, en_head = 0,
          en_len = 0, en_max = m, en_worker_count = n, en_running = False, en_ever_stopped = False, en_stop = False,
          en_stopping = False, en_dispatcher = Finished, en_runners = [], en_emitters = [],
          en_metrics = [(''worker_count'', int n)], en_next_id = 0, accepted = [], dispatched = [], delivered = []\<rparr>)"

definition metric :: "string \<Rightarrow> engine \<Rightarrow> int" where
  "metric k s = (case map_of (en_metrics s) k of None \<Rightarrow> 0 | Some n \<Rightarrow> n)"

definition count_metric :: "string \<Rightarrow> engine \<Rightarrow> engine" where
  "count_metric k s = s\<lparr>en_metrics := AList.update k (metric k s + 1) (en_metrics s)\<rparr>"

section \<open>Starting and stopping\<close>

text \<open>\<open>startMu\<close> is held while a stop waits for the dispatcher.\<close>

definition start_engine :: "engine \<Rightarrow> engine option" where
  "start_engine s =
     (if en_stopping s then None
      else if en_running s then Some s
      else Some (s\<lparr>en_stop := False, en_jobs := [], en_running := True, en_dispatcher := Idle_Select,
                   en_runners := replicate (en_worker_count s) Ready\<rparr>))"

definition stop_begin :: "engine \<Rightarrow> engine option" where
  "stop_begin s =
     (if en_stopping s then None
      else if \<not> en_running s then Some s
      else Some (s\<lparr>en_running := False, en_ever_stopped := True, en_stop := True, en_stopping := True\<rparr>))"

definition stop_end :: "engine \<Rightarrow> engine option" where
  "stop_end s =
     (if en_stopping s \<and> en_dispatcher s = Finished then Some (s\<lparr>en_stopping := False\<rparr>) else None)"

definition register_worker :: "string \<Rightarrow> engine \<Rightarrow> engine" where
  "register_worker w s = s\<lparr>en_workers := en_workers s @ [w]\<rparr>"

text \<open>\<open>AddWorker\<close> takes the lock again after the start; another goroutine may come in between.\<close>

definition add_worker :: "string option \<Rightarrow> engine \<Rightarrow> engine option" where
  "add_worker w s = (case w of None \<Rightarrow> Some s | Some w \<Rightarrow> map_option (register_worker w) (start_engine s))"

definition remove_worker :: "string \<Rightarrow> engine \<Rightarrow> engine" where
  "remove_worker w s = s\<lparr>en_workers := remove1 w (en_workers s)\<rparr>"

section \<open>Emitting\<close>

text \<open>Times are nanoseconds since the zero time of Go, which is the first second of year 1.\<close>

definition unix_nano :: "int \<Rightarrow> int" where
  "unix_nano t = t - 62135596800 * 10 ^ 9"

definition stamped :: "int \<Rightarrow> event \<Rightarrow> event" where
  "stamped now e =
     (let t = evt_time e - evt_time e mod 10 ^ 9 in e\<lparr>evt_time := (if t = 0 then now else t)\<rparr>)"

definition identified :: "event \<Rightarrow> engine \<Rightarrow> event \<times> engine" where
  "identified e s =
     (if evt_id e = []
      then (let n = en_next_id s + 1
            in (e\<lparr>evt_id := ''event-'' @ itoa (unix_nano (evt_time e)) @ ''-'' @ nat_str (unat n)\<rparr>, s\<lparr>en_next_id := n\<rparr>))
      else (e, s))"

definition ring_put :: "event \<Rightarrow> engine \<Rightarrow> engine" where
  "ring_put e s =
     (let s = (if en_len s = en_max s
               then (count_metric ''events_dropped'' s)\<lparr>en_head := (en_head s + 1) mod en_max s, en_len := en_len s - 1\<rparr>
               else s)
      in s\<lparr>en_buffer := (en_buffer s)[(en_head s + en_len s) mod en_max s := e], en_len := en_len s + 1\<rparr>)"

text \<open>\<open>Emit\<close> after its call of \<open>Start\<close>, up to the first \<open>select\<close>.\<close>

definition emit_record :: "int \<Rightarrow> event \<Rightarrow> engine \<Rightarrow> engine" where
  "emit_record now e s =
     (case identified (stamped now e) s of
        (e, s) \<Rightarrow> (let s = ring_put e (count_metric ''events_seen'' s) in s\<lparr>en_emitters := en_emitters s @ [Sending e]\<rparr>))"

definition emitter_event :: "emitter \<Rightarrow> event" where
  "emitter_event m = (case m of Sending e \<Rightarrow> e | Blocked e \<Rightarrow> e)"

definition drop_nth :: "nat \<Rightarrow> 'a list \<Rightarrow> 'a list" where
  "drop_nth i xs = take i xs @ drop (Suc i) xs"

definition emit_send :: "nat \<Rightarrow> engine \<Rightarrow> engine option" where
  "emit_send i s =
     (if i < length (en_emitters s) \<and> length (en_queue s) < en_max s
      then (let e = emitter_event (en_emitters s ! i)
            in Some (s\<lparr>en_emitters := drop_nth i (en_emitters s), en_queue := en_queue s @ [e], accepted := accepted s @ [e]\<rparr>))
      else None)"

definition emit_block :: "nat \<Rightarrow> engine \<Rightarrow> engine option" where
  "emit_block i s =
     (if i < length (en_emitters s) \<and> length (en_queue s) = en_max s
      then (case en_emitters s ! i of
              Sending e \<Rightarrow> Some (s\<lparr>en_emitters := (en_emitters s)[i := Blocked e]\<rparr>)
            | Blocked e \<Rightarrow> None)
      else None)"

text \<open>After the second \<open>select\<close>: the time is up, or the engine has been stopped.\<close>

definition emit_timeout :: "nat \<Rightarrow> engine \<Rightarrow> engine option" where
  "emit_timeout i s =
     (if i < length (en_emitters s)
      then (case en_emitters s ! i of
              Sending e \<Rightarrow> None
            | Blocked e \<Rightarrow> Some (count_metric ''events_dropped'' (s\<lparr>en_emitters := drop_nth i (en_emitters s)\<rparr>)))
      else None)"

definition emit_stopped :: "nat \<Rightarrow> engine \<Rightarrow> engine option" where
  "emit_stopped i s =
     (if i < length (en_emitters s) \<and> en_stop s
      then (case en_emitters s ! i of
              Sending e \<Rightarrow> None
            | Blocked e \<Rightarrow> Some (s\<lparr>en_emitters := drop_nth i (en_emitters s)\<rparr>))
      else None)"

section \<open>Dispatching\<close>

text \<open>
  Receiving an event and copying the list of workers are one move here. In the code a worker can be
  added or removed in between; such a run is the one of the model in which it was added or removed
  just before the event was received, since nothing else reads the list.
\<close>

definition dispatch_take :: "engine \<Rightarrow> engine option" where
  "dispatch_take s =
     (case (en_dispatcher s, en_queue s) of
        (Idle_Select, e # q) \<Rightarrow>
          Some (s\<lparr>en_queue := q, en_dispatcher := Deliver e (en_workers s), dispatched := dispatched s @ [(e, en_workers s)]\<rparr>)
      | _ \<Rightarrow> None)"

definition dispatch_job :: "engine \<Rightarrow> engine option" where
  "dispatch_job s =
     (case en_dispatcher s of
        Deliver e (w # ws) \<Rightarrow>
          (if length (en_jobs s) < en_max s
           then Some (s\<lparr>en_jobs := en_jobs s @ [(e, w)], en_dispatcher := Deliver e ws\<rparr>) else None)
      | _ \<Rightarrow> None)"

definition dispatch_abort :: "engine \<Rightarrow> engine option" where
  "dispatch_abort s =
     (case en_dispatcher s of
        Deliver e (w # ws) \<Rightarrow> (if en_stop s then Some (s\<lparr>en_dispatcher := Await\<rparr>) else None)
      | _ \<Rightarrow> None)"

definition dispatch_count :: "engine \<Rightarrow> engine option" where
  "dispatch_count s =
     (case en_dispatcher s of
        Deliver e [] \<Rightarrow> Some (count_metric ''events_processed'' (s\<lparr>en_dispatcher := Idle_Select\<rparr>))
      | _ \<Rightarrow> None)"

definition dispatch_stop :: "engine \<Rightarrow> engine option" where
  "dispatch_stop s =
     (if en_dispatcher s = Idle_Select \<and> en_stop s then Some (s\<lparr>en_dispatcher := Drain\<rparr>) else None)"

text \<open>
  One round of \<open>drain\<close>: an event is received, every worker is called directly, one after the other,
  and the event is counted, in one move. The calls are assumed to return; what they do in between
  the model leaves out, as it does for the pool.
\<close>

definition drain_step :: "engine \<Rightarrow> engine option" where
  "drain_step s =
     (case (en_dispatcher s, en_queue s) of
        (Drain, e # q) \<Rightarrow>
          Some (count_metric ''events_processed''
            (s\<lparr>en_queue := q, dispatched := dispatched s @ [(e, en_workers s)],
               delivered := delivered s @ map (\<lambda>w. (e, w)) (en_workers s)\<rparr>))
      | (Drain, []) \<Rightarrow> Some (s\<lparr>en_dispatcher := Await\<rparr>)
      | _ \<Rightarrow> None)"

definition await_done :: "engine \<Rightarrow> engine option" where
  "await_done s =
     (if en_dispatcher s = Await \<and> list_all (\<lambda>r. r = Exited) (en_runners s)
      then Some (s\<lparr>en_dispatcher := Finished\<rparr>) else None)"

section \<open>The pool\<close>

definition runner_take :: "nat \<Rightarrow> engine \<Rightarrow> engine option" where
  "runner_take i s =
     (if i < length (en_runners s) \<and> en_runners s ! i = Ready
      then (case en_jobs s of
              [] \<Rightarrow> None
            | j # js \<Rightarrow> Some (s\<lparr>en_jobs := js, en_runners := (en_runners s)[i := Running j]\<rparr>))
      else None)"

definition runner_exit :: "nat \<Rightarrow> engine \<Rightarrow> engine option" where
  "runner_exit i s =
     (if i < length (en_runners s) \<and> en_runners s ! i = Ready \<and> en_stop s
      then Some (s\<lparr>en_runners := (en_runners s)[i := Exited]\<rparr>) else None)"

text \<open>
  The worker returns, or panics and the panic is counted; either way the call counts as delivered.
  That \<open>OnEvent\<close> returns at all is an assumption of the model: a worker that blocks, or that emits
  while the engine stops and so waits for the mutex \<open>Stop\<close> holds, keeps its goroutine forever.
\<close>

definition runner_finish :: "bool \<Rightarrow> nat \<Rightarrow> engine \<Rightarrow> engine option" where
  "runner_finish panicked i s =
     (if i < length (en_runners s)
      then (case en_runners s ! i of
              Running j \<Rightarrow>
                (let s = s\<lparr>en_runners := (en_runners s)[i := Ready], delivered := delivered s @ [j]\<rparr>
                 in Some (if panicked then count_metric ''worker_errors'' s else s))
            | _ \<Rightarrow> None)
      else None)"

section \<open>Reports\<close>

definition engine_snapshot :: "engine \<Rightarrow> event list" where
  "engine_snapshot s = map (\<lambda>i. en_buffer s ! ((en_head s + i) mod en_max s)) [0..<en_len s]"

definition queue_length :: "engine \<Rightarrow> nat" where
  "queue_length s = length (en_queue s)"

section \<open>Steps\<close>

text \<open>What the goroutines of the engine do by themselves, and what its users make them do.\<close>

definition internal_moves :: "engine \<Rightarrow> engine option list" where
  "internal_moves s =
     [dispatch_take s, dispatch_job s, dispatch_abort s, dispatch_count s, dispatch_stop s, drain_step s, await_done s] @
     concat (map (\<lambda>i. [runner_take i s, runner_exit i s, runner_finish False i s, runner_finish True i s])
       [0..<length (en_runners s)])"

definition user_moves :: "engine \<Rightarrow> engine option list" where
  "user_moves s =
     [start_engine s, stop_begin s, stop_end s] @
     concat (map (\<lambda>i. [emit_send i s, emit_block i s, emit_timeout i s, emit_stopped i s]) [0..<length (en_emitters s)])"

inductive internal :: "engine \<Rightarrow> engine \<Rightarrow> bool" where
  internal: "Some t \<in> set (internal_moves s) \<Longrightarrow> internal s t"

inductive engine_step :: "engine \<Rightarrow> engine \<Rightarrow> bool" where
  step_internal: "internal s t \<Longrightarrow> engine_step s t"
| step_user: "Some t \<in> set (user_moves s) \<Longrightarrow> engine_step s t"
| step_register: "engine_step s (register_worker w s)"
| step_remove: "engine_step s (remove_worker w s)"
| step_record: "engine_step s (emit_record now e s)"

inductive reached :: "int \<Rightarrow> int list \<Rightarrow> engine \<Rightarrow> bool" for max_buf counts where
  reached_new: "reached max_buf counts (new_event_engine max_buf counts)"
| reached_step: "reached max_buf counts s \<Longrightarrow> engine_step s t \<Longrightarrow> reached max_buf counts t"

section \<open>Coming to rest\<close>

text \<open>The work the goroutines of the engine still have: every move of theirs takes some of it away.\<close>

fun dispatcher_load :: "dispatcher \<Rightarrow> nat" where
  "dispatcher_load Idle_Select = 3"
| "dispatcher_load (Deliver e ws) = 4 * length ws + 4"
| "dispatcher_load Drain = 2"
| "dispatcher_load Await = 1"
| "dispatcher_load Finished = 0"

fun runner_load :: "runner \<Rightarrow> nat" where
  "runner_load Ready = 1"
| "runner_load (Running j) = 3"
| "runner_load Exited = 0"

definition engine_load :: "engine \<Rightarrow> nat" where
  "engine_load s =
     (4 * length (en_workers s) + 2) * length (en_queue s) + 3 * length (en_jobs s) +
     dispatcher_load (en_dispatcher s) + sum_list (map runner_load (en_runners s))"

lemma count_metric_simps [simp]:
  "en_workers (count_metric k s) = en_workers s" "en_queue (count_metric k s) = en_queue s"
  "en_jobs (count_metric k s) = en_jobs s" "en_dispatcher (count_metric k s) = en_dispatcher s"
  "en_runners (count_metric k s) = en_runners s" "en_max (count_metric k s) = en_max s"
  "en_worker_count (count_metric k s) = en_worker_count s" "en_running (count_metric k s) = en_running s"
  "en_ever_stopped (count_metric k s) = en_ever_stopped s" "en_stop (count_metric k s) = en_stop s"
  "en_stopping (count_metric k s) = en_stopping s" "accepted (count_metric k s) = accepted s"
  "dispatched (count_metric k s) = dispatched s" "delivered (count_metric k s) = delivered s"
  "en_emitters (count_metric k s) = en_emitters s" "en_buffer (count_metric k s) = en_buffer s"
  "en_head (count_metric k s) = en_head s" "en_len (count_metric k s) = en_len s"
  by (simp_all add: count_metric_def)

lemma sum_list_map_update:
  "i < length xs \<Longrightarrow> sum_list (map f (xs[i := y])) + f (xs ! i) = sum_list (map f xs) + (f y :: nat)"
  by (induction xs arbitrary: i) (auto split: nat.split)

lemmas dispatch_defs = dispatch_take_def dispatch_job_def dispatch_abort_def dispatch_count_def
  dispatch_stop_def drain_step_def await_done_def

lemmas runner_defs = runner_take_def runner_exit_def runner_finish_def Let_def

lemma internal_cases:
  assumes "internal s t"
  obtains "dispatch_take s = Some t" | "dispatch_job s = Some t" | "dispatch_abort s = Some t"
    | "dispatch_count s = Some t" | "dispatch_stop s = Some t" | "drain_step s = Some t" | "await_done s = Some t"
    | i where "runner_take i s = Some t" | i where "runner_exit i s = Some t"
    | i b where "runner_finish b i s = Some t"
  using assms unfolding internal.simps internal_moves_def
  by (simp only: set_append set_concat set_map Un_iff UN_iff) (auto dest: sym)

lemma internal_load: "internal s t \<Longrightarrow> engine_load t < engine_load s"
proof (elim internal_cases)
  fix i assume "runner_take i s = Some t"
  then show ?thesis using sum_list_map_update [of i "en_runners s" runner_load "Running (hd (en_jobs s))"]
    by (auto simp: runner_defs engine_load_def split: if_splits list.splits)
next
  fix i assume "runner_exit i s = Some t"
  then show ?thesis using sum_list_map_update [of i "en_runners s" runner_load Exited]
    by (auto simp: runner_defs engine_load_def split: if_splits)
next
  fix i b assume "runner_finish b i s = Some t"
  then show ?thesis using sum_list_map_update [of i "en_runners s" runner_load Ready]
    by (auto simp: runner_defs engine_load_def split: if_splits runner.splits)
qed (auto simp: dispatch_defs engine_load_def split: if_splits dispatcher.splits list.splits)

lemma internal_bounded: "(internal ^^ n) s t \<Longrightarrow> n + engine_load t \<le> engine_load s"
proof (induction n arbitrary: t)
  case (Suc n)
  then obtain u where "(internal ^^ n) s u" "internal u t" by auto
  with Suc.IH [of u] internal_load [of u t] show ?case by simp
qed simp

definition at_rest :: "engine \<Rightarrow> bool" where
  "at_rest s \<longleftrightarrow> list_all (\<lambda>m. m = None) (internal_moves s)"

lemma at_rest_iff: "at_rest s \<longleftrightarrow> (\<nexists>t. internal s t)"
proof -
  have "at_rest s \<longleftrightarrow> (\<forall>m \<in> set (internal_moves s). m = None)" by (simp add: at_rest_def list_all_iff)
  also have "\<dots> \<longleftrightarrow> (\<nexists>t. Some t \<in> set (internal_moves s))" by (metis not_None_eq)
  finally show ?thesis by (simp add: internal.simps)
qed

lemma comes_to_rest: "\<exists>t. internal\<^sup>*\<^sup>* s t \<and> at_rest t"
proof (induction "engine_load s" arbitrary: s rule: less_induct)
  case less
  show ?case
  proof (cases "at_rest s")
    case False
    then obtain u where "internal s u" by (auto simp: at_rest_iff)
    with less [OF internal_load [OF this]] show ?thesis by (meson converse_rtranclp_into_rtranclp)
  qed auto
qed

section \<open>Accounting\<close>

definition runner_jobs :: "runner \<Rightarrow> job list" where
  "runner_jobs r = (case r of Running j \<Rightarrow> [j] | _ \<Rightarrow> [])"

definition dispatcher_jobs :: "dispatcher \<Rightarrow> job list" where
  "dispatcher_jobs d = (case d of Deliver e ws \<Rightarrow> map (Pair e) ws | _ \<Rightarrow> [])"

definition jobs_of :: "(event \<times> string list) list \<Rightarrow> job multiset" where
  "jobs_of sent = mset (concat (map (\<lambda>(e, ws). map (Pair e) ws) sent))"

text \<open>Jobs handed out so far, and jobs that are done or on their way.\<close>

definition tracked :: "engine \<Rightarrow> job multiset" where
  "tracked s = mset (delivered s) + mset (en_jobs s) + mset (dispatcher_jobs (en_dispatcher s)) +
     mset (concat (map runner_jobs (en_runners s)))"

lemma jobs_of_append [simp]: "jobs_of (xs @ ys) = jobs_of xs + jobs_of ys"
  "jobs_of [(e, ws)] = mset (map (Pair e) ws)" "jobs_of [] = {#}"
  by (simp_all add: jobs_of_def)

lemma runner_jobs_simps [simp]:
  "runner_jobs Ready = []" "runner_jobs Exited = []" "runner_jobs (Running j) = [j]"
  by (simp_all add: runner_jobs_def)

lemma dispatcher_jobs_simps [simp]:
  "dispatcher_jobs (Deliver e ws) = map (Pair e) ws" "dispatcher_jobs Idle_Select = []"
  "dispatcher_jobs Drain = []" "dispatcher_jobs Await = []" "dispatcher_jobs Finished = []"
  by (simp_all add: dispatcher_jobs_def)

lemma mset_concat_update:
  "i < length xs \<Longrightarrow> mset (concat (map f (xs[i := y]))) + mset (f (xs ! i)) = mset (concat (map f xs)) + mset (f y)"
  by (induction xs arbitrary: i) (auto split: nat.split simp: union_ac)

definition waiting_dispatcher :: "dispatcher \<Rightarrow> bool" where
  "waiting_dispatcher d = (case d of Idle_Select \<Rightarrow> True | Deliver e ws \<Rightarrow> True | _ \<Rightarrow> False)"

lemma waiting_dispatcher_simps [simp]:
  "waiting_dispatcher Idle_Select" "waiting_dispatcher (Deliver e ws)" "\<not> waiting_dispatcher Drain"
  "\<not> waiting_dispatcher Await" "\<not> waiting_dispatcher Finished"
  by (simp_all add: waiting_dispatcher_def)

definition engine_ok :: "engine \<Rightarrow> bool" where
  "engine_ok s \<longleftrightarrow>
     0 < en_max s \<and> 0 < en_worker_count s \<and> length (en_queue s) \<le> en_max s \<and>
     (en_running s \<longrightarrow> \<not> en_stop s \<and> \<not> en_stopping s \<and> waiting_dispatcher (en_dispatcher s) \<and>
        length (en_runners s) = en_worker_count s \<and> list_all (\<lambda>r. r \<noteq> Exited) (en_runners s)) \<and>
     (en_stopping s \<longrightarrow> en_stop s) \<and> (en_stop s \<longrightarrow> en_ever_stopped s) \<and>
     (\<not> en_running s \<and> \<not> en_stopping s \<longrightarrow> en_dispatcher s = Finished) \<and>
     (\<not> en_running s \<and> \<not> en_ever_stopped s \<longrightarrow> en_jobs s = [] \<and> en_runners s = [] \<and> \<not> en_stopping s) \<and>
     accepted s = map fst (dispatched s) @ en_queue s \<and>
     tracked s \<subseteq># jobs_of (dispatched s) \<and> (\<not> en_ever_stopped s \<longrightarrow> tracked s = jobs_of (dispatched s))"

lemma engine_ok_new: "engine_ok (new_event_engine m c)"
  by (auto simp: engine_ok_def new_event_engine_def Let_def tracked_def split: list.splits)

lemma engine_ok_cong:
  assumes "engine_ok s" "en_max t = en_max s" "en_worker_count t = en_worker_count s" "en_queue t = en_queue s"
    "en_running t = en_running s" "en_stop t = en_stop s" "en_stopping t = en_stopping s"
    "en_ever_stopped t = en_ever_stopped s" "en_dispatcher t = en_dispatcher s" "en_runners t = en_runners s"
    "en_jobs t = en_jobs s" "accepted t = accepted s" "dispatched t = dispatched s" "delivered t = delivered s"
  shows "engine_ok t"
  using assms(1) unfolding engine_ok_def tracked_def assms(2-) .

lemma dispatch_tracked:
  assumes "dispatch_take s = Some t \<or> dispatch_job s = Some t \<or> dispatch_count s = Some t \<or> dispatch_stop s = Some t \<or>
    drain_step s = Some t \<or> await_done s = Some t"
  shows "\<exists>sent. dispatched t = dispatched s @ sent \<and> tracked t = tracked s + jobs_of sent"
  using assms
  by (elim disjE) (auto simp: dispatch_defs tracked_def union_ac split: if_splits dispatcher.splits list.splits)

lemma runner_tracked:
  assumes "runner_take i s = Some t \<or> runner_exit i s = Some t \<or> runner_finish b i s = Some t"
  shows "tracked t = tracked s"
  using assms mset_concat_update [of i "en_runners s" runner_jobs "Running (hd (en_jobs s))"]
    mset_concat_update [of i "en_runners s" runner_jobs Exited] mset_concat_update [of i "en_runners s" runner_jobs Ready]
  by (elim disjE) (auto simp: runner_defs tracked_def union_ac split: if_splits list.splits runner.splits)

lemma abort_tracked: "dispatch_abort s = Some t \<Longrightarrow> tracked t \<subseteq># tracked s"
  by (auto simp: dispatch_defs tracked_def split: dispatcher.splits list.splits if_splits intro: subset_mset.add_right_mono)

lemma internal_tracked:
  assumes "internal s t"
  shows "\<exists>sent. dispatched t = dispatched s @ sent \<and>
    (tracked t = tracked s + jobs_of sent \<or> en_stop s \<and> sent = [] \<and> tracked t \<subseteq># tracked s)"
  using assms
proof (cases rule: internal_cases)
  case 3
  then show ?thesis
    using abort_tracked [OF 3] by (auto simp: dispatch_defs split: dispatcher.splits list.splits if_splits)
next
  case (8 i)
  then show ?thesis using runner_tracked [of i s t] by (auto simp: runner_defs split: if_splits list.splits)
next
  case (9 i)
  then show ?thesis using runner_tracked [of i s t] by (auto simp: runner_defs split: if_splits)
next
  case (10 i b)
  then show ?thesis using runner_tracked [of i s t b] by (auto simp: runner_defs split: if_splits runner.splits)
qed (use dispatch_tracked [of s t] in blast)+

lemma list_all_list_update: "list_all P xs \<Longrightarrow> P y \<Longrightarrow> list_all P (xs[i := y])"
  unfolding list_all_iff using set_update_subset_insert by fastforce

lemma internal_frame:
  assumes "internal s t"
  shows "en_max t = en_max s" "en_worker_count t = en_worker_count s" "en_running t = en_running s"
    "en_stop t = en_stop s" "en_stopping t = en_stopping s" "en_ever_stopped t = en_ever_stopped s"
    "accepted t = accepted s" "length (en_runners t) = length (en_runners s)"
    "map fst (dispatched t) @ en_queue t = map fst (dispatched s) @ en_queue s"
    "length (en_queue t) \<le> length (en_queue s)"
    "waiting_dispatcher (en_dispatcher s) \<and> \<not> en_stop s \<Longrightarrow> waiting_dispatcher (en_dispatcher t)"
    "list_all (\<lambda>r. r \<noteq> Exited) (en_runners s) \<and> \<not> en_stop s \<Longrightarrow> list_all (\<lambda>r. r \<noteq> Exited) (en_runners t)"
    "en_dispatcher s = Finished \<Longrightarrow> en_dispatcher t = Finished"
    "en_dispatcher s = Finished \<Longrightarrow> en_runners s \<noteq> []"
  by (use assms in \<open>cases rule: internal_cases;
    auto simp: dispatch_defs runner_defs list_all_list_update
      split: if_splits dispatcher.splits list.splits runner.splits\<close>)+

lemma engine_ok_internal:
  assumes ok: "engine_ok s" and step: "internal s t"
  shows "engine_ok t"
proof -
  note frame = internal_frame [OF step]
  obtain sent where sent: "dispatched t = dispatched s @ sent"
    "tracked t = tracked s + jobs_of sent \<or> en_stop s \<and> sent = [] \<and> tracked t \<subseteq># tracked s"
    using internal_tracked [OF step] by blast
  have sub: "tracked s \<subseteq># jobs_of (dispatched s)" using ok by (simp add: engine_ok_def)
  have "tracked t \<subseteq># jobs_of (dispatched t)"
    using sent(2)
  proof
    assume "tracked t = tracked s + jobs_of sent"
    with sub show ?thesis by (simp add: sent(1))
  next
    assume "en_stop s \<and> sent = [] \<and> tracked t \<subseteq># tracked s"
    with sub sent(1) show ?thesis by (auto intro: subset_mset.order_trans)
  qed
  moreover have "tracked t = jobs_of (dispatched t)" if "\<not> en_ever_stopped s"
    using sent ok that by (auto simp: engine_ok_def)
  moreover have "accepted t = map fst (dispatched t) @ en_queue t"
    using frame(7,9) ok by (simp add: engine_ok_def)
  moreover have "en_running s \<or> en_ever_stopped s"
    using ok frame(14) by (auto simp: engine_ok_def)
  ultimately show ?thesis
    using ok frame(1-6,8,10-13) by (auto simp: engine_ok_def)
qed

lemma mset_drop_nth: "i < length xs \<Longrightarrow> length (drop_nth i xs) = length xs - 1"
  by (simp add: drop_nth_def)

lemmas emit_defs = emit_send_def emit_block_def emit_timeout_def emit_stopped_def Let_def

lemma user_cases:
  assumes "Some t \<in> set (user_moves s)"
  obtains "start_engine s = Some t" | "stop_begin s = Some t" | "stop_end s = Some t"
    | i where "emit_send i s = Some t" | i where "emit_block i s = Some t" | i where "emit_timeout i s = Some t"
    | i where "emit_stopped i s = Some t"
  using assms unfolding user_moves_def
  by (simp only: set_append set_concat set_map Un_iff UN_iff) (auto dest: sym)

lemma engine_ok_start: "engine_ok s \<Longrightarrow> start_engine s = Some t \<Longrightarrow> engine_ok t"
proof -
  have sub: "mset (delivered s) \<subseteq># jobs_of (dispatched s)" if "tracked s \<subseteq># jobs_of (dispatched s)"
    using that unfolding tracked_def by (metis mset_subset_eq_add_left subset_mset.order_trans add.assoc)
  have none: "concat (map runner_jobs (replicate n Ready)) = []" for n
    by (induction n) simp_all
  assume "engine_ok s" "start_engine s = Some t"
  then show ?thesis
    using sub by (auto simp: engine_ok_def start_engine_def tracked_def none list_all_iff split: if_splits)
qed

lemma engine_ok_user:
  assumes "engine_ok s" "Some t \<in> set (user_moves s)"
  shows "engine_ok t"
  using assms(2)
proof (cases rule: user_cases)
  case 1
  then show ?thesis using engine_ok_start assms(1) by blast
next
  case 2
  then have "tracked t = tracked s" by (auto simp: stop_begin_def tracked_def split: if_splits)
  with 2 show ?thesis using assms(1) by (auto simp: engine_ok_def stop_begin_def split: if_splits)
next
  case 3
  then have "tracked t = tracked s" by (auto simp: stop_end_def tracked_def split: if_splits)
  then show ?thesis using 3 assms(1) by (auto simp: engine_ok_def stop_end_def split: if_splits)
next
  case (4 i)
  then have "tracked t = tracked s" by (auto simp: emit_defs tracked_def split: if_splits)
  moreover from 4 obtain e where "t = s\<lparr>en_emitters := drop_nth i (en_emitters s), en_queue := en_queue s @ [e],
      accepted := accepted s @ [e]\<rparr>" "length (en_queue s) < en_max s"
    by (auto simp: emit_defs split: if_splits)
  ultimately show ?thesis using assms(1) by (simp add: engine_ok_def)
qed (auto simp: emit_defs split: if_splits emitter.splits intro!: engine_ok_cong [OF assms(1)])

lemma engine_ok_record: "engine_ok s \<Longrightarrow> engine_ok (emit_record now e s)"
  by (rule engine_ok_cong [of s]) (auto simp: emit_record_def identified_def ring_put_def Let_def)

lemma engine_ok_workers: "engine_ok s \<Longrightarrow> engine_ok (register_worker w s)" "engine_ok s \<Longrightarrow> engine_ok (remove_worker w s)"
  by (rule engine_ok_cong [of s]; simp add: register_worker_def remove_worker_def)+

lemma engine_ok_step: "engine_step s t \<Longrightarrow> engine_ok s \<Longrightarrow> engine_ok t"
  by (induction rule: engine_step.induct)
    (blast intro: engine_ok_internal engine_ok_user engine_ok_record engine_ok_workers)+

lemma reached_ok: "reached m c s \<Longrightarrow> engine_ok s"
  by (induction rule: reached.induct) (auto intro: engine_ok_new engine_ok_step)

section \<open>At rest\<close>

lemma at_restD:
  assumes "at_rest s"
  shows "dispatch_take s = None" "dispatch_job s = None" "dispatch_abort s = None" "dispatch_count s = None"
    "dispatch_stop s = None" "drain_step s = None" "await_done s = None"
    "i < length (en_runners s) \<Longrightarrow> runner_take i s = None"
    "i < length (en_runners s) \<Longrightarrow> runner_exit i s = None"
    "i < length (en_runners s) \<Longrightarrow> runner_finish False i s = None"
  using assms by (auto simp: at_rest_def internal_moves_def list_all_iff)

lemma rest_runner:
  assumes "at_rest s" "r \<in> set (en_runners s)"
  shows "r = Exited \<or> r = Ready \<and> en_jobs s = [] \<and> \<not> en_stop s"
proof -
  from assms(2) obtain i where "i < length (en_runners s)" "r = en_runners s ! i" by (auto simp: in_set_conv_nth)
  with at_restD(8-10) [OF assms(1), of i] show ?thesis
    by (cases "en_runners s ! i") (auto simp: runner_defs split: if_splits list.splits)
qed

lemma rest_running:
  assumes ok: "engine_ok s" and "at_rest s" "en_running s"
  shows "en_dispatcher s = Idle_Select" "en_queue s = []" "en_jobs s = []" "tracked s = mset (delivered s)"
proof -
  have ready: "r = Ready \<and> en_jobs s = []" if "r \<in> set (en_runners s)" for r
    using rest_runner [OF assms(2) that] ok assms(3) that by (auto simp: engine_ok_def list_all_iff)
  moreover have "en_runners s \<noteq> []" using ok assms(3) by (auto simp: engine_ok_def)
  ultimately show jobs: "en_jobs s = []" using hd_in_set by blast
  have wait: "waiting_dispatcher (en_dispatcher s)" "0 < en_max s" using ok assms(3) by (auto simp: engine_ok_def)
  show idle: "en_dispatcher s = Idle_Select"
    using wait jobs at_restD(2,4) [OF assms(2)]
    by (cases "en_dispatcher s") (auto simp: dispatch_defs split: list.splits)
  then show "en_queue s = []" using at_restD(1) [OF assms(2)] by (auto simp: dispatch_defs split: list.splits)
  have "concat (map runner_jobs (en_runners s)) = []" using ready by (fastforce simp: runner_jobs_def)
  then show "tracked s = mset (delivered s)" by (simp add: tracked_def jobs idle)
qed

lemma rest_stopping:
  assumes ok: "engine_ok s" and "at_rest s" "en_stopping s"
  shows "en_dispatcher s = Finished"
proof -
  have stop: "en_stop s" using ok assms(3) by (simp add: engine_ok_def)
  then have "list_all (\<lambda>r. r = Exited) (en_runners s)"
    using rest_runner [OF assms(2)] by (auto simp: list_all_iff)
  with stop at_restD(3-7) [OF assms(2)] show ?thesis
    by (cases "en_dispatcher s") (auto simp: dispatch_defs split: list.splits)
qed

lemma internal_star_ok:
  assumes "internal\<^sup>*\<^sup>* s t"
  shows "engine_ok s \<Longrightarrow> engine_ok t" "en_running t = en_running s" "en_stopping t = en_stopping s"
    "en_ever_stopped t = en_ever_stopped s" "accepted t = accepted s"
  using assms by (induction rule: rtranclp_induct) (auto simp: internal_frame engine_ok_internal)

text \<open>
  Claim C35. An engine that was never stopped comes to rest by itself, within a bounded number of moves
  of its goroutines and however they interleave; then every event that entered the queue has been
  taken in the order of entry and delivered exactly once to each worker registered at that moment.
\<close>

theorem events_delivered:
  assumes "reached max_buf counts s" "en_running s" "\<not> en_ever_stopped s"
  shows "(\<forall>n t. (internal ^^ n) s t \<longrightarrow> n \<le> engine_load s) \<and> (\<exists>t. internal\<^sup>*\<^sup>* s t \<and> at_rest t) \<and>
    (\<forall>t. internal\<^sup>*\<^sup>* s t \<and> at_rest t \<longrightarrow>
       map fst (dispatched t) = accepted s \<and> mset (delivered t) = jobs_of (dispatched t))"
proof (intro conjI allI impI)
  show "n \<le> engine_load s" if "(internal ^^ n) s t" for n t
    using internal_bounded [OF that] by simp
  show "\<exists>t. internal\<^sup>*\<^sup>* s t \<and> at_rest t" by (rule comes_to_rest)
next
  fix t assume t: "internal\<^sup>*\<^sup>* s t \<and> at_rest t"
  then have ok: "engine_ok t" "en_running t" "\<not> en_ever_stopped t" "accepted t = accepted s"
    using internal_star_ok [of s t] reached_ok [OF assms(1)] assms(2,3) by auto
  note rest = rest_running [OF ok(1) conjunct2 [OF t] ok(2)]
  show "map fst (dispatched t) = accepted s" using ok(1,4) rest(2) by (simp add: engine_ok_def)
  show "mset (delivered t) = jobs_of (dispatched t)" using ok(1,3) rest(4) by (simp add: engine_ok_def)
qed

text \<open>
  Claim C36. A stop returns: whatever the goroutines of the engine still have to do, their moves end
  after a bounded number, and then the dispatcher has finished and \<open>Stop\<close> goes on.
\<close>

theorem stop_returns:
  assumes "reached max_buf counts s" "en_stopping s"
  shows "(\<forall>n t. (internal ^^ n) s t \<longrightarrow> n \<le> engine_load s) \<and> (\<exists>t. internal\<^sup>*\<^sup>* s t \<and> at_rest t) \<and>
    (\<forall>t. internal\<^sup>*\<^sup>* s t \<and> at_rest t \<longrightarrow> stop_end t \<noteq> None)"
proof (intro conjI allI impI)
  show "n \<le> engine_load s" if "(internal ^^ n) s t" for n t
    using internal_bounded [OF that] by simp
  show "\<exists>t. internal\<^sup>*\<^sup>* s t \<and> at_rest t" by (rule comes_to_rest)
next
  fix t assume t: "internal\<^sup>*\<^sup>* s t \<and> at_rest t"
  then have "engine_ok t" "en_stopping t"
    using internal_star_ok [of s t] reached_ok [OF assms(1)] assms(2) by auto
  then show "stop_end t \<noteq> None" using rest_stopping t by (simp add: stop_end_def)
qed

section \<open>Schedules\<close>

text \<open>A schedule names the goroutine that moves next, so runs can be computed.\<close>

datatype move = Start | Stop_Begin | Stop_End | Register string | Record int event | Send nat
  | Take | Job | Abort | Count | Stop_Select | Drain_Move | Await_Move | Run nat | Exit nat | Finish bool nat

fun do_move :: "move \<Rightarrow> engine \<Rightarrow> engine option" where
  "do_move Start s = start_engine s"
| "do_move Stop_Begin s = stop_begin s"
| "do_move Stop_End s = stop_end s"
| "do_move (Register w) s = Some (register_worker w s)"
| "do_move (Record now e) s = Some (emit_record now e s)"
| "do_move (Send i) s = emit_send i s"
| "do_move Take s = dispatch_take s"
| "do_move Job s = dispatch_job s"
| "do_move Abort s = dispatch_abort s"
| "do_move Count s = dispatch_count s"
| "do_move Stop_Select s = dispatch_stop s"
| "do_move Drain_Move s = drain_step s"
| "do_move Await_Move s = await_done s"
| "do_move (Run i) s = runner_take i s"
| "do_move (Exit i) s = runner_exit i s"
| "do_move (Finish b i) s = runner_finish b i s"

fun do_moves :: "move list \<Rightarrow> engine \<Rightarrow> engine option" where
  "do_moves [] s = Some s"
| "do_moves (m # ms) s = (case do_move m s of None \<Rightarrow> None | Some t \<Rightarrow> do_moves ms t)"

lemma moves_index:
  "runner_take i s = Some t \<Longrightarrow> i < length (en_runners s)" "runner_exit i s = Some t \<Longrightarrow> i < length (en_runners s)"
  "runner_finish b i s = Some t \<Longrightarrow> i < length (en_runners s)" "emit_send i s = Some t \<Longrightarrow> i < length (en_emitters s)"
  by (auto simp: runner_defs emit_defs split: if_splits)

lemma dispatch_internal:
  "dispatch_take s = Some t \<Longrightarrow> internal s t" "dispatch_job s = Some t \<Longrightarrow> internal s t"
  "dispatch_abort s = Some t \<Longrightarrow> internal s t" "dispatch_count s = Some t \<Longrightarrow> internal s t"
  "dispatch_stop s = Some t \<Longrightarrow> internal s t" "drain_step s = Some t \<Longrightarrow> internal s t"
  "await_done s = Some t \<Longrightarrow> internal s t"
  by (rule internal.intros, simp add: internal_moves_def)+

lemma runner_internal:
  assumes "Some t \<in> set [runner_take i s, runner_exit i s, runner_finish False i s, runner_finish True i s]"
  shows "internal s t"
proof (rule internal.intros)
  have "i < length (en_runners s)"
    using assms moves_index(1-3) by (auto dest!: sym [of "Some t"])
  then show "Some t \<in> set (internal_moves s)"
    using assms by (auto simp: internal_moves_def intro!: bexI [of _ i])
qed

lemma emit_send_step: "emit_send i s = Some t \<Longrightarrow> engine_step s t"
proof (rule step_user)
  assume t: "emit_send i s = Some t"
  then show "Some t \<in> set (user_moves s)"
    using moves_index(4) [OF t] by (auto simp: user_moves_def intro!: bexI [of _ i])
qed

lemma control_step:
  "start_engine s = Some t \<Longrightarrow> engine_step s t" "stop_begin s = Some t \<Longrightarrow> engine_step s t"
  "stop_end s = Some t \<Longrightarrow> engine_step s t"
  by (rule step_user, simp add: user_moves_def)+

lemma do_move_step: "do_move m s = Some t \<Longrightarrow> engine_step s t"
proof (cases m)
  case (Finish b i)
  then show "do_move m s = Some t \<Longrightarrow> engine_step s t"
    by (cases b) (auto intro!: step_internal runner_internal [of _ i])
next
  case (Run i)
  then show "do_move m s = Some t \<Longrightarrow> engine_step s t" by (auto intro!: step_internal runner_internal [of _ i])
next
  case (Exit i)
  then show "do_move m s = Some t \<Longrightarrow> engine_step s t" by (auto intro!: step_internal runner_internal [of _ i])
qed (auto intro: control_step emit_send_step step_record step_register step_internal dispatch_internal)

lemma do_moves_reached: "do_moves ms s = Some t \<Longrightarrow> reached b c s \<Longrightarrow> reached b c t"
proof (induction ms arbitrary: s)
  case (Cons m ms)
  then show ?case by (auto split: option.splits dest: do_move_step reached_step)
qed simp

definition some_event :: event where
  "some_event = zero_evt\<lparr>evt_id := ''e1'', evt_time := 10 ^ 9\<rparr>"

definition after_moves :: "move list \<Rightarrow> engine" where
  "after_moves ms = the (do_moves ms (new_event_engine 1 [1]))"

definition emitted :: "move list" where
  "emitted = [Start, Register ''indexer'', Record 0 some_event, Send 0]"

lemma after_emitted: "do_moves emitted (new_event_engine 1 [1]) = Some (after_moves emitted)"
  "en_running (after_moves emitted) \<and> \<not> en_ever_stopped (after_moves emitted) \<and> accepted (after_moves emitted) = [some_event]"
  by code_simp+

theorem events_delivered_witness:
  "\<exists>t. internal\<^sup>*\<^sup>* (after_moves emitted) t \<and> map fst (dispatched t) = [some_event] \<and> mset (delivered t) = jobs_of (dispatched t)"
proof -
  have "reached 1 [1] (after_moves emitted)" by (rule do_moves_reached [OF after_emitted(1) reached_new])
  from events_delivered [OF this] after_emitted(2) show ?thesis by metis
qed

text \<open>
  Events may be lost all the same when the engine stops: here one was taken and handed to the pool,
  the goroutine of the pool saw the stop first, and \<open>Stop\<close> returned; no count tells.
\<close>

definition lossy :: "move list" where
  "lossy = emitted @ [Take, Job, Stop_Begin, Count, Stop_Select, Drain_Move, Exit 0, Await_Move, Stop_End]"

lemma after_lossy: "do_moves lossy (new_event_engine 1 [1]) = Some (after_moves lossy)"
  "let s = after_moves lossy in \<not> en_running s \<and> \<not> en_stopping s \<and> dispatched s = [(some_event, [''indexer''])] \<and>
     delivered s = [] \<and> metric ''events_dropped'' s = 0 \<and> metric ''events_processed'' s = 1"
  by code_simp+

lemma stop_loses_events:
  "\<exists>s. reached 1 [1] s \<and> \<not> en_running s \<and> \<not> en_stopping s \<and> dispatched s = [(some_event, [''indexer''])] \<and>
     delivered s = [] \<and> metric ''events_dropped'' s = 0 \<and> metric ''events_processed'' s = 1"
  using do_moves_reached [OF after_lossy(1) reached_new] after_lossy(2) by (auto simp: Let_def)

definition stopping_now :: "move list" where
  "stopping_now = emitted @ [Take, Stop_Begin]"

lemma after_stopping_now: "do_moves stopping_now (new_event_engine 1 [1]) = Some (after_moves stopping_now)"
  "en_stopping (after_moves stopping_now)"
  by code_simp+

theorem stop_returns_witness:
  "\<exists>t. internal\<^sup>*\<^sup>* (after_moves stopping_now) t \<and> stop_end t \<noteq> None"
proof -
  have "reached 1 [1] (after_moves stopping_now)" by (rule do_moves_reached [OF after_stopping_now(1) reached_new])
  from stop_returns [OF this after_stopping_now(2)] show ?thesis by blast
qed

section \<open>The ring\<close>

definition ring_ok :: "engine \<Rightarrow> bool" where
  "ring_ok s \<longleftrightarrow> 0 < en_max s \<and> length (en_buffer s) = en_max s \<and> en_head s < en_max s \<and> en_len s \<le> en_max s"

lemma ring_fields_internal:
  assumes "internal s t"
  shows "en_buffer t = en_buffer s \<and> en_head t = en_head s \<and> en_len t = en_len s \<and> en_max t = en_max s"
  using assms
  by (cases rule: internal_cases) (auto simp: dispatch_defs runner_defs
    split: if_splits dispatcher.splits list.splits runner.splits)

lemma count_metric_max [simp]: "engine_snapshot (count_metric k s) = engine_snapshot s"
  by (simp add: engine_snapshot_def)

lemma snapshot_put:
  assumes "ring_ok s" "en_len s < en_max s"
  shows "engine_snapshot (s\<lparr>en_buffer := (en_buffer s)[(en_head s + en_len s) mod en_max s := e], en_len := en_len s + 1\<rparr>) =
    engine_snapshot s @ [e]"
proof -
  have "(en_head s + en_len s) mod en_max s \<noteq> (en_head s + i) mod en_max s" if "i < en_len s" for i
    using slot_unique [of "en_head s" "en_max s" i "en_len s"] that assms by (auto simp: ring_ok_def)
  then show ?thesis using assms by (auto simp: engine_snapshot_def ring_ok_def nth_list_update)
qed

lemma tl_map_upt: "tl (map f [0..<n]) = map (\<lambda>i. f (Suc i)) [0..<n - 1]"
  by (cases n) (simp_all add: map_Suc_upt [symmetric] upt_conv_Cons comp_def del: upt_Suc)

lemma snapshot_ring_put:
  assumes "ring_ok s"
  shows "engine_snapshot (ring_put e s) = drop (Suc (en_len s) - en_max s) (engine_snapshot s @ [e])"
proof (cases "en_len s = en_max s")
  case False
  then have "en_len s < en_max s" using assms by (simp add: ring_ok_def)
  from snapshot_put [OF assms this, of e] this show ?thesis by (simp add: ring_put_def)
next
  case True
  let ?t = "(count_metric ''events_dropped'' s)\<lparr>en_head := (en_head s + 1) mod en_max s, en_len := en_len s - 1\<rparr>"
  have "ring_ok ?t" "en_len ?t < en_max ?t" using assms True by (auto simp: ring_ok_def)
  from snapshot_put [OF this, of e] have "engine_snapshot (ring_put e s) = engine_snapshot ?t @ [e]"
    using True by (simp add: ring_put_def Let_def)
  moreover have "((en_head s + 1) mod en_max s + i) mod en_max s = (en_head s + Suc i) mod en_max s" for i
    by (simp add: mod_add_left_eq)
  then have "engine_snapshot ?t = tl (engine_snapshot s)" by (simp add: engine_snapshot_def tl_map_upt)
  moreover have "engine_snapshot s \<noteq> []" using assms True by (auto simp: engine_snapshot_def ring_ok_def)
  ultimately show ?thesis using True by (cases "engine_snapshot s") simp_all
qed

lemma ring_ok_record: "ring_ok s \<Longrightarrow> ring_ok (emit_record now e s)"
  by (auto simp: emit_record_def identified_def ring_put_def ring_ok_def Let_def)

lemma ring_ok_cong:
  "ring_ok s \<Longrightarrow> en_buffer t = en_buffer s \<Longrightarrow> en_head t = en_head s \<Longrightarrow> en_len t = en_len s \<Longrightarrow> en_max t = en_max s \<Longrightarrow> ring_ok t"
  by (simp add: ring_ok_def)

lemma ring_fields_user:
  assumes "Some t \<in> set (user_moves s)"
  shows "en_buffer t = en_buffer s \<and> en_head t = en_head s \<and> en_len t = en_len s \<and> en_max t = en_max s"
  using assms
  by (cases rule: user_cases) (auto simp: start_engine_def stop_begin_def stop_end_def emit_defs
    split: if_splits emitter.splits)

lemma ring_ok_step: "engine_step s t \<Longrightarrow> ring_ok s \<Longrightarrow> ring_ok t"
proof (induction rule: engine_step.induct)
  case (step_internal s t)
  then show ?case using ring_fields_internal [of s t] by (auto intro: ring_ok_cong)
next
  case (step_user t s)
  then show ?case using ring_fields_user [of t s] by (auto intro: ring_ok_cong)
qed (auto simp: register_worker_def remove_worker_def ring_ok_record intro: ring_ok_cong)

lemma reached_ring_ok: "reached m c s \<Longrightarrow> ring_ok s"
proof (induction rule: reached.induct)
  case reached_new
  show ?case by (simp add: ring_ok_def new_event_engine_def Let_def)
qed (rule ring_ok_step)

text \<open>
  Claim C37. The snapshot is the list of the latest events: recording an event appends it, completed with
  its time and id, and drops the oldest one when there are more than the ring holds; nothing the
  engine does by itself changes it.
\<close>

theorem snapshot_latest:
  assumes "reached max_buf counts s"
  shows "engine_snapshot (emit_record now e s) =
      (let es = engine_snapshot s @ [fst (identified (stamped now e) s)] in drop (length es - en_max s) es) \<and>
    list_all (\<lambda>m. case m of None \<Rightarrow> True | Some t \<Rightarrow> engine_snapshot t = engine_snapshot s) (internal_moves s)"
proof
  obtain e' s' where e': "identified (stamped now e) s = (e', s')" by fastforce
  let ?s = "count_metric ''events_seen'' s'"
  have s': "en_buffer s' = en_buffer s" "en_head s' = en_head s" "en_len s' = en_len s" "en_max s' = en_max s"
    using e' by (auto simp: identified_def Let_def split: if_splits)
  have "ring_ok ?s" using reached_ring_ok [OF assms] s' by (simp add: ring_ok_def)
  from snapshot_ring_put [OF this, of e']
  have "engine_snapshot (ring_put e' ?s) = drop (Suc (en_len s) - en_max s) (engine_snapshot s @ [e'])"
    by (simp add: s' engine_snapshot_def)
  moreover have "engine_snapshot (emit_record now e s) = engine_snapshot (ring_put e' ?s)"
    by (simp add: emit_record_def e' engine_snapshot_def Let_def)
  moreover have "length (engine_snapshot s) = en_len s" by (simp add: engine_snapshot_def)
  ultimately show "engine_snapshot (emit_record now e s) =
      (let es = engine_snapshot s @ [fst (identified (stamped now e) s)] in drop (length es - en_max s) es)"
    by (simp add: e' Let_def)
  show "list_all (\<lambda>m. case m of None \<Rightarrow> True | Some t \<Rightarrow> engine_snapshot t = engine_snapshot s) (internal_moves s)"
    using ring_fields_internal [of s] internal.intros [of _ s]
    by (auto simp: list_all_iff engine_snapshot_def split: option.split)
qed

theorem snapshot_latest_witness: "engine_snapshot (emit_record 5 some_event (after_moves emitted)) = [some_event]"
proof -
  have r: "reached 1 [1] (after_moves emitted)" by (rule do_moves_reached [OF after_emitted(1) reached_new])
  have "length (engine_snapshot (after_moves emitted)) = 1" "en_max (after_moves emitted) = 1"
    "fst (identified (stamped 5 some_event) (after_moves emitted)) = some_event" by code_simp+
  then show ?thesis using snapshot_latest [OF r, of 5 some_event] by (simp add: Let_def)
qed

end
