(* ===== verification/AntiLoop.thy ===== *)
theory AntiLoop
  imports MemoryGraph GoFloat
begin

text \<open>
  \<open>internal/services/evidence.go\<close> and \<open>internal/services/anti_loop.go\<close>: hypotheses and evidence
  about a subject are nodes linked to it; the detector reads them back and warns of claims that
  repeat, contradict each other or lack evidence. Both work on the dictionary of a repository.
  \<open>now\<close> is the time a repository stamps, \<open>stamp\<close> the one the service formats, and the detector
  has the clock in nanoseconds and \<open>time.Parse\<close> as arguments.
\<close>

section \<open>Recording\<close>

definition opt_str :: "props \<Rightarrow> string \<Rightarrow> string \<Rightarrow> string" where
  "opt_str opts key fallback = (case pget opts key of VStr s \<Rightarrow> s | _ \<Rightarrow> fallback)"

definition out_of_unit :: "f64 \<Rightarrow> bool" where
  "out_of_unit c \<longleftrightarrow> f64_less c (Fin 0) \<or> f64_less (Fin 1) c"

definition subject_of :: "'r repo_ops \<Rightarrow> string \<Rightarrow> string \<Rightarrow> 'r \<Rightarrow> node option \<times> 'r" where
  "subject_of G project i r =
     (case op_get G i r of
        (Inr n, r) \<Rightarrow> (if pget (node_props n) ''project_id'' = VStr project then Some n else None, r)
      | (Inl _, r) \<Rightarrow> (None, r))"

definition hypothesis_identity :: "string \<Rightarrow> string \<Rightarrow> string \<Rightarrow> props" where
  "hypothesis_identity project subject claim =
     put_all [(''project_id'', VStr project), (''subject_id'', VStr subject), (''claim'', VStr claim)] []"

definition hypothesis_props :: "f64 \<Rightarrow> props \<Rightarrow> string \<Rightarrow> props" where
  "hypothesis_props confidence opts stamp =
     put_all [(''state'', VStr (opt_str opts ''state'' ''HYPOTHESIS'')), (''confidence'', VFlt confidence),
       (''confidence_source'', VStr (opt_str opts ''confidence_source'' ''analyst assessment'')),
       (''analyst'', VStr (opt_str opts ''analyst'' ''unknown'')), (''agent'', VStr (opt_str opts ''agent'' ''unknown'')),
       (''method'', VStr (opt_str opts ''method'' ''manual'')), (''timestamp'', VStr stamp)] []"

definition suspicion :: "f64 \<Rightarrow> props \<Rightarrow> props" where
  "suspicion confidence opts =
     put_all [(''confidence'', VFlt confidence), (''state'', VStr (opt_str opts ''state'' ''HYPOTHESIS''))] []"

definition absent_subject :: err where
  "absent_subject = ErrMsg ''subject is absent or belongs to another project''"

definition record_hypothesis :: "string \<Rightarrow> string \<Rightarrow> 'r repo_ops \<Rightarrow> string \<Rightarrow> string \<Rightarrow> string \<Rightarrow> f64 \<Rightarrow> props \<Rightarrow>
  'r \<Rightarrow> props res \<times> 'r" where
  "record_hypothesis now stamp G project subject claim confidence opts r =
     (if out_of_unit confidence then (Inl (ErrMsg ''confidence must be between 0 and 1''), r)
      else case subject_of G project subject r of
        (None, r) \<Rightarrow> (Inl absent_subject, r)
      | (Some _, r) \<Rightarrow>
          (case op_upsert G now ''Hypothesis'' (hypothesis_identity project subject claim) (hypothesis_props confidence opts stamp) r of
             (Inl e, r) \<Rightarrow> (Inl e, r)
           | (Inr h, r) \<Rightarrow>
               (case op_link G ''SUSPECTED_AS'' subject (node_id h) (Some (suspicion confidence opts)) r of
                  (_, r) \<Rightarrow> (Inr (present h), r))))"

text \<open>An integer confidence is checked but then not used: it is taken for one.\<close>

definition evidence_confidence :: "props \<Rightarrow> f64 option" where
  "evidence_confidence opts =
     (case pget opts ''confidence'' of
        VFlt c \<Rightarrow> (if out_of_unit c then None else Some c)
      | VInt i \<Rightarrow> (if i < 0 \<or> 1 < i then None else Some (Fin 1))
      | _ \<Rightarrow> Some (Fin 1))"

definition evidence_identity :: "string \<Rightarrow> string \<Rightarrow> string \<Rightarrow> props \<Rightarrow> props" where
  "evidence_identity project subject description opts =
     put_all [(''project_id'', VStr project), (''subject_id'', VStr subject), (''description'', VStr description),
       (''source'', VStr (opt_str opts ''source'' ''manual''))] []"

definition evidence_props :: "f64 \<Rightarrow> props \<Rightarrow> string \<Rightarrow> props" where
  "evidence_props confidence opts stamp =
     put_all [(''state'', VStr (opt_str opts ''kind'' ''OBSERVATION'')), (''confidence'', VFlt confidence),
       (''agent'', VStr (opt_str opts ''agent'' ''unknown'')), (''method'', VStr (opt_str opts ''method'' ''manual'')),
       (''timestamp'', VStr stamp)] []"

definition record_evidence :: "string \<Rightarrow> string \<Rightarrow> 'r repo_ops \<Rightarrow> string \<Rightarrow> string \<Rightarrow> string \<Rightarrow> props \<Rightarrow>
  'r \<Rightarrow> props res \<times> 'r" where
  "record_evidence now stamp G project subject description opts r =
     (case evidence_confidence opts of
        None \<Rightarrow> (Inl (ErrMsg ''confidence must be between 0 and 1''), r)
      | Some confidence \<Rightarrow>
          (case subject_of G project subject r of
             (None, r) \<Rightarrow> (Inl absent_subject, r)
           | (Some _, r) \<Rightarrow>
               (case op_upsert G now ''Evidence'' (evidence_identity project subject description opts)
                       (evidence_props confidence opts stamp) r of
                  (Inl e, r) \<Rightarrow> (Inl e, r)
                | (Inr n, r) \<Rightarrow>
                    (let r = snd (op_link G ''REFERENCES'' subject (node_id n) (Some [(''role'', VStr ''evidence'')]) r);
                         r = (case pget opts ''supports_hypothesis_id'' of
                                VStr h \<Rightarrow> (if h \<noteq> [] then snd (op_link G ''SUPPORTED_BY'' h (node_id n)
                                             (Some [(''confidence'', VFlt confidence)]) r) else r)
                              | _ \<Rightarrow> r)
                     in (Inr (present n), r)))))"

definition rows_along :: "'r repo_ops \<Rightarrow> string \<Rightarrow> (node \<Rightarrow> bool) \<Rightarrow> string \<Rightarrow> 'r \<Rightarrow> props list res \<times> 'r" where
  "rows_along G kind P subject r =
     (case op_neighbors G subject kind DirOut r of
        (Inl e, r) \<Rightarrow> (Inl e, r)
      | (Inr es, r) \<Rightarrow> (Inr (map present (filter P (map snd es))), r))"

definition get_hypotheses :: "'r repo_ops \<Rightarrow> string \<Rightarrow> 'r \<Rightarrow> props list res \<times> 'r" where
  "get_hypotheses G = rows_along G ''SUSPECTED_AS'' (\<lambda>_. True)"

definition get_evidence :: "'r repo_ops \<Rightarrow> string \<Rightarrow> 'r \<Rightarrow> props list res \<times> 'r" where
  "get_evidence G = rows_along G ''REFERENCES'' (\<lambda>n. node_kind n = ''Evidence'')"

section \<open>Superseding\<close>

definition replacement_identity :: "string \<Rightarrow> node \<Rightarrow> string \<Rightarrow> props" where
  "replacement_identity project old body =
     put_all [(''project_id'', VStr project), (''subject_id'', pget (node_props old) ''subject_id''),
       (''description'', VStr body)] []"

definition replacement_props :: "node \<Rightarrow> string \<Rightarrow> string \<Rightarrow> string \<Rightarrow> string \<Rightarrow> props" where
  "replacement_props old agent stamp i rationale =
     put_all [(''state'', pget (node_props old) ''state''), (''confidence'', pget (node_props old) ''confidence''),
       (''agent'', VStr agent), (''method'', VStr ''supersede''), (''timestamp'', VStr stamp),
       (''supersedes'', VStr i), (''supersede_rationale'', VStr rationale)] []"

definition supersede_evidence :: "string \<Rightarrow> string \<Rightarrow> 'r repo_ops \<Rightarrow> string \<Rightarrow> string \<Rightarrow> string \<Rightarrow> string \<Rightarrow> string \<Rightarrow>
  'r \<Rightarrow> props res \<times> 'r" where
  "supersede_evidence now stamp G project i body rationale agent r =
     (case op_get G i r of
        (Inl _, r) \<Rightarrow> (Inl (ErrMsg ''evidence record not found''), r)
      | (Inr old, r) \<Rightarrow>
          (if pget (node_props old) ''project_id'' \<noteq> VStr project
           then (Inl (ErrMsg ''evidence is absent or belongs to another project''), r)
           else if is_str (pget (node_props old) ''superseded_at'')
           then (Inl (ErrMsg ''evidence is already superseded''), r)
           else case op_upsert G now (node_kind old) [(''id'', VStr (node_id old))] [(''superseded_at'', VStr stamp)] r of
             (Inl e, r) \<Rightarrow> (Inl e, r)
           | (Inr _, r) \<Rightarrow>
               (case op_upsert G now (node_kind old) (replacement_identity project old body)
                       (replacement_props old agent stamp i rationale) r of
                  (Inl e, r) \<Rightarrow> (Inl e, r)
                | (Inr new, r) \<Rightarrow>
                    (case op_link G ''SUPERSEDED_BY'' (node_id old) (node_id new)
                            (Some (put_all [(''at'', VStr stamp), (''rationale'', VStr rationale)] [])) r of
                       (Inl e, r) \<Rightarrow> (Inl e, r)
                     | (Inr _, r) \<Rightarrow>
                         (Inr (put_all [(''old_id'', VStr (node_id old)), (''new_id'', VStr (node_id new)),
                            (''new'', VObj (present new)), (''old_superseded_at'', VStr stamp)] []), r)))))"

section \<open>The detector\<close>

record interception =
  ic_loop :: bool
  ic_risk :: bool
  ic_issues :: "string list"
  ic_recommendations :: "string list"

definition map_str :: "props \<Rightarrow> string \<Rightarrow> string" where
  "map_str m k = (case pget m k of VStr s \<Rightarrow> s | _ \<Rightarrow> [])"

definition map_flt :: "props \<Rightarrow> string \<Rightarrow> f64" where
  "map_flt m k = (case pget m k of VFlt c \<Rightarrow> c | _ \<Rightarrow> Fin 0)"

definition loop_issue :: "string \<Rightarrow> interception \<Rightarrow> interception" where
  "loop_issue s ic = ic\<lparr>ic_loop := True, ic_issues := ic_issues ic @ [s]\<rparr>"

definition risk_issue :: "string \<Rightarrow> interception \<Rightarrow> interception" where
  "risk_issue s ic = ic\<lparr>ic_risk := True, ic_issues := ic_issues ic @ [s]\<rparr>"

definition claim_key :: "props \<Rightarrow> string" where
  "claim_key h = to_lower (trim_space (map_str h ''claim''))"

text \<open>The map from claims to hypotheses is walked in some order; here, the order of first appearance.\<close>

definition detect_looping :: "props list \<Rightarrow> interception \<Rightarrow> interception" where
  "detect_looping hs =
     fold (\<lambda>(claim, g) ic. if 2 < length g
        then loop_issue (''Looping detected: same claim '' @ [CHR 0x27] @ claim @ [CHR 0x27] @ '' recorded '' @
          nat_str (length g) @ '' times for the same subject'') ic else ic)
       (group_by claim_key (filter (\<lambda>h. claim_key h \<noteq> []) hs))"

definition contradiction_markers :: "(string \<times> string) list" where
  "contradiction_markers =
     [(''is a constructor'', ''is not a constructor''), (''validates'', ''does not validate''),
      (''encrypts'', ''does not encrypt''), (''decrypts'', ''does not decrypt''),
      (''calls'', ''does not call''), (''returns'', ''does not return'')]"

definition claims_contradict :: "string \<Rightarrow> string \<Rightarrow> bool" where
  "claims_contradict a b \<longleftrightarrow> a \<noteq> [] \<and> b \<noteq> [] \<and>
     list_ex (\<lambda>(p, n). contains a p \<and> contains b n \<or> contains a n \<and> contains b p) contradiction_markers"

definition tenth :: "rat \<Rightarrow> f64" where "tenth n = round_double (n / 10)"

definition contradict_pair :: "props \<Rightarrow> props \<Rightarrow> bool" where
  "contradict_pair g h \<longleftrightarrow> claims_contradict (to_lower (map_str g ''claim'')) (to_lower (map_str h ''claim'')) \<and>
     (f64_less (tenth 7) (map_flt g ''confidence'') \<or> f64_less (tenth 7) (map_flt h ''confidence''))"

fun pairs :: "'a list \<Rightarrow> ('a \<times> 'a) list" where
  "pairs [] = []"
| "pairs (x # xs) = map (Pair x) xs @ pairs xs"

definition detect_contradictions :: "props list \<Rightarrow> interception \<Rightarrow> interception" where
  "detect_contradictions hs =
     fold (\<lambda>(g, h) ic. if contradict_pair g h
        then risk_issue (''Contradictory high-confidence hypotheses: '' @ [CHR 0x27] @ to_lower (map_str g ''claim'') @
          [CHR 0x27] @ '' vs '' @ [CHR 0x27] @ to_lower (map_str h ''claim'') @ [CHR 0x27]) ic else ic) (pairs hs)"

definition unverified :: "props \<Rightarrow> bool" where
  "unverified ev \<longleftrightarrow>
     (case pget ev ''confidence'' of VFlt c \<Rightarrow> f64_less (tenth 9) c | _ \<Rightarrow> False) \<and>
     map_str ev ''source'' = ''manual'' \<and> map_str ev ''method'' = ''manual''"

definition detect_unverified :: "props list \<Rightarrow> interception \<Rightarrow> interception" where
  "detect_unverified evs =
     fold (\<lambda>ev ic. if unverified ev
        then risk_issue (''High-confidence evidence without independent verification ('' @ map_str ev ''description'' @ '')'') ic
        else ic) evs"

definition detect_missing :: "props list \<Rightarrow> props list \<Rightarrow> interception \<Rightarrow> interception" where
  "detect_missing hs evs ic =
     (if hs \<noteq> [] \<and> evs = [] then risk_issue ''Hypotheses recorded without supporting evidence'' ic else ic)"

definition recent :: "(string \<Rightarrow> int option) \<Rightarrow> int \<Rightarrow> props \<Rightarrow> bool" where
  "recent parse clock h \<longleftrightarrow>
     map_str h ''timestamp'' \<noteq> [] \<and>
     (case parse (map_str h ''timestamp'') of None \<Rightarrow> False | Some t \<Rightarrow> clock - 30 * 10 ^ 9 < t)"

definition detect_stale :: "(string \<Rightarrow> int option) \<Rightarrow> int \<Rightarrow> props list \<Rightarrow> interception \<Rightarrow> interception" where
  "detect_stale parse clock hs ic =
     (if 5 < length (filter (recent parse clock) hs)
      then loop_issue ''More than 5 hypotheses recorded in the last 30 seconds - possible looping'' ic else ic)"

definition inspect_claims :: "(string \<Rightarrow> int option) \<Rightarrow> int \<Rightarrow> props list \<Rightarrow> props list \<Rightarrow> interception" where
  "inspect_claims parse clock hs evs =
     (let ic = \<lparr>ic_loop = False, ic_risk = False, ic_issues = [], ic_recommendations = []\<rparr>;
          ic = detect_looping hs ic;
          ic = detect_contradictions hs ic;
          ic = detect_unverified evs ic;
          ic = detect_missing hs evs ic;
          ic = detect_stale parse clock hs ic
      in if ic_issues ic \<noteq> []
         then ic\<lparr>ic_recommendations := ic_recommendations ic @
           [''Pause and verify findings against decompiled output or original binary'',
            ''Use codergag_get_evidence to review existing evidence before adding new claims'',
            ''Use codergag_get_related_code to cross-check function relationships'']\<rparr>
         else ic)"

definition check_interception :: "(string \<Rightarrow> int option) \<Rightarrow> int \<Rightarrow> 'r repo_ops \<Rightarrow> string \<Rightarrow> string \<Rightarrow> 'r \<Rightarrow> interception res \<times> 'r" where
  "check_interception parse clock G project subject r =
     (case subject_of G project subject r of
        (None, r) \<Rightarrow> (Inl absent_subject, r)
      | (Some _, r) \<Rightarrow>
          (case rows_along G ''SUSPECTED_AS'' (\<lambda>n. node_kind n = ''Hypothesis'') subject r of
             (Inl e, r) \<Rightarrow> (Inl e, r)
           | (Inr hs, r) \<Rightarrow>
               (case get_evidence G subject r of
                  (Inl e, r) \<Rightarrow> (Inl e, r)
                | (Inr evs, r) \<Rightarrow> (Inr (inspect_claims parse clock hs evs), r))))"

definition check_by_address :: "(string \<Rightarrow> int option) \<Rightarrow> int \<Rightarrow> 'r repo_ops \<Rightarrow> string \<Rightarrow> string \<Rightarrow> string \<Rightarrow> 'r \<Rightarrow>
  interception res \<times> 'r" where
  "check_by_address parse clock G project binary address r =
     (case op_find G ''BinaryFunction''
             (put_all [(''project_id'', VStr project), (''binary_id'', VStr binary), (''address'', VStr address)] []) r of
        (Inr (n # _), r) \<Rightarrow> check_interception parse clock G project (node_id n) r
      | (_, r) \<Rightarrow> (Inl (ErrMsg ''binary function is absent or belongs to another project''), r))"

fun intercepted :: "(string \<Rightarrow> int option) \<Rightarrow> int \<Rightarrow> 'r repo_ops \<Rightarrow> string \<Rightarrow> node list \<Rightarrow> 'r \<Rightarrow> props list \<times> 'r" where
  "intercepted parse clock G project [] r = ([], r)"
| "intercepted parse clock G project (h # hs) r =
     (case pget (node_props h) ''subject_id'' of
        VStr subject \<Rightarrow>
          (if subject = [] then intercepted parse clock G project hs r
           else (case check_interception parse clock G project subject r of
                   (Inr ic, r) \<Rightarrow>
                     (if ic_issues ic \<noteq> []
                      then apfst (Cons (put_all [(''subject_id'', VStr subject), (''issues'', VStrs (ic_issues ic)),
                             (''loop_detected'', VBool (ic_loop ic)), (''hallucination_risk'', VBool (ic_risk ic))] []))
                           (intercepted parse clock G project hs r)
                      else intercepted parse clock G project hs r)
                 | (Inl _, r) \<Rightarrow> intercepted parse clock G project hs r))
      | _ \<Rightarrow> intercepted parse clock G project hs r)"

definition list_intercepted :: "(string \<Rightarrow> int option) \<Rightarrow> int \<Rightarrow> 'r repo_ops \<Rightarrow> string \<Rightarrow> 'r \<Rightarrow> props list res \<times> 'r" where
  "list_intercepted parse clock G project r =
     (case op_find G ''Hypothesis'' [(''project_id'', VStr project)] r of
        (Inl e, r) \<Rightarrow> (Inl e, r)
      | (Inr hs, r) \<Rightarrow> (case intercepted parse clock G project hs r of (out, r) \<Rightarrow> (Inr out, r)))"

end
