(* ===== verification/AntiLoopProperties.thy ===== *)
theory AntiLoopProperties
  imports AntiLoop
begin

text \<open>
  What the detector reports, as a condition on the multiset of hypotheses, and what it cannot see
  of claims recorded through the evidence service in the in-memory repository.
\<close>

section \<open>What is reported\<close>

lemma fold_loop_issue:
  "fold (\<lambda>x ic. if P x then loop_issue (f x) ic else ic) xs ic =
     ic\<lparr>ic_loop := ic_loop ic \<or> list_ex P xs, ic_issues := ic_issues ic @ map f (filter P xs)\<rparr>"
  by (induction xs arbitrary: ic) (auto simp: loop_issue_def)

lemma fold_risk_issue:
  "fold (\<lambda>x ic. if P x then risk_issue (f x) ic else ic) xs ic =
     ic\<lparr>ic_risk := ic_risk ic \<or> list_ex P xs, ic_issues := ic_issues ic @ map f (filter P xs)\<rparr>"
  by (induction xs arbitrary: ic) (auto simp: risk_issue_def)

lemma contradict_pair_sym: "contradict_pair g h = contradict_pair h g"
  by (auto simp: contradict_pair_def claims_contradict_def list_ex_iff)

lemma pair_in_mset: "{#g, h#} \<subseteq># add_mset x M \<longleftrightarrow> {#g, h#} \<subseteq># M \<or> (g = x \<and> h \<in># M) \<or> (h = x \<and> g \<in># M)"
proof -
  have pair: "{#a, b#} \<subseteq># N \<longleftrightarrow> a \<in># N \<and> b \<in># N - {#a#}" for a b :: 'a and N
    by (simp add: insert_subset_eq_iff)
  show ?thesis unfolding pair by (auto simp: in_diff_count split: if_splits)
qed

lemma pairs_iff:
  assumes "\<And>g h. P g h = P h g"
  shows "(\<exists>(g, h) \<in> set (pairs xs). P g h) \<longleftrightarrow> (\<exists>g h. {#g, h#} \<subseteq># mset xs \<and> P g h)"
proof (induction xs)
  case (Cons x xs)
  have "(\<exists>(g, h) \<in> set (pairs (x # xs)). P g h) \<longleftrightarrow> (\<exists>h \<in> set xs. P x h) \<or> (\<exists>(g, h) \<in> set (pairs xs). P g h)"
    by auto
  also have "\<dots> \<longleftrightarrow> (\<exists>g h. {#g, h#} \<subseteq># mset (x # xs) \<and> P g h)"
    using assms unfolding Cons.IH mset.simps pair_in_mset by (metis set_mset_mset)
  finally show ?case .
qed simp

lemma loops_iff:
  "list_ex (\<lambda>(claim, g). 2 < length g) (group_by claim_key (filter (\<lambda>h. claim_key h \<noteq> []) hs)) \<longleftrightarrow>
   (\<exists>c. c \<noteq> [] \<and> 2 < size {#h \<in># mset hs. claim_key h = c#})"
proof -
  let ?hs = "filter (\<lambda>h. claim_key h \<noteq> []) hs"
  have eq: "filter (\<lambda>h. claim_key h = c) ?hs = filter (\<lambda>h. claim_key h = c) hs" if "c \<noteq> []" for c
    using that by (auto intro: filter_cong)
  have size: "size {#h \<in># mset hs. claim_key h = c#} = length (filter (\<lambda>h. claim_key h = c) hs)" for c
    by (simp flip: mset_filter)
  have "list_ex (\<lambda>(claim, g). 2 < length g) (group_by claim_key ?hs) \<longleftrightarrow>
      (\<exists>c \<in> claim_key ` set ?hs. 2 < length (filter (\<lambda>h. claim_key h = c) ?hs))"
  proof -
    have "set (group_by claim_key ?hs) = (\<lambda>k. (k, filter (\<lambda>h. claim_key h = k) ?hs)) ` claim_key ` set ?hs"
      using in_group_by [of _ _ claim_key ?hs] by auto
    then show ?thesis by (simp add: list_ex_iff)
  qed
  also have "\<dots> \<longleftrightarrow> (\<exists>c. c \<noteq> [] \<and> 2 < length (filter (\<lambda>h. claim_key h = c) hs))"
  proof
    assume "\<exists>c. c \<noteq> [] \<and> 2 < length (filter (\<lambda>h. claim_key h = c) hs)"
    then obtain c where c: "c \<noteq> []" "2 < length (filter (\<lambda>h. claim_key h = c) ?hs)" using eq by metis
    then have "filter (\<lambda>h. claim_key h = c) ?hs \<noteq> []" by (metis list.size(3) not_less_zero)
    from hd_in_set [OF this] obtain h where "h \<in> set (filter (\<lambda>h. claim_key h = c) ?hs)" by blast
    with c show "\<exists>c \<in> claim_key ` set ?hs. 2 < length (filter (\<lambda>h. claim_key h = c) ?hs)" by auto
  qed (use eq in auto)
  finally show ?thesis by (simp only: size)
qed

lemma filter_none: "filter P xs = [] \<longleftrightarrow> \<not> list_ex P xs"
  by (auto simp: filter_empty_conv list_ex_iff)

text \<open>Each check sets its flag and adds messages exactly when its condition holds.\<close>

definition looping :: "props list \<Rightarrow> bool" where
  "looping hs \<longleftrightarrow> list_ex (\<lambda>p. 2 < length (snd p)) (group_by claim_key (filter (\<lambda>h. claim_key h \<noteq> []) hs))"

definition contradicting :: "props list \<Rightarrow> bool" where
  "contradicting hs \<longleftrightarrow> list_ex (\<lambda>p. contradict_pair (fst p) (snd p)) (pairs hs)"

definition raises_loop :: "bool \<Rightarrow> (interception \<Rightarrow> interception) \<Rightarrow> bool" where
  "raises_loop b f \<longleftrightarrow> (\<exists>ms. (ms = [] \<longleftrightarrow> \<not> b) \<and>
     (\<forall>ic. f ic = ic\<lparr>ic_loop := ic_loop ic \<or> b, ic_issues := ic_issues ic @ ms\<rparr>))"

definition raises_risk :: "bool \<Rightarrow> (interception \<Rightarrow> interception) \<Rightarrow> bool" where
  "raises_risk b f \<longleftrightarrow> (\<exists>ms. (ms = [] \<longleftrightarrow> \<not> b) \<and>
     (\<forall>ic. f ic = ic\<lparr>ic_risk := ic_risk ic \<or> b, ic_issues := ic_issues ic @ ms\<rparr>))"

lemma raises_loopE:
  assumes "raises_loop b f"
  obtains ms where "ms = [] \<longleftrightarrow> \<not> b" "\<And>ic. f ic = ic\<lparr>ic_loop := ic_loop ic \<or> b, ic_issues := ic_issues ic @ ms\<rparr>"
  using assms unfolding raises_loop_def by (elim exE conjE) (rule that, assumption, erule spec)

lemma raises_riskE:
  assumes "raises_risk b f"
  obtains ms where "ms = [] \<longleftrightarrow> \<not> b" "\<And>ic. f ic = ic\<lparr>ic_risk := ic_risk ic \<or> b, ic_issues := ic_issues ic @ ms\<rparr>"
  using assms unfolding raises_risk_def by (elim exE conjE) (rule that, assumption, erule spec)

lemma raises_folds:
  "raises_loop (list_ex P xs) (fold (\<lambda>x ic. if P x then loop_issue (f x) ic else ic) xs)"
  "raises_risk (list_ex P xs) (fold (\<lambda>x ic. if P x then risk_issue (f x) ic else ic) xs)"
  unfolding raises_loop_def raises_risk_def
  by (intro exI [of _ "map f (filter P xs)"]; simp add: fold_loop_issue fold_risk_issue filter_none)+

lemma raises_checks:
  "raises_loop (looping hs) (detect_looping hs)" (is ?looping)
  "raises_risk (contradicting hs) (detect_contradictions hs)" (is ?contra)
  "raises_risk (list_ex unverified evs) (detect_unverified evs)" (is ?unver)
  "raises_risk (hs \<noteq> [] \<and> evs = []) (detect_missing hs evs)" (is ?missing)
  "raises_loop (5 < length (filter (recent parse clock) hs)) (detect_stale parse clock hs)" (is ?stale)
proof -
  show ?looping unfolding detect_looping_def looping_def split_beta by (rule raises_folds)
  show ?contra unfolding detect_contradictions_def contradicting_def split_beta by (rule raises_folds)
  show ?unver unfolding detect_unverified_def by (rule raises_folds)
  show ?missing unfolding raises_risk_def
    by (cases "hs \<noteq> [] \<and> evs = []") (auto simp: detect_missing_def risk_issue_def intro: exI [of _ "[]"])
  show ?stale unfolding raises_loop_def
    by (cases "5 < length (filter (recent parse clock) hs)") (auto simp: detect_stale_def loop_issue_def intro: exI [of _ "[]"])
qed

lemma inspected:
  "ic_loop (inspect_claims parse clock hs evs) \<longleftrightarrow> looping hs \<or> 5 < length (filter (recent parse clock) hs)"
  "ic_risk (inspect_claims parse clock hs evs) \<longleftrightarrow> contradicting hs \<or> list_ex unverified evs \<or> hs \<noteq> [] \<and> evs = []"
  "ic_issues (inspect_claims parse clock hs evs) = [] \<longleftrightarrow>
     \<not> ic_loop (inspect_claims parse clock hs evs) \<and> \<not> ic_risk (inspect_claims parse clock hs evs)"
  "ic_recommendations (inspect_claims parse clock hs evs) = [] \<longleftrightarrow> ic_issues (inspect_claims parse clock hs evs) = []"
proof -
  obtain m1 where m1: "m1 = [] \<longleftrightarrow> \<not> looping hs"
      "detect_looping hs ic = ic\<lparr>ic_loop := ic_loop ic \<or> looping hs, ic_issues := ic_issues ic @ m1\<rparr>" for ic
    by (rule raises_loopE [OF raises_checks(1) [of hs]]) (rule that; simp)
  obtain m2 where m2: "m2 = [] \<longleftrightarrow> \<not> contradicting hs"
      "detect_contradictions hs ic = ic\<lparr>ic_risk := ic_risk ic \<or> contradicting hs, ic_issues := ic_issues ic @ m2\<rparr>" for ic
    by (rule raises_riskE [OF raises_checks(2) [of hs]]) (rule that; simp)
  obtain m3 where m3: "m3 = [] \<longleftrightarrow> \<not> list_ex unverified evs"
      "detect_unverified evs ic = ic\<lparr>ic_risk := ic_risk ic \<or> list_ex unverified evs, ic_issues := ic_issues ic @ m3\<rparr>" for ic
    by (rule raises_riskE [OF raises_checks(3) [of evs]]) (rule that; simp)
  obtain m4 where m4: "m4 = [] \<longleftrightarrow> \<not> (hs \<noteq> [] \<and> evs = [])"
      "detect_missing hs evs ic = ic\<lparr>ic_risk := ic_risk ic \<or> hs \<noteq> [] \<and> evs = [], ic_issues := ic_issues ic @ m4\<rparr>" for ic
    by (rule raises_riskE [OF raises_checks(4) [of hs evs]]) (rule that; simp)
  obtain m5 where m5: "m5 = [] \<longleftrightarrow> \<not> 5 < length (filter (recent parse clock) hs)"
      "detect_stale parse clock hs ic =
        ic\<lparr>ic_loop := ic_loop ic \<or> 5 < length (filter (recent parse clock) hs), ic_issues := ic_issues ic @ m5\<rparr>" for ic
    by (rule raises_loopE [OF raises_checks(5) [of parse clock hs]]) (rule that; simp)
  note eq = inspect_claims_def Let_def m1(2) m2(2) m3(2) m4(2) m5(2)
  show "ic_loop (inspect_claims parse clock hs evs) \<longleftrightarrow> looping hs \<or> 5 < length (filter (recent parse clock) hs)"
    "ic_risk (inspect_claims parse clock hs evs) \<longleftrightarrow> contradicting hs \<or> list_ex unverified evs \<or> hs \<noteq> [] \<and> evs = []"
    unfolding eq by simp_all
  show "ic_issues (inspect_claims parse clock hs evs) = [] \<longleftrightarrow>
     \<not> ic_loop (inspect_claims parse clock hs evs) \<and> \<not> ic_risk (inspect_claims parse clock hs evs)"
    unfolding eq using m1(1) m2(1) m3(1) m4(1) m5(1) by auto
  show "ic_recommendations (inspect_claims parse clock hs evs) = [] \<longleftrightarrow> ic_issues (inspect_claims parse clock hs evs) = []"
    unfolding eq by simp
qed

text \<open>
  Claim C39. What a check reports depends on the hypotheses only as a multiset: a loop exactly when a
  claim, up to case and surrounding space, is held more than twice or more than five hypotheses are
  recent; a risk exactly when two hypotheses contradict each other and one is held with more than 0.7,
  or manual evidence has more than 0.9, or there are hypotheses and no evidence. There are issues exactly
  when there is a loop or a risk, and recommendations exactly when there are issues.
\<close>

theorem interception_flags:
  "let ic = inspect_claims parse clock hs evs
   in (ic_loop ic \<longleftrightarrow> (\<exists>c. c \<noteq> [] \<and> 2 < size {#h \<in># mset hs. claim_key h = c#}) \<or>
         5 < size {#h \<in># mset hs. recent parse clock h#}) \<and>
      (ic_risk ic \<longleftrightarrow> (\<exists>g h. {#g, h#} \<subseteq># mset hs \<and> contradict_pair g h) \<or> list_ex unverified evs \<or> hs \<noteq> [] \<and> evs = []) \<and>
      (ic_issues ic = [] \<longleftrightarrow> \<not> ic_loop ic \<and> \<not> ic_risk ic) \<and> (ic_recommendations ic = [] \<longleftrightarrow> ic_issues ic = [])"
proof -
  have "looping hs \<longleftrightarrow> (\<exists>c. c \<noteq> [] \<and> 2 < size {#h \<in># mset hs. claim_key h = c#})"
    using loops_iff [of hs] unfolding looping_def split_beta .
  then have loop: "ic_loop (inspect_claims parse clock hs evs) \<longleftrightarrow>
      (\<exists>c. c \<noteq> [] \<and> 2 < size {#h \<in># mset hs. claim_key h = c#}) \<or> 5 < size {#h \<in># mset hs. recent parse clock h#}"
    unfolding inspected(1) by (simp flip: mset_filter)
  have "contradicting hs \<longleftrightarrow> (\<exists>g h. {#g, h#} \<subseteq># mset hs \<and> contradict_pair g h)"
    using pairs_iff [OF contradict_pair_sym, of hs] by (simp add: contradicting_def list_ex_iff split_beta)
  then have risk: "ic_risk (inspect_claims parse clock hs evs) \<longleftrightarrow>
      (\<exists>g h. {#g, h#} \<subseteq># mset hs \<and> contradict_pair g h) \<or> list_ex unverified evs \<or> hs \<noteq> [] \<and> evs = []"
    unfolding inspected(2) by (simp only:)
  show ?thesis unfolding Let_def by (intro conjI loop risk inspected(3,4))
qed

end
