(* ===== verification/LoopRecords.thy ===== *)
theory LoopRecords
  imports AntiLoopProperties
begin

text \<open>
  What the detector sees of a claim that was recorded again and again through \<open>RecordHypothesis\<close>
  into the in-memory repository.
\<close>

definition suspects :: "string \<Rightarrow> mem_repo \<Rightarrow> edge list" where
  "suspects subject r = filter (\<lambda>e. edge_kind e = ''SUSPECTED_AS'' \<and> edge_from e = subject) (map snd (edges r))"

lemma upsert_edges [simp]: "edges (snd (upsert_node now kind identity properties r)) = edges r"
  by (auto simp: upsert_node_def upsert_locked_def bump_def next_id_def Let_def
      split: sum.split list.split val.split prod.split)

lemma upsert_plain_returns:
  assumes "kind_ok kind" "plain_args identity properties"
  obtains n r' where "upsert_node now kind identity properties r = (Inr n, r')"
proof -
  let ?up = "upsert_locked now kind identity properties (bump r)"
  have up: "upsert_node now kind identity properties r = ?up"
    using assms(1) by (simp add: upsert_node_def)
  show ?thesis
  proof (cases "find_nodes_locked kind identity (bump r)")
    case Nil
    have "\<not> has_key (put_all properties (put_all identity [])) ''id''"
      using assms(2) by (intro no_id_in_merge) (auto simp: plain_args_def plain_props_def)
    then have "\<exists>fresh. pget (fill_props now fresh identity (put_all properties (put_all identity []))) ''id'' = VStr fresh \<and>
        fresh = fst (next_id (bump r))" by (simp add: pget_fill_props)
    with Nil \<open>\<not> has_key _ _\<close> show ?thesis
      using that up by (auto simp: upsert_locked_def Let_def pget_fill_props split: prod.splits)
  next
    case (Cons old ns)
    from upsert_locked_old [OF this] up that show ?thesis by auto
  qed
qed

lemma claim_args:
  "plain_args (hypothesis_identity project subject claim) (hypothesis_props c opts stamp)"
  "c \<noteq> NaN \<Longrightarrow> nan_freem (suspicion c opts)"
  by (simp_all add: plain_args_def plain_props_def hypothesis_identity_def hypothesis_props_def suspicion_def
      has_key_def put_all_def)


lemma find_locked_nodes: "nodes r = nodes r' \<Longrightarrow> find_nodes_locked kind filters r = find_nodes_locked kind filters r'"
  by (simp add: find_nodes_locked_def)

text \<open>
  The subject stays in its project, and once the claim was recorded one edge leads to the node an
  upsert of the claim would touch.
\<close>

definition recorded :: "string \<Rightarrow> string \<Rightarrow> string \<Rightarrow> props \<Rightarrow> mem_repo \<Rightarrow> bool" where
  "recorded project subject claim m r \<longleftrightarrow> mem_ok r \<and>
     (\<exists>s. map_of (nodes r) subject = Some s \<and> pget (node_props s) ''project_id'' = VStr project) \<and>
     (suspects subject r = [] \<or>
      (\<exists>h ns e. find_nodes_locked ''Hypothesis'' (hypothesis_identity project subject claim) r = h # ns \<and>
         suspects subject r = [e] \<and> same_edge ''SUSPECTED_AS'' subject (node_id h) (Some m) e))"

lemma recorded_link:
  assumes r1: "mem_ok r1" "map_of (nodes r1) subject = Some s" "pget (node_props s) ''project_id'' = VStr project"
    and found: "find_nodes_locked ''Hypothesis'' (hypothesis_identity project subject claim) r1 = h # ns"
    and edges: "suspects subject r1 = [] \<or>
      (\<exists>e. suspects subject r1 = [e] \<and> same_edge ''SUSPECTED_AS'' subject (node_id h) (Some m) e)"
    and nan: "nan_freem m"
  shows "recorded project subject claim m (snd (link ''SUSPECTED_AS'' subject (node_id h) (Some m) r1))"
proof -
  let ?r2 = "snd (link ''SUSPECTED_AS'' subject (node_id h) (Some m) r1)"
  have "kind_ok ''SUSPECTED_AS''" by code_simp
  obtain e r2 where l: "link ''SUSPECTED_AS'' subject (node_id h) (Some m) r1 = (Inr e, r2)"
    using link_ok_cases [OF r1(1) \<open>kind_ok _\<close>] by (metis surj_pair)
  from link_finds_equal [OF r1(1) \<open>kind_ok _\<close> l nan] obtain i e0 where
    e0: "map_of (edges r2) i = Some e0" "same_edge ''SUSPECTED_AS'' subject (node_id h) (Some m) e0" by blast
  then have "e0 \<in> set (suspects subject r2)"
    by (auto simp: suspects_def same_edge_def dest!: map_of_SomeD intro: image_eqI [of _ _ "(i, e0)"])
  moreover have "length (suspects subject r2) \<le> 1"
  proof -
    consider "edges r2 = edges r1" | j where "find (same_edge ''SUSPECTED_AS'' subject (node_id h) (Some m)) (map snd (edges r1)) = None"
        "edges r2 = edges r1 @ [(j, new_edge j ''SUSPECTED_AS'' subject (node_id h) (Some m))]"
      using link_appends [OF r1(1), of "''SUSPECTED_AS''" subject "node_id h" "Some m"] l by auto
    then show ?thesis
    proof cases
      case 1
      then have "suspects subject r2 = suspects subject r1" by (simp add: suspects_def)
      then show ?thesis using edges by auto
    next
      case (2 j)
      have "suspects subject r1 = []"
      proof (rule ccontr)
        assume "suspects subject r1 \<noteq> []"
        with edges obtain e where "e \<in> set (suspects subject r1)"
          "same_edge ''SUSPECTED_AS'' subject (node_id h) (Some m) e" by auto
        then show False using 2(1) by (auto simp: suspects_def find_None_iff)
      qed
      moreover have "length (suspects subject r2) \<le> Suc (length (suspects subject r1))"
        using 2(2) by (simp add: suspects_def)
      ultimately show ?thesis by simp
    qed
  qed
  ultimately have "suspects subject r2 = [e0]" by (cases "suspects subject r2") auto
  moreover have "nodes r2 = nodes r1" "mem_ok r2"
    using nodes_link [of "''SUSPECTED_AS''" subject "node_id h" "Some m" r1]
      mem_ok_link [OF r1(1), of "''SUSPECTED_AS''" subject "node_id h" "Some m"] l by simp_all
  ultimately show ?thesis
    using r1 e0(2) found l find_locked_nodes [OF \<open>nodes r2 = nodes r1\<close>] by (auto simp: recorded_def)
qed

lemma recorded_again:
  assumes rec: "recorded project subject claim (suspicion c opts) r" and nan: "c \<noteq> NaN"
  shows "recorded project subject claim (suspicion c opts)
    (snd (record_hypothesis now stamp mem_ops project subject claim c opts r))"
proof (cases "out_of_unit c")
  case False
  let ?ident = "hypothesis_identity project subject claim" and ?m = "suspicion c opts"
  have ok: "mem_ok r" using rec by (simp add: recorded_def)
  from rec obtain s where s: "map_of (nodes r) subject = Some s" "pget (node_props s) ''project_id'' = VStr project"
    by (auto simp: recorded_def)
  have "kind_ok ''Hypothesis''" by code_simp
  note args = claim_args(1) [of project subject claim c opts stamp]
  obtain h r1 where up: "upsert_node now ''Hypothesis'' ?ident (hypothesis_props c opts stamp) r = (Inr h, r1)"
    by (rule upsert_plain_returns [OF \<open>kind_ok _\<close> args])
  then have up': "op_upsert mem_ops now ''Hypothesis'' ?ident (hypothesis_props c opts stamp) r = (Inr h, r1)"
    by (simp add: mem_ops_def)
  note contract = mem_upsert_contract [OF ok up plain_argsD(1-4) [OF args]]
  note ok1 = mem.upsert_ok [OF ok up' plain_argsD(1-4) [OF args]]
  have edges: "edges r1 = edges r" using upsert_edges [of now "''Hypothesis''" ?ident] up by (metis snd_conv)
  have "op_find mem_ops ''Hypothesis'' ?ident r1 = (Inr (find_nodes_locked ''Hypothesis'' ?ident r1), r1)"
    by (simp add: mem_ops_def find_nodes_def)
  from mem.find_after_upsert [OF ok up' this args] obtain ns where
    found: "find_nodes_locked ''Hypothesis'' ?ident r1 = h # ns"
    by (cases "find_nodes_locked ''Hypothesis'' ?ident r1") auto
  have kept: "\<exists>s. map_of (nodes r1) subject = Some s \<and> pget (node_props s) ''project_id'' = VStr project"
  proof (cases "node_id h = subject")
    case True
    have "pget (node_props h) ''project_id'' = VStr project"
      using contract by (auto simp: hypothesis_identity_def hypothesis_props_def stamp_keys_def pget_def)
    with True contract show ?thesis by auto
  qed (use s contract in auto)
  have "suspects subject r1 = [] \<or>
      (\<exists>e. suspects subject r1 = [e] \<and> same_edge ''SUSPECTED_AS'' subject (node_id h) (Some ?m) e)"
  proof -
    have same: "suspects subject r1 = suspects subject r" by (simp add: suspects_def edges)
    have "node_id h = node_id old" if "find_nodes_locked ''Hypothesis'' ?ident r = old # ns" for old ns
      using upsert_node_okD [OF up] upsert_locked_old [of "''Hypothesis''" ?ident "bump r" old ns] that by auto
    with rec show ?thesis unfolding same recorded_def by metis
  qed
  moreover obtain s1 where "map_of (nodes r1) subject = Some s1" "pget (node_props s1) ''project_id'' = VStr project"
    using kept by blast
  ultimately have "recorded project subject claim ?m (snd (link ''SUSPECTED_AS'' subject (node_id h) (Some ?m) r1))"
    using recorded_link [OF _ _ _ found] ok1 claim_args(2) [OF nan] by blast
  moreover have "snd (record_hypothesis now stamp mem_ops project subject claim c opts r) =
      snd (link ''SUSPECTED_AS'' subject (node_id h) (Some ?m) r1)"
    using False s up by (simp add: record_hypothesis_def subject_of_def mem_ops_def get_node_def split: prod.split)
  ultimately show ?thesis by simp
qed (use rec in \<open>simp add: record_hypothesis_def\<close>)


lemma recorded_often:
  "recorded project subject claim (suspicion c opts) r \<Longrightarrow> c \<noteq> NaN \<Longrightarrow>
   recorded project subject claim (suspicion c opts)
     (fold (\<lambda>(now, stamp) r. snd (record_hypothesis now stamp mem_ops project subject claim c opts r)) stamps r)"
  by (induction stamps arbitrary: r) (auto intro: recorded_again)

lemma neighbors_suspects:
  assumes "neighbors subject ''SUSPECTED_AS'' DirOut r = Inr es"
  shows "length es \<le> length (suspects subject r)"
proof -
  have "length (concat (map (\<lambda>(_, e). if ''SUSPECTED_AS'' \<noteq> [] \<and> edge_kind e \<noteq> ''SUSPECTED_AS'' then []
            else edge_neighbors ns subject DirOut e) es)) \<le>
      length (filter (\<lambda>e. edge_kind e = ''SUSPECTED_AS'' \<and> edge_from e = subject) (map snd es))" for ns :: "node store" and es :: "edge store"
    by (induction es) (auto simp: edge_neighbors_def far_ends_def split: option.split)
  with assms show ?thesis by (auto simp: neighbors_def suspects_def)
qed

lemma few_claims_no_loop:
  assumes "length hs \<le> 1"
  shows "\<not> ic_loop (inspect_claims parse clock hs evs)"
proof -
  have "length (filter P hs) \<le> 1" for P using assms length_filter_le [of P hs] by linarith
  from this [of "recent parse clock"] this [of "\<lambda>h. claim_key h = c" for c]
  have "\<not> 5 < length (filter (recent parse clock) hs)" "\<not> 2 < size {#h \<in># mset hs. claim_key h = c#}" for c
    by (simp_all flip: mset_filter add: not_less le_trans [where j = "Suc 0"])
  then show ?thesis using loops_iff [of hs] unfolding inspected(1) looping_def split_beta by blast
qed

text \<open>
  Claim C38. When a claim is recorded for a subject that had none, any number of times with the same
  confidence and state, the check of the subject succeeds and reports no loop: each record after the
  first updates the one node and finds its edge there already.
\<close>

theorem repeated_claim_undetected:
  assumes "mem_ok r" "map_of (nodes r) subject = Some s" "pget (node_props s) ''project_id'' = VStr project"
    and "suspects subject r = []" "c \<noteq> NaN"
  shows "case check_interception parse clock mem_ops project subject
      (fold (\<lambda>(now, stamp) r. snd (record_hypothesis now stamp mem_ops project subject claim c opts r)) stamps r) of
      (Inl _, _) \<Rightarrow> False | (Inr ic, _) \<Rightarrow> \<not> ic_loop ic"
proof -
  let ?r = "fold (\<lambda>(now, stamp) r. snd (record_hypothesis now stamp mem_ops project subject claim c opts r)) stamps r"
  have "recorded project subject claim (suspicion c opts) r" using assms by (simp add: recorded_def)
  from recorded_often [OF this assms(5)] have rec: "recorded project subject claim (suspicion c opts) ?r" .
  then obtain s' where s': "map_of (nodes ?r) subject = Some s'" "pget (node_props s') ''project_id'' = VStr project"
    by (auto simp: recorded_def)
  have "length (suspects subject ?r) \<le> 1" using rec by (auto simp: recorded_def)
  moreover obtain es es' where es: "neighbors subject ''SUSPECTED_AS'' DirOut ?r = Inr es"
      "neighbors subject ''REFERENCES'' DirOut ?r = Inr es'" by (simp add: neighbors_def)
  ultimately have "length (map snd es) \<le> 1" using neighbors_suspects [OF es(1)] by simp
  then have "length (map present (filter (\<lambda>n. node_kind n = ''Hypothesis'') (map snd es))) \<le> 1"
    unfolding length_map [of present] by (rule le_trans [OF length_filter_le])
  from few_claims_no_loop [OF this] s' es show ?thesis
    by (simp add: check_interception_def subject_of_def get_evidence_def rows_along_def mem_ops_def get_node_def)
qed

text \<open>A revised confidence, on the other hand, adds an edge to the same node, and three of them are a loop.\<close>

lemma repeated_claim_undetected_witness:
  "let repo = snd (upsert_node ''t'' ''Function'' [(''project_id'', VStr ''p'')] [] (new_memory_repo demo_ids));
       tell = (\<lambda>c r. snd (record_hypothesis ''t'' ''t'' mem_ops ''p'' ''id0'' ''sorts'' (Fin c) [] r));
       check = (\<lambda>r. map_sum id ic_loop (fst (check_interception (\<lambda>_. None) 0 mem_ops ''p'' ''id0'' r)))
   in check (tell 1 (tell 1 (tell 1 (tell 1 repo)))) = Inr False \<and>
      check (tell (1/4) (tell (1/2) (tell 1 repo))) = Inr True"
proof -
  let ?repo = "snd (upsert_node ''t'' ''Function'' [(''project_id'', VStr ''p'')] [] (new_memory_repo demo_ids))"
  let ?tell = "\<lambda>c r. snd (record_hypothesis ''t'' ''t'' mem_ops ''p'' ''id0'' ''sorts'' (Fin c) [] r)"
  let ?check = "\<lambda>r. map_sum id ic_loop (fst (check_interception (\<lambda>_. None) 0 mem_ops ''p'' ''id0'' r))"
  have ok: "mem_ok ?repo"
    by (intro mem_ok_upsert_node mem_ok_new inj_demo_ids no_id_brings_no_future_id) (simp_all add: has_key_def)
  have s: "map_option (\<lambda>s. pget (node_props s) ''project_id'') (map_of (nodes ?repo) ''id0'') = Some (VStr ''p'')"
    "suspects ''id0'' ?repo = []"
    by code_simp+
  then obtain s where "map_of (nodes ?repo) ''id0'' = Some s" "pget (node_props s) ''project_id'' = VStr ''p''" by auto
  from repeated_claim_undetected [OF ok this s(2), of "Fin 1" "\<lambda>_. None" 0 "''sorts''" "[]" "replicate 4 (''t'', ''t'')"]
  have "?check (?tell 1 (?tell 1 (?tell 1 (?tell 1 ?repo)))) = Inr False"
    by (auto simp: numeral_eq_Suc split: sum.splits prod.splits)
  moreover have "?check (?tell (1/4) (?tell (1/2) (?tell 1 ?repo))) = Inr True" by code_simp
  ultimately show ?thesis by (simp only: Let_def simp_thms)
qed

end
