(* ===== verification/EditDistance.thy ===== *)
theory EditDistance
  imports Prelude
begin

text \<open>
  \<open>editDistance\<close> of \<open>internal/services/docs_check.go\<close>, which ranks suggestions for unknown names:
  two rows of the table of distances between prefixes. It computes the least number of
  single-character insertions, deletions and replacements that lead from one text to the other.
\<close>

section \<open>The code\<close>

text \<open>
  One row from the previous one: \<open>next_cells c b prev left\<close> are the cells still to fill, for the
  rest \<open>b\<close> of the second text, the part of the previous row from the cell up and left on, and the
  cell to the left.
\<close>

fun next_cells :: "char \<Rightarrow> string \<Rightarrow> nat list \<Rightarrow> nat \<Rightarrow> nat list" where
  "next_cells c (d # b) (diag # up # prev) left =
     (let cost = (if c = d then 0 else 1);
          cell = min (min (up + 1) (left + 1)) (diag + cost)
      in cell # next_cells c b (up # prev) cell)"
| "next_cells c _ _ left = []"

definition next_row :: "string \<Rightarrow> nat \<times> char \<Rightarrow> nat list \<Rightarrow> nat list" where
  "next_row b = (\<lambda>(i, c) prev. i # next_cells c b prev i)"

definition edit_distance :: "string \<Rightarrow> string \<Rightarrow> nat" where
  "edit_distance a b = fold (next_row b) (enumerate 1 a) [0..<length b + 1] ! length b"

section \<open>The recursive distance\<close>

fun lev :: "'a list \<Rightarrow> 'a list \<Rightarrow> nat" where
  "lev [] b = length b"
| "lev a [] = length a"
| "lev (c # a) (d # b) =
     min (min (lev a (d # b) + 1) (lev (c # a) b + 1)) (lev a b + (if c = d then 0 else 1))"

lemma lev_Nil2 [simp]: "lev a [] = length a"
  by (cases a) simp_all

text \<open>Row \<open>i\<close> of the table holds the distances of the first \<open>i\<close> characters to each prefix.\<close>

definition row_of :: "string \<Rightarrow> string \<Rightarrow> nat list" where
  "row_of p b = map (\<lambda>j. lev (rev p) (rev (take j b))) [0..<length b + 1]"

lemma upt_shift: "[0..<n + 1] = 0 # [1..<n + 1]" "[1..<Suc n + 1] = map Suc [0..<n + 1]"
  by (simp add: upt_conv_Cons, simp add: map_Suc_upt)

lemma next_cells_lev:
  "next_cells c b (map (\<lambda>j. lev u (rev (take j b) @ w)) [0..<length b + 1]) (lev (c # u) w) =
   map (\<lambda>j. lev (c # u) (rev (take j b) @ w)) [1..<length b + 1]"
proof (induction b arbitrary: w)
  case (Cons d b)
  define row where "row v = map (\<lambda>j. lev v (rev (take j b) @ d # w)) [0..<length b + 1]" for v
  define rest where "rest v = map (\<lambda>j. lev v (rev (take j b) @ d # w)) [1..<length b + 1]" for v
  have row: "row v = lev v (d # w) # rest v" for v
    unfolding row_def rest_def upt_shift(1) [of "length b"] by simp
  have shift: "map (\<lambda>j. lev v (rev (take j (d # b)) @ w)) [1..<length (d # b) + 1] = row v" for v
    unfolding row_def by (simp only: list.size upt_shift(2) add_Suc_right add_0_right) (simp add: comp_def)
  have "map (\<lambda>j. lev u (rev (take j (d # b)) @ w)) [0..<length (d # b) + 1] = lev u w # row u"
    unfolding shift [symmetric] upt_shift(1) [of "length (d # b)"] by simp
  moreover have "next_cells c (d # b) (lev u w # row u) (lev (c # u) w) =
      lev (c # u) (d # w) # next_cells c b (row u) (lev (c # u) (d # w))"
    by (simp add: row Let_def min.commute)
  moreover have "next_cells c b (row u) (lev (c # u) (d # w)) = rest (c # u)"
    unfolding row_def rest_def by (rule Cons.IH)
  ultimately show ?case unfolding shift by (simp only: row)
qed simp

lemma next_row_of: "next_row b (Suc (length p), c) (row_of p b) = row_of (p @ [c]) b"
  using next_cells_lev [of c b "rev p" "[]"] unfolding row_of_def next_row_def
  by (subst (2) upt_shift(1)) simp

lemma rows_of: "fold (next_row b) (enumerate (Suc (length p)) a) (row_of p b) = row_of (p @ a) b"
proof (induction a arbitrary: p)
  case (Cons c a)
  then show ?case using Cons.IH [of "p @ [c]"] by (simp add: next_row_of)
qed simp

lemma edit_distance_lev: "edit_distance a b = lev (rev a) (rev b)"
proof -
  have "row_of [] b = [0..<length b + 1]"
    by (rule nth_equalityI) (auto simp: row_of_def simp del: upt_Suc)
  then show ?thesis
    using rows_of [of b "[]" a] by (simp add: edit_distance_def row_of_def nth_append del: upt_Suc)
qed

section \<open>The least number of edits\<close>

definition one_edit :: "'a list \<Rightarrow> 'a list \<Rightarrow> bool" where
  "one_edit u v \<longleftrightarrow> (\<exists>p s c d. (u = p @ s \<and> v = p @ d # s) \<or> (u = p @ c # s \<and> v = p @ s) \<or>
     (u = p @ c # s \<and> v = p @ d # s))"

lemma one_edit_cases [consumes 1, case_names ins del rep]:
  assumes "one_edit u v"
  obtains (ins) p d s where "u = p @ s" "v = p @ d # s" | (del) p c s where "u = p @ c # s" "v = p @ s"
  | (rep) p c d s where "u = p @ c # s" "v = p @ d # s"
  using assms unfolding one_edit_def by blast

lemma one_edit_Cons: "one_edit u v \<Longrightarrow> one_edit (c # u) (c # v)"
  unfolding one_edit_def by (metis append_Cons)

lemma edits_Cons: "(one_edit ^^ n) u v \<Longrightarrow> (one_edit ^^ n) (c # u) (c # v)"
  by (induction n arbitrary: v) (auto intro: one_edit_Cons)

lemma one_edit_head: "one_edit s (d # s)" "one_edit (c # s) s" "one_edit (c # s) (d # s)"
  unfolding one_edit_def by (metis append_Nil)+

lemma one_edit_middle:
  assumes "one_edit s t"
  shows "one_edit (p @ s @ q) (p @ t @ q)"
  using assms
proof (cases rule: one_edit_cases)
  case (ins p' d s')
  then show ?thesis unfolding one_edit_def by (intro exI [of _ "p @ p'"] exI [of _ "s' @ q"] exI [of _ d]) simp
next
  case (del p' c s')
  then show ?thesis unfolding one_edit_def by (intro exI [of _ "p @ p'"] exI [of _ "s' @ q"] exI [of _ c]) simp
next
  case (rep p' c d s')
  then show ?thesis
    unfolding one_edit_def by (intro exI [of _ "p @ p'"] exI [of _ "s' @ q"] exI [of _ c] exI [of _ d]) simp
qed

lemma one_edit_rev:
  assumes "one_edit u v"
  shows "one_edit (rev u) (rev v)"
  using assms
proof (cases rule: one_edit_cases)
  case (ins p d s)
  then show ?thesis using one_edit_middle [OF one_edit_head(1) [of "[]" d], of "rev s" "rev p"] by simp
next
  case (del p c s)
  then show ?thesis using one_edit_middle [OF one_edit_head(2) [of c "[]"], of "rev s" "rev p"] by simp
next
  case (rep p c d s)
  then show ?thesis using one_edit_middle [OF one_edit_head(3) [of c "[]" d], of "rev s" "rev p"] by simp
qed

lemma edits_rev: "(one_edit ^^ n) u v \<Longrightarrow> (one_edit ^^ n) (rev u) (rev v)"
proof (induction n arbitrary: v)
  case (Suc n)
  then obtain w where "(one_edit ^^ n) u w" "one_edit w v" by (elim relpowp_Suc_E)
  from relpowp_Suc_I [OF Suc.IH [OF this(1)] one_edit_rev [OF this(2)]] show ?case .
qed simp

text \<open>The recursive distance is a number of edits that suffices \<dots>\<close>

lemma edits_lev: "(one_edit ^^ lev a b) a b"
proof (induction a b rule: lev.induct)
  case (1 b)
  show ?case
  proof (induction b)
    case (Cons d b)
    then have "(one_edit ^^ length b) [] b" by simp
    from relpowp_Suc_I [OF this one_edit_head(1) [of b d]] show ?case by (simp only: lev.simps list.size add_Suc_right add_0_right)
  qed simp
next
  case (2 c a)
  have "(one_edit ^^ length a) a []" for a :: "'a list"
  proof (induction a)
    case (Cons c a)
    from relpowp_Suc_I2 [OF one_edit_head(2) [of c a] Cons] show ?case by (simp only: list.size add_Suc_right add_0_right)
  qed simp
  then show ?case by (simp only: lev.simps(2))
next
  case (3 c a d b)
  have last: "(one_edit ^^ (lev a b + (if c = d then 0 else 1))) (c # a) (d # b)"
    using edits_Cons [OF 3(3), of c] relpowp_Suc_I [OF edits_Cons [OF 3(3), of c] one_edit_head(3) [of c b d]]
    by (cases "c = d") (simp_all only: simp_thms if_True if_False add_0_right Suc_eq_plus1)
  have min3: "min (min x y) z = x \<or> min (min x y) z = y \<or> min (min x y) z = z" for x y z :: nat
    by (simp add: min_def)
  consider "lev (c # a) (d # b) = Suc (lev a (d # b))" | "lev (c # a) (d # b) = Suc (lev (c # a) b)"
    | "lev (c # a) (d # b) = lev a b + (if c = d then 0 else 1)"
    using min3 [of "lev a (d # b) + 1" "lev (c # a) b + 1" "lev a b + (if c = d then 0 else 1)"]
    unfolding lev.simps(3) Suc_eq_plus1 by blast
  then show ?case
  proof cases
    case 1
    then show ?thesis using relpowp_Suc_I2 [OF one_edit_head(2) 3(1)] by (simp only:)
  next
    case 2
    then show ?thesis using relpowp_Suc_I [OF 3(2) one_edit_head(1)] by (simp only:)
  qed (use last in \<open>simp only:\<close>)
qed

text \<open>\<dots> and one edit changes it by at most one.\<close>

lemma lev_drop: "lev (c # s) w \<le> Suc (lev s w)" "lev s w \<le> Suc (lev (c # s) w)"
proof -
  show drop: "lev (c # s) w \<le> Suc (lev s w)" for c s
    by (cases w) auto
  have right: "lev s (y # w) \<le> Suc (lev s w)" for y w
    by (cases s) auto
  show "lev s w \<le> Suc (lev (c # s) w)"
  proof (induction w)
    case (Cons y w)
    then show ?case using right [of y w] by (auto simp: min_def)
  qed simp
qed

lemma lev_rep: "lev (c # s) w \<le> Suc (lev (d # s) w)"
proof (induction w)
  case (Cons y w)
  then show ?case using lev_drop(2) [of s w] by (auto simp: min_def)
qed simp

lemma lev_common:
  assumes "\<And>w. lev s w \<le> Suc (lev t w)"
  shows "lev (p @ s) w \<le> Suc (lev (p @ t) w)"
proof (induction p arbitrary: w)
  case (Cons c p)
  show ?case
  proof (induction w)
    case Nil
    from Cons.IH [of "[]"] show ?case by simp
  next
    case (Cons y w)
    then show ?case using \<open>\<And>w. lev (p @ s) w \<le> Suc (lev (p @ t) w)\<close> [of "y # w"] \<open>\<And>w. lev (p @ s) w \<le> Suc (lev (p @ t) w)\<close> [of w]
      by (auto simp: min_def)
  qed
qed (use assms in simp)

lemma lev_one_edit: "one_edit u v \<Longrightarrow> lev u w \<le> Suc (lev v w)"
  by (cases rule: one_edit_cases, assumption) (auto intro: lev_common lev_drop lev_rep)

lemma lev_edits: "(one_edit ^^ n) a b \<Longrightarrow> lev a b \<le> n"
proof (induction n arbitrary: a)
  case 0
  have "lev b b = 0" for b :: "'a list" by (induction b) auto
  with 0 show ?case by simp
next
  case (Suc n)
  then obtain w where w: "one_edit a w" "(one_edit ^^ n) w b" by (elim relpowp_Suc_E2)
  with lev_one_edit [OF w(1), of b] Suc.IH [OF w(2)] show ?case by simp
qed

text \<open>
  The two-row computation returns the least number of single-character insertions,
  deletions and replacements that turn the first text into the second.
\<close>

theorem edit_distance_least: "edit_distance a b = (LEAST n. (one_edit ^^ n) a b)"
proof (rule Least_equality [symmetric])
  show "(one_edit ^^ edit_distance a b) a b"
    using edits_rev [OF edits_lev [of "rev a" "rev b"]] by (simp add: edit_distance_lev)
  show "edit_distance a b \<le> n" if "(one_edit ^^ n) a b" for n
    using lev_edits [OF edits_rev [OF that]] by (simp add: edit_distance_lev)
qed

end
