(* ===== verification/References.thy ===== *)
theory References
  imports QueryIndex EditDistance GoSha256 GoFloat
begin

text \<open>
  \<open>internal/services/refs.go\<close>: where a stable id points now, and whether a remembered reference
  may still be acted on. A resolver has the repository and possibly an index over it. Files, git
  and the parser that finds a symbol again in a changed file are the record \<open>world\<close>.
\<close>

section \<open>Types\<close>

datatype diff_exit = NoDiff | Differs | DiffFailed

record moved =
  mv_start_line :: int
  mv_end_line :: int
  mv_start_byte :: int
  mv_end_byte :: int
  mv_start_col :: int
  mv_end_col :: int
  mv_hash :: string

text \<open>\<open>w_relocate path n\<close> is \<open>relocateSymbol\<close>, which parses the file with tree-sitter.\<close>

record world =
  w_read :: "string \<Rightarrow> string option"
  w_head :: "string \<Rightarrow> string"
  w_diff :: "string \<Rightarrow> string \<Rightarrow> string \<Rightarrow> diff_exit"
  w_relocate :: "string \<Rightarrow> node \<Rightarrow> moved option"

record source_span =
  ss_file_id :: string
  ss_revision :: string
  ss_rel_path :: string
  ss_start_line :: int
  ss_end_line :: int
  ss_start_col :: int
  ss_end_col :: int
  ss_start_byte :: int
  ss_end_byte :: int
  ss_hash :: string
  ss_symbol :: string

record binary_span =
  bs_binary :: string
  bs_hash :: string
  bs_start :: string
  bs_end :: string
  bs_size :: int
  bs_section :: string
  bs_function :: string
  bs_tool :: string

definition ref_valid :: string where "ref_valid = ''VALID''"
definition ref_stale :: string where "ref_stale = ''REFERENCE_STALE''"
definition ref_invalid :: string where "ref_invalid = ''INVALID_REFERENCE''"

record ref_resolution =
  rs_id :: string
  rs_status :: string
  rs_kind :: string
  rs_node :: string
  rs_name :: string
  rs_source :: "source_span option"
  rs_binary :: "binary_span option"
  rs_indexed :: string
  rs_current :: string
  rs_revision :: string
  rs_reason :: string
  rs_candidates :: "string list"

record 'r resolver =
  rv_index :: "query_index option"
  rv_repo :: 'r

definition new_resolver :: "'r \<Rightarrow> 'r resolver" where
  "new_resolver r = \<lparr>rv_index = None, rv_repo = r\<rparr>"

definition new_resolver_with_index :: "'r \<Rightarrow> query_index \<Rightarrow> 'r resolver" where
  "new_resolver_with_index r idx = \<lparr>rv_index = Some idx, rv_repo = r\<rparr>"

section \<open>Reading the graph\<close>

text \<open>\<open>n, _ := FindNodes(kind, filters)\<close>: no nodes when it fails.\<close>

definition find_or_none :: "'r source \<Rightarrow> string \<Rightarrow> props \<Rightarrow> 'r resolver \<Rightarrow> node list \<times> 'r resolver" where
  "find_or_none S kind filters v =
     (case op_find (src_ops S) kind filters (rv_repo v) of
        (Inr ns, r) \<Rightarrow> (ns, v\<lparr>rv_repo := r\<rparr>)
      | (Inl _, r) \<Rightarrow> ([], v\<lparr>rv_repo := r\<rparr>))"

definition index_ready :: "'r source \<Rightarrow> string \<Rightarrow> 'r resolver \<Rightarrow> bool \<times> 'r resolver" where
  "index_ready S project v =
     (case rv_index v of
        None \<Rightarrow> (False, v)
      | Some idx \<Rightarrow>
          if project = [] \<or> index_project idx \<noteq> project then (False, v)
          else (case refresh_index S idx (rv_repo v) of
                  (res, idx, r) \<Rightarrow>
                    (is_ok res \<and> index_status idx = IndexReady, \<lparr>rv_index = Some idx, rv_repo = r\<rparr>)))"

definition kind_from_index :: "'r source \<Rightarrow> string \<Rightarrow> string \<Rightarrow> 'r resolver \<Rightarrow> node list option \<times> 'r resolver" where
  "kind_from_index S project kind v =
     (case index_ready S project v of
        (False, v) \<Rightarrow> (None, v)
      | (True, v) \<Rightarrow>
          (case rv_index v of
             None \<Rightarrow> (None, v)
           | Some idx \<Rightarrow>
               (case index_nodes_by_kind S kind idx (rv_repo v) of
                  (ns, idx, r) \<Rightarrow>
                    (if index_status idx \<noteq> IndexReady then None
                     else Some (filter (\<lambda>n. str_prop n ''project_id'' = project) ns),
                     \<lparr>rv_index = Some idx, rv_repo = r\<rparr>))))"

text \<open>\<open>nodeKindOf\<close>, empty for the other kinds of id.\<close>

definition node_kind_of :: "string \<Rightarrow> string" where
  "node_kind_of k =
     (case map_of [(k_func, ''Function''), (k_class, ''Class''), (k_struct, ''Struct''), (k_file, ''SourceFile''),
        (k_binfunc, ''BinaryFunction''), (k_binary, ''Binary''), (k_bb, ''BasicBlock''), (k_insn, ''Instruction'')] k of
        None \<Rightarrow> [] | Some s \<Rightarrow> s)"

definition is_symbol_kind :: "string \<Rightarrow> bool" where
  "is_symbol_kind k \<longleftrightarrow> k = ''Function'' \<or> k = ''Class'' \<or> k = ''Struct''"

definition project_root :: "'r source \<Rightarrow> string \<Rightarrow> 'r resolver \<Rightarrow> string \<times> 'r resolver" where
  "project_root S project v =
     (case index_ready S project v of
        (ready, v) \<Rightarrow>
          let indexed = (case rv_index v of
                Some idx \<Rightarrow> (case get_indexed project idx of
                     Some n \<Rightarrow> if node_kind n = ''Project'' then str_prop n ''path'' else []
                   | None \<Rightarrow> [])
              | None \<Rightarrow> [])
          in if ready \<and> indexed \<noteq> [] then (indexed, v)
             else (case find_or_none S ''Project'' [(''id'', VStr project)] v of
                     (n # _, v) \<Rightarrow> (str_prop n ''path'', v)
                   | ([], v) \<Rightarrow> ([], v)))"

section \<open>Looking an id up\<close>

definition max_suggestions :: nat where "max_suggestions = 3"

definition cap_rows :: "'a list \<Rightarrow> nat \<Rightarrow> 'a list" where
  "cap_rows rows limit = (if limit < length rows then take limit rows else rows)"

definition suggest_from :: "node list \<Rightarrow> string \<Rightarrow> string list" where
  "suggest_from ns i =
     (let near = concat (map (\<lambda>n. let s = str_prop n ''stable_id'';
                                     d = edit_distance (to_lower i) (to_lower s)
                                 in if s \<noteq> [] \<and> d * 4 \<le> length i then [(d, s)] else []) ns)
      in map snd (cap_rows (sort near) max_suggestions))"

definition suggest :: "'r source \<Rightarrow> string \<Rightarrow> string \<Rightarrow> string \<Rightarrow> 'r resolver \<Rightarrow> string list \<times> 'r resolver" where
  "suggest S project kind i v =
     (case find_or_none S kind [(''project_id'', VStr project)] v of (ns, v) \<Rightarrow> (suggest_from ns i, v))"

definition suggest_indexed :: "'r source \<Rightarrow> string \<Rightarrow> string \<Rightarrow> string \<Rightarrow> 'r resolver \<Rightarrow> string list \<times> 'r resolver" where
  "suggest_indexed S project kind i v =
     (case kind_from_index S project kind v of
        (None, v) \<Rightarrow> suggest S project kind i v
      | (Some ns, v) \<Rightarrow> (suggest_from ns i, v))"

definition lookup :: "'r source \<Rightarrow> string \<Rightarrow> string \<Rightarrow> 'r resolver \<Rightarrow> (node option \<times> string list) \<times> 'r resolver" where
  "lookup S project i v =
     (case parse_id i of
        (kind, _, ok) \<Rightarrow>
          if \<not> ok \<or> node_kind_of kind = [] then ((None, []), v)
          else
            let nk = node_kind_of kind
            in case index_ready S project v of
                 (True, v) \<Rightarrow>
                   (case rv_index v of
                      None \<Rightarrow> ((None, []), v)
                    | Some idx \<Rightarrow>
                        (case filter (\<lambda>n. node_kind n = nk \<and> str_prop n ''project_id'' = project) (find_by_stable_id i idx) of
                           n # _ \<Rightarrow> ((Some n, []), v)
                         | [] \<Rightarrow> (case suggest_indexed S project nk i v of (cs, v) \<Rightarrow> ((None, cs), v))))
               | (False, v) \<Rightarrow>
                   (case find_or_none S nk (put_all [(''project_id'', VStr project), (''stable_id'', VStr i)] []) v of
                      (n # _, v) \<Rightarrow> ((Some n, []), v)
                    | ([], v) \<Rightarrow> (case suggest S project nk i v of (cs, v) \<Rightarrow> ((None, cs), v))))"


section \<open>Spans\<close>

definition int_prop :: "node \<Rightarrow> string \<Rightarrow> int" where
  "int_prop n k = (case pget (node_props n) k of VInt i \<Rightarrow> i | _ \<Rightarrow> 0)"

definition source_span_of :: "node \<Rightarrow> source_span" where
  "source_span_of n =
     \<lparr>ss_file_id = file_id (str_prop n ''rel_path''), ss_revision = str_prop n ''commit'', ss_rel_path = str_prop n ''rel_path'',
      ss_start_line = int_prop n ''line_start'', ss_end_line = int_prop n ''line_end'',
      ss_start_col = int_prop n ''start_col'', ss_end_col = int_prop n ''end_col'',
      ss_start_byte = int_prop n ''start_byte'', ss_end_byte = int_prop n ''end_byte'',
      ss_hash = str_prop n ''content_hash'', ss_symbol = str_prop n ''stable_id''\<rparr>"

text \<open>\<open>fmt.Sprintf("%x", sha256.Sum256(data))\<close>\<close>

definition hash_text :: "string \<Rightarrow> string" where
  "hash_text s = hex_bytes (sha256 s)"

definition current_span_hash :: "world \<Rightarrow> string \<Rightarrow> int \<Rightarrow> int \<Rightarrow> string option" where
  "current_span_hash W path start stop =
     (case w_read W path of
        None \<Rightarrow> None
      | Some data \<Rightarrow>
          if start < 0 \<or> int (length data) < stop \<or> stop < start then None
          else Some (hash_text (take (nat stop - nat start) (drop (nat start) data))))"

text \<open>\<open>fmt.Sscanf(s, "%x", &start)\<close>: leading space but no line feed, a sign, hexadecimal digits.\<close>

fun skip_space :: "string \<Rightarrow> string option" where
  "skip_space [] = Some []"
| "skip_space (c # s) =
     (if c = CHR 0x0A then None else if is_space c then skip_space s else Some (c # s))"

definition hex_val :: "char \<Rightarrow> nat" where
  "hex_val c = (if is_digit c then digit_val c else of_char (lower_char c) - 87)"

definition scan_hex :: "string \<Rightarrow> int option" where
  "scan_hex s =
     (case skip_space s of
        None \<Rightarrow> None
      | Some t \<Rightarrow>
          (let negative = has_prefix t ''-'';
               u = (if negative \<or> has_prefix t ''+'' then drop 1 t else t);
               ds = takeWhile is_hex u;
               v = (if negative then - 1 else 1) * int (fold (\<lambda>c v. v * 16 + hex_val c) ds 0)
           in if ds = [] \<or> v < - (2 ^ 63) \<or> 2 ^ 63 \<le> v then None else Some v))"

fun nat_hex :: "nat \<Rightarrow> string" where
  "nat_hex n = (if n < 16 then [GoSha256.hex_digit (int n)] else nat_hex (n div 16) @ [GoSha256.hex_digit (int (n mod 16))])"

declare nat_hex.simps [simp del]

definition show_hex :: "int \<Rightarrow> string" where
  "show_hex i = (if i < 0 then CHR ''-'' # nat_hex (nat (- i)) else nat_hex (nat i))"

definition wrap64 :: "int \<Rightarrow> int" where
  "wrap64 i = (i + 2 ^ 63) mod 2 ^ 64 - 2 ^ 63"

definition binary_span_of :: "'r source \<Rightarrow> string \<Rightarrow> node \<Rightarrow> 'r resolver \<Rightarrow> binary_span \<times> 'r resolver" where
  "binary_span_of S project n v =
     (case find_or_none S ''Binary''
             (put_all [(''project_id'', VStr project), (''binary_id'', VStr (str_prop n ''binary_id''))] []) v of
        (bs, v) \<Rightarrow>
          let address = str_prop n ''address'';
              size = int_prop n ''size''
          in (\<lparr>bs_binary = str_prop n ''binary_id'',
               bs_hash = (case bs of b # _ \<Rightarrow> str_prop b ''hash'' | [] \<Rightarrow> []),
               bs_start = address,
               bs_end = (if 0 < size
                 then (case scan_hex (trim_prefix address ''0x'') of
                         Some start \<Rightarrow> ''0x'' @ show_hex (wrap64 (start + size)) | None \<Rightarrow> [])
                 else []),
               bs_size = size, bs_section = str_prop n ''section'', bs_function = str_prop n ''stable_id'',
               bs_tool = str_prop n ''analysis_tool''\<rparr>, v))"

section \<open>Resolving\<close>

definition unresolved :: "string \<Rightarrow> ref_resolution" where
  "unresolved i = \<lparr>rs_id = i, rs_status = [], rs_kind = [], rs_node = [], rs_name = [], rs_source = None, rs_binary = None,
     rs_indexed = [], rs_current = [], rs_revision = [], rs_reason = [], rs_candidates = []\<rparr>"

definition stale :: "string \<Rightarrow> ref_resolution \<Rightarrow> ref_resolution" where
  "stale reason res = res\<lparr>rs_status := ref_stale, rs_reason := reason\<rparr>"

definition resolve_file :: "world \<Rightarrow> string \<Rightarrow> node \<Rightarrow> ref_resolution \<Rightarrow> ref_resolution" where
  "resolve_file W path n res =
     (case w_read W path of
        None \<Rightarrow> stale ''file no longer exists on disk'' res
      | Some data \<Rightarrow>
          let res = res\<lparr>rs_current := hash_text data, rs_indexed := str_prop n ''hash'', rs_status := ref_valid\<rparr>
          in if rs_current res \<noteq> rs_indexed res
             then stale ''file changed since it was indexed; re-index before relying on spans'' res else res)"

definition moved_to :: "moved \<Rightarrow> source_span \<Rightarrow> source_span" where
  "moved_to m s = s\<lparr>ss_start_line := mv_start_line m, ss_end_line := mv_end_line m,
     ss_start_byte := mv_start_byte m, ss_end_byte := mv_end_byte m,
     ss_start_col := mv_start_col m, ss_end_col := mv_end_col m, ss_hash := mv_hash m\<rparr>"

definition resolve_symbol_at :: "world \<Rightarrow> string \<Rightarrow> node \<Rightarrow> source_span \<Rightarrow> ref_resolution \<Rightarrow> ref_resolution" where
  "resolve_symbol_at W path n sp res =
     (if rs_indexed res = []
      then stale ''no content fingerprint recorded (indexed by an older version); re-index'' res
      else if current_span_hash W path (ss_start_byte sp) (ss_end_byte sp) = Some (rs_indexed res)
      then res\<lparr>rs_current := rs_indexed res, rs_status := ref_valid\<rparr>
      else case w_relocate W path n of
             None \<Rightarrow> stale ''the symbol is no longer present in the file, or the file cannot be read'' res
           | Some m \<Rightarrow>
               let res = res\<lparr>rs_current := mv_hash m, rs_source := Some (moved_to m sp)\<rparr>
               in if mv_hash m \<noteq> rs_indexed res
                  then stale ''the code of this symbol changed since it was indexed; re-index and resolve again'' res
                  else res\<lparr>rs_status := ref_valid,
                    rs_reason := ''symbol moved within the file (index is behind disk); the span above is current, re-index to refresh''\<rparr>)"

text \<open>What is found out about a node, from the \<open>switch\<close> over its kind on.\<close>

definition resolve_node :: "'r source \<Rightarrow> world \<Rightarrow> string \<Rightarrow> string \<Rightarrow> node \<Rightarrow> ref_resolution \<Rightarrow> 'r resolver \<Rightarrow> ref_resolution \<times> 'r resolver" where
  "resolve_node S W project base n res v =
     (if node_kind n = ''BinaryFunction''
      then (case binary_span_of S project n v of
              (bs, v) \<Rightarrow> (res\<lparr>rs_binary := Some bs, rs_status := ref_valid\<rparr>, v))
      else if node_kind n \<in> set [''Binary'', ''BasicBlock'', ''Instruction'']
      then (res\<lparr>rs_status := ref_valid\<rparr>, v)
      else
        let sp = source_span_of n;
            res = res\<lparr>rs_source := Some sp, rs_indexed := ss_hash sp\<rparr>;
            path = path_join [base, ss_rel_path sp]
        in (if node_kind n = ''SourceFile'' then resolve_file W path n res
            else resolve_symbol_at W path n sp res, v))"

definition resolve_ref :: "'r source \<Rightarrow> world \<Rightarrow> string \<Rightarrow> string \<Rightarrow> 'r resolver \<Rightarrow> ref_resolution \<times> 'r resolver" where
  "resolve_ref S W project i v =
     (case parse_id i of
        (kind, _, ok) \<Rightarrow>
          if \<not> ok
          then ((unresolved i)\<lparr>rs_status := ref_invalid,
                  rs_reason := ''not a stable ID (expected kind:..., e.g. func:src/a.c:parse)''\<rparr>, v)
          else
            let res = (unresolved i)\<lparr>rs_kind := kind\<rparr>
            in case lookup S project i v of
                 ((None, cs), v) \<Rightarrow>
                   (res\<lparr>rs_status := ref_invalid, rs_candidates := cs,
                      rs_reason := (if node_kind_of kind = [] then ''unsupported ID kind '' @ kind
                        else ''no such object in project '' @ project)\<rparr>, v)
               | ((Some n, _), v) \<Rightarrow>
                   (case project_root S project v of
                      (base, v) \<Rightarrow>
                        resolve_node S W project base n
                          (res\<lparr>rs_node := node_id n, rs_name := str_prop n ''name'', rs_revision := w_head W base\<rparr>) v))"

section \<open>Verifying\<close>

record verify_request =
  vr_id :: string
  vr_hash :: string
  vr_revision :: string

definition warn :: "string \<Rightarrow> ref_resolution \<Rightarrow> ref_resolution" where
  "warn s res = res\<lparr>rs_reason := (if rs_reason res = [] then s else rs_reason res @ ''; '' @ s)\<rparr>"

definition short_sha :: "string \<Rightarrow> string" where
  "short_sha s = (if 10 < length s then take 10 s else s)"

definition short_hash :: "string \<Rightarrow> string" where
  "short_hash s = (if 10 < length s then take 10 s else s)"

definition same_revision :: "string \<Rightarrow> string \<Rightarrow> bool" where
  "same_revision a b \<longleftrightarrow> a = b \<or> 7 \<le> length a \<and> 7 \<le> length b \<and> (has_prefix a b \<or> has_prefix b a)"

definition file_changed_between :: "world \<Rightarrow> string \<Rightarrow> string \<Rightarrow> string \<Rightarrow> bool" where
  "file_changed_between W base since relpath =
     (case w_diff W base since relpath of NoDiff \<Rightarrow> False | Differs \<Rightarrow> True | DiffFailed \<Rightarrow> True)"

text \<open>The content hash the caller saw; \<open>True\<close> when it does not match and the answer is final.\<close>

definition check_hash :: "string \<Rightarrow> ref_resolution \<Rightarrow> bool \<times> ref_resolution" where
  "check_hash expected res =
     (if expected = [] then (False, res)
      else if rs_current res \<noteq> [] \<and> expected \<noteq> rs_current res
      then (True, stale (''content changed since you read it (expected '' @ short_hash expected @ '', now '' @
              short_hash (rs_current res) @ '')'') res)
      else if rs_status res = ref_stale \<and> rs_current res = expected
      then (False, warn ''index is behind disk; re-index'' (res\<lparr>rs_status := ref_valid, rs_reason := []\<rparr>))
      else (False, res))"

definition check_revision :: "'r source \<Rightarrow> world \<Rightarrow> string \<Rightarrow> string \<Rightarrow> ref_resolution \<Rightarrow> 'r resolver \<Rightarrow> ref_resolution \<times> 'r resolver" where
  "check_revision S W project expected res v =
     (if expected = [] \<or> rs_revision res = [] \<or> same_revision (rs_revision res) expected then (res, v)
      else case project_root S project v of
        (base, v) \<Rightarrow>
          let relpath = (case rs_source res of None \<Rightarrow> [] | Some s \<Rightarrow> ss_rel_path s)
          in (if relpath \<noteq> [] \<and> \<not> file_changed_between W base expected relpath
              then warn (''revision moved ('' @ short_sha expected @ '' -> '' @ short_sha (rs_revision res) @
                     '') but the file is unchanged'') res
              else stale (''revision moved from '' @ short_sha expected @ '' to '' @ short_sha (rs_revision res) @
                     '' and the file changed (or cannot be compared)'') res, v))"

definition verify :: "'r source \<Rightarrow> world \<Rightarrow> string \<Rightarrow> verify_request \<Rightarrow> 'r resolver \<Rightarrow> ref_resolution \<times> 'r resolver" where
  "verify S W project req v =
     (case resolve_ref S W project (vr_id req) v of
        (res, v) \<Rightarrow>
          if rs_status res = ref_invalid then (res, v)
          else case check_hash (vr_hash req) res of
                 (True, res) \<Rightarrow> (res, v)
               | (False, res) \<Rightarrow> check_revision S W project (vr_revision req) res v)"

section \<open>Names\<close>

record symbol_match =
  sm_id :: string
  sm_kind :: string
  sm_name :: string
  sm_path :: string
  sm_line :: int

definition qualified_label :: "node \<Rightarrow> string" where
  "qualified_label n =
     (let owner = str_prop n ''owner''
      in if owner \<noteq> [] then owner @ ''.'' @ str_prop n ''name'' else str_prop n ''name'')"

definition match_of :: "string \<Rightarrow> node \<Rightarrow> symbol_match" where
  "match_of kind n = \<lparr>sm_id = str_prop n ''stable_id'', sm_kind = kind, sm_name = qualified_label n,
     sm_path = str_prop n ''rel_path'', sm_line = int_prop n ''line_start''\<rparr>"

definition is_called :: "string \<Rightarrow> node \<Rightarrow> bool" where
  "is_called name n \<longleftrightarrow> qualified_label n = name \<or> str_prop n ''name'' = name"

definition suggest_names :: "string \<Rightarrow> string list \<Rightarrow> string list" where
  "suggest_names name labels =
     (let near = concat (map (\<lambda>l. let d = edit_distance (to_lower name) (to_lower l)
                                 in if d * 4 \<le> length name then [(l, d)] else []) (sort (remdups labels)))
      in map fst (cap_rows (sort_key snd near) max_suggestions))"

text \<open>The nodes of the symbol kinds: from the index as long as it is ready, or else all from the graph.\<close>

fun symbols_from_index :: "'r source \<Rightarrow> string \<Rightarrow> string list \<Rightarrow> 'r resolver \<Rightarrow> (string \<times> node list) list option \<times> 'r resolver" where
  "symbols_from_index S project [] v = (Some [], v)"
| "symbols_from_index S project (k # ks) v =
     (case kind_from_index S project k v of
        (None, v) \<Rightarrow> (None, v)
      | (Some ns, v) \<Rightarrow> apfst (map_option (Cons (k, ns))) (symbols_from_index S project ks v))"

fun symbols_from_graph :: "'r source \<Rightarrow> string \<Rightarrow> string list \<Rightarrow> 'r resolver \<Rightarrow> (string \<times> node list) list \<times> 'r resolver" where
  "symbols_from_graph S project [] v = ([], v)"
| "symbols_from_graph S project (k # ks) v =
     (case find_or_none S k [(''project_id'', VStr project)] v of
        (ns, v) \<Rightarrow> apfst (Cons (k, ns)) (symbols_from_graph S project ks v))"

definition symbol_kinds :: "string list" where
  "symbol_kinds = [''Function'', ''Class'', ''Struct'']"

definition all_symbols :: "'r source \<Rightarrow> string \<Rightarrow> bool \<Rightarrow> 'r resolver \<Rightarrow> (string \<times> node list) list \<times> 'r resolver" where
  "all_symbols S project ready v =
     (if ready
      then (case symbols_from_index S project symbol_kinds v of
              (Some g, v) \<Rightarrow> (g, v)
            | (None, v) \<Rightarrow> symbols_from_graph S project symbol_kinds v)
      else symbols_from_graph S project symbol_kinds v)"

definition exact_matches :: "string \<Rightarrow> string \<Rightarrow> query_index option \<Rightarrow> node list" where
  "exact_matches project name idx =
     (case idx of
        None \<Rightarrow> []
      | Some idx \<Rightarrow>
          filter (\<lambda>n. is_symbol_kind (node_kind n) \<and> str_prop n ''project_id'' = project \<and> is_called name n)
            (find_by_name name idx))"

definition resolve_symbol_name :: "'r source \<Rightarrow> string \<Rightarrow> string \<Rightarrow> 'r resolver \<Rightarrow> (symbol_match list \<times> string list) \<times> 'r resolver" where
  "resolve_symbol_name S project name v =
     (case index_ready S project v of
        (ready, v) \<Rightarrow>
          let exact = (if ready \<and> \<not> contains name ''.'' \<and> name = trim_space name
                then exact_matches project name (rv_index v) else [])
          in if exact \<noteq> []
             then ((sort_key sm_id (map (\<lambda>n. match_of (node_kind n) n) exact), []), v)
             else case all_symbols S project ready v of
               (found, v) \<Rightarrow>
                 let out = concat (map (\<lambda>(k, ns). map (match_of k) (filter (is_called name) ns)) found);
                     labels = concat (map (\<lambda>(k, ns). map qualified_label ns) found)
                 in if out \<noteq> [] then ((sort_key sm_id out, []), v)
                    else (([], suggest_names name labels), v))"


section \<open>Line ranges\<close>

text \<open>
  The loop of \<open>lineSpan\<close> (\<open>treesitter_funcs.go\<close>) over the text that is left: the offset, whether
  the previous byte was a line feed or there was none, the line, and the start found so far.
\<close>

fun line_scan :: "int \<Rightarrow> int \<Rightarrow> string \<Rightarrow> nat \<Rightarrow> bool \<Rightarrow> int \<Rightarrow> nat \<Rightarrow> nat \<times> nat" where
  "line_scan a b [] i fresh line start = (start, i)"
| "line_scan a b (c # s) i fresh line start =
     (let start = (if line = a \<and> fresh then i else start)
      in if c = CHR 0x0A
         then (if line = b then (start, i) else line_scan a b s (i + 1) True (line + 1) start)
         else line_scan a b s (i + 1) False line start)"

definition line_span :: "string \<Rightarrow> int \<Rightarrow> int \<Rightarrow> nat \<times> nat" where
  "line_span content a b = line_scan a b content 0 True 1 0"

text \<open>The innermost symbol around the lines \<open>a\<close> to \<open>b\<close>.\<close>

definition innermost :: "int \<Rightarrow> int \<Rightarrow> node list \<Rightarrow> string \<times> int \<Rightarrow> string \<times> int" where
  "innermost a b ns best =
     fold (\<lambda>n (best, size).
        let s = int_prop n ''line_start''; e = int_prop n ''line_end''
        in if s \<le> a \<and> b \<le> e \<and> e - s < size then (str_prop n ''stable_id'', e - s) else (best, size)) ns best"

fun innermost_symbol :: "'r source \<Rightarrow> string \<Rightarrow> string \<Rightarrow> node list option \<Rightarrow> int \<Rightarrow> int \<Rightarrow> string list \<Rightarrow> string \<times> int \<Rightarrow>
  'r resolver \<Rightarrow> string \<times> 'r resolver" where
  "innermost_symbol S project relpath indexed a b [] best v = (fst best, v)"
| "innermost_symbol S project relpath indexed a b (k # ks) best v =
     (case indexed of
        Some ns \<Rightarrow>
          innermost_symbol S project relpath indexed a b ks
            (innermost a b (filter (\<lambda>n. node_kind n = k \<and> str_prop n ''project_id'' = project \<and>
               str_prop n ''rel_path'' = relpath) ns) best) v
      | None \<Rightarrow>
          (case find_or_none S k (put_all [(''project_id'', VStr project), (''rel_path'', VStr relpath)] []) v of
             (ns, v) \<Rightarrow> innermost_symbol S project relpath indexed a b ks (innermost a b ns best) v))"

text \<open>The message of the operating system is left out of the error.\<close>

definition resolve_source_span :: "'r source \<Rightarrow> world \<Rightarrow> string \<Rightarrow> string \<Rightarrow> int \<Rightarrow> int \<Rightarrow> 'r resolver \<Rightarrow>
  source_span res \<times> 'r resolver" where
  "resolve_source_span S W project path a b v =
     (case project_root S project v of
        (base, v) \<Rightarrow>
          let relpath = (if rooted path then rel base path else path_clean path)
          in case w_read W (path_join [base, relpath]) of
               None \<Rightarrow> (Inl (ErrMsg (ref_invalid @ '': '' @ relpath @ '' cannot be read'')), v)
             | Some data \<Rightarrow>
                 let a = max 1 a; b = max a b; ls = split_byte (CHR 0x0A) data
                 in if int (length ls) < a
                    then (Inl (ErrMsg (ref_invalid @ '': '' @ relpath @ '' has '' @ itoa (int (length ls)) @
                            '' lines, start_line '' @ itoa a @ '' is past the end'')), v)
                    else
                      let b = min b (int (length ls));
                          (from_byte, to_byte) = line_span data a b
                      in case index_ready S project v of
                           (ready, v) \<Rightarrow>
                             let indexed = (if ready then map_option (find_by_path relpath) (rv_index v) else None)
                             in case innermost_symbol S project relpath indexed a b symbol_kinds ([], 2 ^ 30) v of
                                  (best, v) \<Rightarrow>
                                    (Inr \<lparr>ss_file_id = file_id relpath, ss_revision = w_head W base, ss_rel_path = relpath,
                                       ss_start_line = a, ss_end_line = b, ss_start_col = 0,
                                       ss_end_col = int (length (ls ! nat (b - 1))),
                                       ss_start_byte = int from_byte, ss_end_byte = int to_byte,
                                       ss_hash = hash_text (take (to_byte - from_byte) (drop from_byte data)),
                                       ss_symbol = best\<rparr>, v))"

end
