(* ===== verification/ReferenceProperties.thy ===== *)
theory ReferenceProperties
  imports References
begin

text \<open>
  What a verified reference means, and that the index changes the speed of the resolver but not
  what it finds.
\<close>

section \<open>Verifying\<close>

definition offline_kinds :: "string list" where
  "offline_kinds = [''BinaryFunction'', ''Binary'', ''BasicBlock'', ''Instruction'']"

text \<open>The fingerprint of what a node stands for, as the files are now.\<close>

definition fingerprint_now :: "world \<Rightarrow> string \<Rightarrow> node \<Rightarrow> string \<Rightarrow> bool" where
  "fingerprint_now W path n h \<longleftrightarrow>
     (if node_kind n = ''SourceFile'' then map_option hash_text (w_read W path) = Some h
      else current_span_hash W path (int_prop n ''start_byte'') (int_prop n ''end_byte'') = Some h \<or>
           map_option mv_hash (w_relocate W path n) = Some h)"

lemma hash_text_nonempty [simp]: "hash_text s \<noteq> []"
proof -
  have "length (hash_text s) = 64" by (simp add: hash_text_def)
  then show ?thesis by auto
qed

lemmas statuses = ref_valid_def ref_stale_def ref_invalid_def

lemma stale_simps [simp]:
  "rs_status (stale s res) = ref_stale" "rs_current (stale s res) = rs_current res"
  "rs_indexed (stale s res) = rs_indexed res" "rs_node (stale s res) = rs_node res"
  "rs_source (stale s res) = rs_source res" "rs_revision (stale s res) = rs_revision res"
  by (simp_all add: stale_def)

lemma warn_simps [simp]:
  "rs_status (warn s res) = rs_status res" "rs_current (warn s res) = rs_current res"
  "rs_indexed (warn s res) = rs_indexed res" "rs_node (warn s res) = rs_node res"
  "rs_source (warn s res) = rs_source res" "rs_revision (warn s res) = rs_revision res"
  by (simp_all add: warn_def)

text \<open>What resolving a node leaves in the answer.\<close>

definition settled :: "world \<Rightarrow> string \<Rightarrow> node \<Rightarrow> ref_resolution \<Rightarrow> bool" where
  "settled W path n res \<longleftrightarrow>
     (rs_status res = ref_valid \<or> rs_status res = ref_stale) \<and>
     (if node_kind n \<in> set offline_kinds then rs_status res = ref_valid \<and> rs_current res = []
      else rs_source res \<noteq> None \<and> ss_rel_path (the (rs_source res)) = str_prop n ''rel_path'' \<and>
           (rs_current res \<noteq> [] \<longrightarrow> fingerprint_now W path n (rs_current res)) \<and>
           (rs_status res = ref_valid \<longrightarrow> rs_current res = rs_indexed res \<and> rs_current res \<noteq> []))"

lemma ref_distinct [simp]: "ref_valid \<noteq> ref_stale" "ref_valid \<noteq> ref_invalid" "ref_stale \<noteq> ref_invalid"
  "ref_stale \<noteq> ref_valid" "ref_invalid \<noteq> ref_valid" "ref_invalid \<noteq> ref_stale"
  by (simp_all add: statuses)

lemma settled_file:
  assumes "node_kind n = ''SourceFile''" "rs_current res = []"
    and "rs_source res = Some sp" "ss_rel_path sp = str_prop n ''rel_path''"
  shows "settled W path n (resolve_file W path n res)"
  using assms by (auto simp: settled_def resolve_file_def fingerprint_now_def offline_kinds_def Let_def split: option.split)

lemma settled_symbol:
  assumes "node_kind n \<noteq> ''SourceFile''" "node_kind n \<notin> set offline_kinds" "rs_current res = []"
    and "rs_source res = Some sp" "ss_rel_path sp = str_prop n ''rel_path''"
    and "ss_start_byte sp = int_prop n ''start_byte''" "ss_end_byte sp = int_prop n ''end_byte''"
  shows "settled W path n (resolve_symbol_at W path n sp res)"
  using assms by (auto simp: settled_def resolve_symbol_at_def fingerprint_now_def moved_to_def Let_def split: option.split)

lemma unread_simps [simp]:
  "rs_node (resolve_file W path n res) = rs_node res" "rs_node (resolve_symbol_at W path n sp res) = rs_node res"
  "rs_revision (resolve_file W path n res) = rs_revision res"
  "rs_revision (resolve_symbol_at W path n sp res) = rs_revision res"
  by (auto simp: resolve_file_def resolve_symbol_at_def Let_def split: option.split)

lemma settled_node:
  assumes "rs_current res = []"
  shows "settled W (path_join [base, str_prop n ''rel_path'']) n (fst (resolve_node S W project base n res v)) \<and>
    rs_node (fst (resolve_node S W project base n res v)) = rs_node res \<and>
    rs_revision (fst (resolve_node S W project base n res v)) = rs_revision res"
proof -
  have sp: "ss_rel_path (source_span_of n) = str_prop n ''rel_path''" "ss_start_byte (source_span_of n) = int_prop n ''start_byte''"
    "ss_end_byte (source_span_of n) = int_prop n ''end_byte''" by (simp_all add: source_span_of_def)
  consider (offline) "node_kind n \<in> set offline_kinds" | (whole) "node_kind n = ''SourceFile''"
    | (part) "node_kind n \<noteq> ''SourceFile''" "node_kind n \<notin> set offline_kinds" by blast
  then show ?thesis
  proof cases
    case offline
    with assms show ?thesis by (auto simp: resolve_node_def offline_kinds_def settled_def split: prod.split)
  next
    case whole
    with assms show ?thesis by (simp add: resolve_node_def Let_def sp) (rule settled_file [where sp = "source_span_of n"], simp_all add: sp)
  next
    case part
    with assms show ?thesis
      by (simp add: resolve_node_def offline_kinds_def Let_def sp) (rule settled_symbol [where sp = "source_span_of n"], simp_all add: sp offline_kinds_def)
  qed
qed

lemma resolve_cases:
  obtains (bad) "rs_status (fst (resolve_ref S W project i v)) = ref_invalid"
  | (node) n cs u base u' where "lookup S project i v = ((Some n, cs), u)" "project_root S project u = (base, u')"
      "settled W (path_join [base, str_prop n ''rel_path'']) n (fst (resolve_ref S W project i v))"
      "rs_node (fst (resolve_ref S W project i v)) = node_id n" "rs_revision (fst (resolve_ref S W project i v)) = w_head W base"
proof -
  obtain kind rst ok where p: "parse_id i = (kind, rst, ok)" by (cases "parse_id i")
  obtain m cs u where l: "lookup S project i v = ((m, cs), u)" by (metis surj_pair)
  obtain base u' where b: "project_root S project u = (base, u')" by fastforce
  show ?thesis
  proof (cases "ok \<and> m \<noteq> None")
    case False
    then show ?thesis by (intro bad) (auto simp: resolve_ref_def p l Let_def)
  next
    case True
    then obtain n where n: "m = Some n" by auto
    let ?res = "(unresolved i)\<lparr>rs_kind := kind, rs_node := node_id n, rs_name := str_prop n ''name'', rs_revision := w_head W base\<rparr>"
    have eq: "resolve_ref S W project i v = resolve_node S W project base n ?res u'"
      using True by (simp add: resolve_ref_def p l b n Let_def)
    have "rs_current ?res = []" by (simp add: unresolved_def)
    from settled_node [OF this, of W base n S project u'] show ?thesis
      by (intro node [OF l [unfolded n] b]) (simp_all add: eq)
  qed
qed

text \<open>The checks of \<open>Verify\<close> keep what resolving found, apart from status and reason.\<close>

lemma check_hash_keeps:
  assumes "check_hash expected res = (final, res')"
  shows "rs_node res' = rs_node res" "rs_current res' = rs_current res" "rs_indexed res' = rs_indexed res"
    "rs_source res' = rs_source res" "rs_revision res' = rs_revision res"
    and "final \<Longrightarrow> rs_status res' = ref_stale"
    and "rs_status res' = ref_valid \<Longrightarrow> rs_current res = [] \<or> expected = [] \<or> expected = rs_current res"
    and "rs_status res' = ref_valid \<Longrightarrow> rs_status res = ref_valid \<or> expected \<noteq> [] \<and> rs_current res = expected"
  using assms by (auto simp: check_hash_def split: if_splits)

lemma check_revision_keeps:
  assumes "check_revision S W project expected res v = (res', v')" "rs_status res' = ref_valid"
  shows "rs_node res' = rs_node res" "rs_current res' = rs_current res" "rs_indexed res' = rs_indexed res"
    "rs_status res = ref_valid" "rs_revision res' = rs_revision res"
    and "expected = [] \<or> rs_revision res = [] \<or> same_revision (rs_revision res) expected \<or>
      (\<exists>base sp. rs_source res = Some sp \<and> w_diff W base expected (ss_rel_path sp) = NoDiff)"
  using assms
  by (auto simp: check_revision_def file_changed_between_def Let_def
      split: if_splits prod.splits option.splits diff_exit.splits)

text \<open>
  When \<open>Verify\<close> answers VALID, the id has a node in the project, and unless the node
  belongs to a binary, the fingerprint in the answer is that of the file or of the symbol as it is on
  disk now; it is the one the caller saw, or the indexed one when the caller gave none; and when the
  caller gave a revision, it is the present one or git finds no difference in the file.
\<close>

theorem verify_valid_current:
  assumes "verify S W project req v = (res, v')" "rs_status res = ref_valid"
  shows "\<exists>n cs u base u'. lookup S project (vr_id req) v = ((Some n, cs), u) \<and> rs_node res = node_id n \<and>
    project_root S project u = (base, u') \<and> rs_revision res = w_head W base \<and>
    (node_kind n \<notin> set offline_kinds \<longrightarrow>
       fingerprint_now W (path_join [base, str_prop n ''rel_path'']) n (rs_current res) \<and>
       rs_current res = (if vr_hash req \<noteq> [] then vr_hash req else rs_indexed res) \<and>
       (vr_revision req = [] \<or> rs_revision res = [] \<or> same_revision (rs_revision res) (vr_revision req) \<or>
        (\<exists>base. w_diff W base (vr_revision req) (str_prop n ''rel_path'') = NoDiff)))"
proof -
  obtain r1 v1 where r1: "resolve_ref S W project (vr_id req) v = (r1, v1)" by fastforce
  obtain final r2 where r2: "check_hash (vr_hash req) r1 = (final, r2)" by fastforce
  have ok: "rs_status r1 \<noteq> ref_invalid" using assms r1 by (auto simp: verify_def)
  then have "\<not> final" using assms r1 r2 check_hash_keeps(6) [OF r2] by (auto simp: verify_def)
  then have r3: "check_revision S W project (vr_revision req) r2 v1 = (res, v')"
    using assms(1) r1 r2 ok by (simp add: verify_def)
  note hash = check_hash_keeps [OF r2] and rev = check_revision_keeps [OF r3 assms(2)]
  from ok show ?thesis
  proof (cases rule: resolve_cases [of S W project "vr_id req" v])
    case (node n cs u base u')
    have disk: "fingerprint_now W (path_join [base, str_prop n ''rel_path'']) n (rs_current res) \<and>
       rs_current res = (if vr_hash req \<noteq> [] then vr_hash req else rs_indexed res) \<and>
       (vr_revision req = [] \<or> rs_revision res = [] \<or> same_revision (rs_revision res) (vr_revision req) \<or>
        (\<exists>base. w_diff W base (vr_revision req) (str_prop n ''rel_path'') = NoDiff))"
      if "node_kind n \<notin> set offline_kinds"
    proof -
      from node(3) that have settled: "rs_current r1 \<noteq> [] \<longrightarrow> fingerprint_now W (path_join [base, str_prop n ''rel_path'']) n (rs_current r1)"
        "rs_status r1 = ref_valid \<longrightarrow> rs_current r1 = rs_indexed r1 \<and> rs_current r1 \<noteq> []"
        "\<exists>sp. rs_source r1 = Some sp \<and> ss_rel_path sp = str_prop n ''rel_path''"
        using r1 by (auto simp: settled_def)
      have cur: "rs_current r1 = (if vr_hash req \<noteq> [] then vr_hash req else rs_indexed r1) \<and> rs_current r1 \<noteq> []"
      proof (cases "rs_status r1 = ref_valid")
        case True
        with settled(2) have "rs_current r1 = rs_indexed r1" "rs_indexed r1 \<noteq> []" by auto
        with hash(7) [OF rev(4)] show ?thesis by auto
      next
        case False
        with hash(8) [OF rev(4)] show ?thesis by simp
      qed
      have moved: "vr_revision req = [] \<or> rs_revision r1 = [] \<or> same_revision (rs_revision r1) (vr_revision req) \<or>
          (\<exists>base. w_diff W base (vr_revision req) (str_prop n ''rel_path'') = NoDiff)"
        using rev(6) settled(3) unfolding hash(4,5) by auto
      show ?thesis
        unfolding rev(2,3,5) hash(2,3,5) by (intro conjI mp [OF settled(1)] conjunct1 [OF cur] conjunct2 [OF cur] moved)
    qed
    have "rs_node res = node_id n" "rs_revision res = w_head W base"
      using node(4,5) r1 by (simp_all add: rev(1,5) hash(1,5))
    with node(1,2) impI [OF disk] show ?thesis
      by - (rule exI [of _ n], rule exI [of _ cs], rule exI [of _ u], rule exI [of _ base], rule exI [of _ u'], intro conjI)
  qed (use r1 in simp)
qed


definition ref_world :: world where
  "ref_world = \<lparr>w_read = (\<lambda>_. None), w_head = (\<lambda>_. ''abcdef0''), w_diff = (\<lambda>_ _ _. NoDiff),
     w_relocate = (\<lambda>_ _. Some \<lparr>mv_start_line = 2, mv_end_line = 3, mv_start_byte = 9, mv_end_byte = 20,
       mv_start_col = 0, mv_end_col = 1, mv_hash = ''h''\<rparr>)\<rparr>"

definition demo_symbols :: mem_repo where
  "demo_symbols = snd (upsert_node ''t'' ''Function''
     (put_all [(''project_id'', VStr ''p''), (''stable_id'', VStr ''func:a:f''), (''name'', VStr ''f'')] [])
     [(''content_hash'', VStr ''h''), (''rel_path'', VStr ''a'')] (new_memory_repo demo_ids))"

lemma verify_valid_current_witness:
  "case verify mem_source ref_world ''p'' \<lparr>vr_id = ''func:a:f'', vr_hash = ''h'', vr_revision = ''1234567''\<rparr>
      (new_resolver demo_symbols) of
     (res, _) \<Rightarrow> rs_status res = ref_valid \<and>
       (\<exists>n cs u. lookup mem_source ''p'' ''func:a:f'' (new_resolver demo_symbols) = ((Some n, cs), u) \<and> rs_node res = node_id n)"
proof -
  let ?req = "\<lparr>vr_id = ''func:a:f'', vr_hash = ''h'', vr_revision = ''1234567''\<rparr>"
  obtain res v where eq: "verify mem_source ref_world ''p'' ?req (new_resolver demo_symbols) = (res, v)" by fastforce
  have "rs_status (fst (verify mem_source ref_world ''p'' ?req (new_resolver demo_symbols))) = ref_valid" by code_simp
  with eq have "rs_status res = ref_valid" by simp
  with verify_valid_current [OF eq this] eq show ?thesis by simp blast
qed

section \<open>With and without the index\<close>

text \<open>
  The index trims the texts it files nodes under, so the texts in the graph must have no surrounding
  space for it to answer as the graph does.
\<close>

definition tidy :: "mem_repo \<Rightarrow> bool" where
  "tidy r \<longleftrightarrow> list_all (\<lambda>(_, n). list_all (\<lambda>k. trim_space (str_prop n k) = str_prop n k)
     [''project_id'', ''stable_id'', ''name'']) (nodes r)"

lemma tidy_text:
  assumes "tidy r" "n \<in> snd ` set (nodes r)"
  shows "prop_text n ''project_id'' = str_prop n ''project_id''" "prop_text n ''stable_id'' = str_prop n ''stable_id''"
    "prop_text n ''name'' = str_prop n ''name''"
  using assms by (auto simp: tidy_def prop_text_def str_value_def str_prop_def list_all_iff)

lemma as_str_iff: "s \<noteq> [] \<Longrightarrow> as_str v = s \<longleftrightarrow> v = VStr s"
  by (cases v) auto

lemma str_prop_matches:
  "project \<noteq> [] \<Longrightarrow> kind \<noteq> [] \<Longrightarrow>
   node_matches kind [(''project_id'', VStr project)] n \<longleftrightarrow> node_kind n = kind \<and> str_prop n ''project_id'' = project"
  "project \<noteq> [] \<Longrightarrow> kind \<noteq> [] \<Longrightarrow> i \<noteq> [] \<Longrightarrow>
   node_matches kind (put_all [(''project_id'', VStr project), (''stable_id'', VStr i)] []) n \<longleftrightarrow>
     node_kind n = kind \<and> str_prop n ''project_id'' = project \<and> str_prop n ''stable_id'' = i"
  by (auto simp: node_matches_iff str_prop_def as_str_iff)

lemma sort_filter_snap: "filter P (scan_nodes Q project (snap_of r)) =
   sort_key node_id (filter (\<lambda>n. in_project project n \<and> Q n \<and> P n) (map snd (nodes r)))"
  by (simp add: scan_nodes_def snap_of_def filter_sort [symmetric] conj_commute conj_left_commute
      sort_key_id_if_sorted)

lemma find_locked_sort: "find_nodes_locked kind filters r = sort_key node_id (filter (node_matches kind filters) (map snd (nodes r)))"
  by (simp add: find_nodes_locked_def)

text \<open>A ready index as every run leaves it after a refresh.\<close>

definition synced :: "string \<Rightarrow> query_index \<Rightarrow> mem_repo \<Rightarrow> bool" where
  "synced project idx r \<longleftrightarrow> mem_ok r \<and> index_project idx = project \<and> project \<noteq> [] \<and>
     index_status idx = IndexReady \<and> graph_generation idx = generation r \<and> tables idx = index_tables_of project (snap_of r)"

lemma refresh_synced:
  assumes "coherent project k idx r" "k < 2 ^ 64" "project \<noteq> []"
  obtains idx' where "refresh_index mem_source idx r = (Inr (), idx', r)" "synced project idx' r"
proof -
  from refresh_coherent [OF assms] obtain idx' where
    idx': "refresh_index mem_source idx r = (Inr (), idx', r)" "tables idx' = index_tables_of project (snap_of r)"
      "index_project idx' = project" by blast
  moreover have "index_status idx' = IndexReady" "graph_generation idx' = generation r"
    using idx'(1) by (auto simp: refresh_mem rebuild_mem split: if_splits)
  moreover have "mem_ok r" using assms(1) by (simp add: coherent_def)
  ultimately show ?thesis using that assms(3) by (simp add: synced_def)
qed

lemma synced_again: "synced project idx r \<Longrightarrow> refresh_index mem_source idx r = (Inr (), idx, r)"
  by (simp add: synced_def refresh_mem)

lemma synced_lookups:
  assumes "synced project idx r"
  shows "k \<noteq> [] \<Longrightarrow> find_by_stable_id k idx = scan_nodes (\<lambda>n. prop_text n ''stable_id'' = k) project (snap_of r)"
    "k \<noteq> [] \<Longrightarrow> find_by_name k idx = scan_nodes (\<lambda>n. prop_text n ''name'' = k) project (snap_of r)"
    "index_nodes_by_kind mem_source k idx r = (scan_nodes (\<lambda>n. node_kind n = k) project (snap_of r), idx, r)"
  using assms index_scan [OF snap_of_distinct] synced_again [OF assms]
  by (simp_all add: synced_def find_by_stable_id_def find_by_name_def index_nodes_by_kind_def refreshed_def index_ids)


lemma index_ready_synced:
  assumes "synced project idx r"
  shows "index_ready mem_source project \<lparr>rv_index = Some idx, rv_repo = r\<rparr> = (True, \<lparr>rv_index = Some idx, rv_repo = r\<rparr>)"
  using assms synced_again [OF assms] by (auto simp: index_ready_def synced_def is_ok_def)

lemma index_ready_none: "index_ready S project \<lparr>rv_index = None, rv_repo = r\<rparr> = (False, \<lparr>rv_index = None, rv_repo = r\<rparr>)"
  by (simp add: index_ready_def)

lemma find_or_none_mem:
  "find_or_none mem_source kind filters v = (find_nodes_locked kind filters (rv_repo v), v)"
  by (simp add: find_or_none_def mem_source_def mem_ops_def find_nodes_def)

lemma stable_filter:
  assumes "synced project idx r" "tidy r" "i \<noteq> []" "kind \<noteq> []"
  shows "filter (\<lambda>n. node_kind n = kind \<and> str_prop n ''project_id'' = project) (find_by_stable_id i idx) =
    find_nodes_locked kind (put_all [(''project_id'', VStr project), (''stable_id'', VStr i)] []) r"
proof -
  have "project \<noteq> []" using assms(1) by (simp add: synced_def)
  show ?thesis
    unfolding synced_lookups(1) [OF assms(1,3)] sort_filter_snap find_locked_sort
      str_prop_matches(2) [OF \<open>project \<noteq> []\<close> assms(4,3)]
    using tidy_text [OF assms(2)]
    by (intro arg_cong [where f = "sort_key node_id"] filter_cong refl) (auto simp: in_project_def)
qed

lemma kind_filter:
  assumes "synced project idx r" "tidy r" "kind \<noteq> []"
  shows "kind_from_index mem_source project kind \<lparr>rv_index = Some idx, rv_repo = r\<rparr> =
    (Some (find_nodes_locked kind [(''project_id'', VStr project)] r), \<lparr>rv_index = Some idx, rv_repo = r\<rparr>)"
proof -
  have "project \<noteq> []" using assms(1) by (simp add: synced_def)
  have "filter (\<lambda>n. str_prop n ''project_id'' = project) (scan_nodes (\<lambda>n. node_kind n = kind) project (snap_of r)) =
      find_nodes_locked kind [(''project_id'', VStr project)] r"
    unfolding sort_filter_snap find_locked_sort str_prop_matches(1) [OF \<open>project \<noteq> []\<close> assms(3)]
    using tidy_text [OF assms(2)]
    by (intro arg_cong [where f = "sort_key node_id"] filter_cong refl) (auto simp: in_project_def)
  moreover have "index_status idx = IndexReady" using assms(1) by (simp add: synced_def)
  ultimately show ?thesis
    by (simp add: kind_from_index_def index_ready_synced [OF assms(1)] synced_lookups(3) [OF assms(1)])
qed

lemma lookup_synced:
  assumes "synced project idx r" "tidy r"
  shows "fst (lookup mem_source project i \<lparr>rv_index = Some idx, rv_repo = r\<rparr>) =
    fst (lookup mem_source project i \<lparr>rv_index = None, rv_repo = r\<rparr>)"
proof -
  obtain kind rst ok where p: "parse_id i = (kind, rst, ok)" by (cases "parse_id i")
  show ?thesis
  proof (cases "ok \<and> node_kind_of kind \<noteq> []")
    case True
    then have "i \<noteq> []" using p by (auto simp: parse_id_def)
    with True show ?thesis
      using stable_filter [OF assms, of i "node_kind_of kind"] kind_filter [OF assms, of "node_kind_of kind"]
      by (simp add: lookup_def p Let_def index_ready_synced [OF assms(1)] index_ready_none find_or_none_mem
          suggest_indexed_def suggest_def split: list.split)
  qed (auto simp: lookup_def p)
qed

lemma symbols_synced:
  assumes "synced project idx r" "tidy r" "[] \<notin> set ks"
  shows "symbols_from_index mem_source project ks \<lparr>rv_index = Some idx, rv_repo = r\<rparr> =
    (Some (map (\<lambda>k. (k, find_nodes_locked k [(''project_id'', VStr project)] r)) ks), \<lparr>rv_index = Some idx, rv_repo = r\<rparr>)"
  using assms(3)
proof (induction ks)
  case (Cons k ks)
  then have "k \<noteq> []" "[] \<notin> set ks" by auto
  with Cons.IH kind_filter [OF assms(1,2)] show ?case by simp
qed simp

lemma symbols_mem:
  "symbols_from_graph mem_source project ks v = (map (\<lambda>k. (k, find_nodes_locked k [(''project_id'', VStr project)] (rv_repo v))) ks, v)"
  by (induction ks) (simp_all add: find_or_none_mem)

lemma is_called_plain: "\<not> contains name ''.'' \<Longrightarrow> is_called name n \<longleftrightarrow> str_prop n ''name'' = name"
proof -
  have "contains (a @ ''.'' @ b) ''.''" for a b
    by (induction a) (auto simp: has_prefix_def)
  then show "\<not> contains name ''.'' \<Longrightarrow> ?thesis" by (auto simp: is_called_def qualified_label_def Let_def)
qed


lemma mset_called:
  "mset (concat (map (\<lambda>(k, ns). map (match_of k) (filter (is_called name) ns))
     (map (\<lambda>k. (k, find_nodes_locked k [(''project_id'', VStr project)] r)) symbol_kinds))) =
   image_mset (\<lambda>n. match_of (node_kind n) n)
     {#n \<in># mset (map snd (nodes r)). is_symbol_kind (node_kind n) \<and> str_prop n ''project_id'' = project \<and> is_called name n#}"
  if "project \<noteq> []"
proof -
  let ?all = "mset (map snd (nodes r))" and ?at = "\<lambda>n. str_prop n ''project_id'' = project \<and> is_called name n"
  have one: "mset (map (match_of k) (filter (is_called name) (find_nodes_locked k [(''project_id'', VStr project)] r))) =
      image_mset (\<lambda>n. match_of (node_kind n) n) {#n \<in># ?all. node_kind n = k \<and> ?at n#}" if "k \<noteq> []" for k
    unfolding find_locked_sort str_prop_matches(1) [OF \<open>project \<noteq> []\<close> that]
    by (auto simp: filter_filter_mset mset_filter conj_ac intro!: image_mset_cong)
  have "{#n \<in># M. is_symbol_kind (node_kind n) \<and> ?at n#} =
      {#n \<in># M. node_kind n = ''Function'' \<and> ?at n#} + {#n \<in># M. node_kind n = ''Class'' \<and> ?at n#} +
      {#n \<in># M. node_kind n = ''Struct'' \<and> ?at n#}" for M
    by (induction M) (auto simp: is_symbol_kind_def)
  then show ?thesis
    using one [of "''Function''"] one [of "''Class''"] one [of "''Struct''"] by (simp add: symbol_kinds_def)
qed

lemma resolve_symbol_synced:
  assumes "synced project idx r" "tidy r" "name \<noteq> []"
  shows "case (resolve_symbol_name mem_source project name \<lparr>rv_index = Some idx, rv_repo = r\<rparr>,
      resolve_symbol_name mem_source project name \<lparr>rv_index = None, rv_repo = r\<rparr>) of
      (((found, near), _), ((found', near'), _)) \<Rightarrow> mset found = mset found' \<and> near = near'"
proof -
  have project: "project \<noteq> []" using assms(1) by (simp add: synced_def)
  let ?all = "map (\<lambda>k. (k, find_nodes_locked k [(''project_id'', VStr project)] r)) symbol_kinds"
  let ?out = "concat (map (\<lambda>(k, ns). map (match_of k) (filter (is_called name) ns)) ?all)"
  let ?fast = "\<not> contains name ''.'' \<and> name = trim_space name"
  define exact where "exact = (if ?fast then exact_matches project name (Some idx) else [])"
  have same: "mset (map (\<lambda>n. match_of (node_kind n) n) exact) = mset ?out" if "exact \<noteq> []"
  proof -
    from that have fast: ?fast by (auto simp: exact_def split: if_splits)
    then have "exact = sort_key node_id (filter (\<lambda>n. in_project project n \<and> prop_text n ''name'' = name \<and>
        is_symbol_kind (node_kind n) \<and> str_prop n ''project_id'' = project \<and> is_called name n) (map snd (nodes r)))"
      by (simp add: exact_def exact_matches_def synced_lookups(2) [OF assms(1,3)] sort_filter_snap)
    also have "filter (\<lambda>n. in_project project n \<and> prop_text n ''name'' = name \<and>
        is_symbol_kind (node_kind n) \<and> str_prop n ''project_id'' = project \<and> is_called name n) (map snd (nodes r)) =
      filter (\<lambda>n. is_symbol_kind (node_kind n) \<and> str_prop n ''project_id'' = project \<and> is_called name n) (map snd (nodes r))"
      using tidy_text [OF assms(2)] is_called_plain fast by (intro filter_cong refl) (auto simp: in_project_def)
    finally show ?thesis unfolding mset_called [OF project] by (simp add: mset_filter)
  qed
  have slow: "resolve_symbol_name mem_source project name \<lparr>rv_index = None, rv_repo = r\<rparr> =
     (if ?out \<noteq> [] then (sort_key sm_id ?out, [])
      else ([], suggest_names name (concat (map (\<lambda>(k, ns). map qualified_label ns) ?all))), \<lparr>rv_index = None, rv_repo = r\<rparr>)"
    by (simp add: resolve_symbol_name_def index_ready_none all_symbols_def symbols_mem Let_def)
  have kinds: "[] \<notin> set symbol_kinds" by (simp add: symbol_kinds_def)
  have quick: "resolve_symbol_name mem_source project name \<lparr>rv_index = Some idx, rv_repo = r\<rparr> =
     (if exact \<noteq> [] then (sort_key sm_id (map (\<lambda>n. match_of (node_kind n) n) exact), [])
      else if ?out \<noteq> [] then (sort_key sm_id ?out, [])
      else ([], suggest_names name (concat (map (\<lambda>(k, ns). map qualified_label ns) ?all))), \<lparr>rv_index = Some idx, rv_repo = r\<rparr>)"
    unfolding exact_def by (simp add: resolve_symbol_name_def index_ready_synced [OF assms(1)] all_symbols_def
        symbols_synced [OF assms(1,2) kinds] Let_def)
  show ?thesis
  proof (cases "exact = []")
    case False
    with same have "mset (map (\<lambda>n. match_of (node_kind n) n) exact) = mset ?out" by blast
    moreover from this False have "?out \<noteq> []" by (metis map_is_Nil_conv mset_zero_iff)
    ultimately show ?thesis unfolding slow quick using False by simp
  next
    case True
    show ?thesis unfolding slow quick by (simp add: True)
  qed
qed

text \<open>
  After any run of fewer than \<open>2^64\<close> writes, rebuilds, refreshes and invalidations, the
  resolver with the index finds the same node or the same suggestions for an id, and the same symbols
  or suggestions for a name, as the resolver that reads the graph, if the texts involved have no
  surrounding space.
\<close>

theorem resolver_index_irrelevant:
  assumes "index_run gen project k idx r" "inj gen" "k < 2 ^ 64" "project \<noteq> []" "tidy r" "name \<noteq> []"
  shows "fst (lookup mem_source project i (new_resolver_with_index r idx)) = fst (lookup mem_source project i (new_resolver r)) \<and>
    (case (resolve_symbol_name mem_source project name (new_resolver_with_index r idx), resolve_symbol_name mem_source project name (new_resolver r)) of
      (((found, near), _), ((found', near'), _)) \<Rightarrow> mset found = mset found' \<and> near = near')"
proof -
  from index_run_coherent [OF assms(1,2)] have "coherent project k idx r" .
  from refresh_synced [OF this assms(3,4)] obtain idx' where
    idx': "refresh_index mem_source idx r = (Inr (), idx', r)" "synced project idx' r" by blast
  have "index_project idx = project" using \<open>coherent project k idx r\<close> by (simp add: coherent_def)
  with idx' have "index_ready mem_source project (new_resolver_with_index r idx) = (True, \<lparr>rv_index = Some idx', rv_repo = r\<rparr>)"
    using assms(4) by (simp add: index_ready_def new_resolver_with_index_def is_ok_def synced_def)
  then have ready: "index_ready mem_source project (new_resolver_with_index r idx) =
      index_ready mem_source project \<lparr>rv_index = Some idx', rv_repo = r\<rparr>"
    by (simp add: index_ready_synced [OF idx'(2)])
  have "fst (lookup mem_source project i (new_resolver_with_index r idx)) = fst (lookup mem_source project i \<lparr>rv_index = Some idx', rv_repo = r\<rparr>)"
    "resolve_symbol_name mem_source project name (new_resolver_with_index r idx) =
     resolve_symbol_name mem_source project name \<lparr>rv_index = Some idx', rv_repo = r\<rparr>"
    unfolding lookup_def resolve_symbol_name_def ready by (simp_all split: prod.split)
  then show ?thesis
    using lookup_synced [OF idx'(2) assms(5), of i] resolve_symbol_synced [OF idx'(2) assms(5,6)]
    by (simp add: new_resolver_def)
qed


lemma resolver_index_irrelevant_witness:
  "fst (lookup mem_source ''p'' ''func:a:f'' (new_resolver_with_index demo_symbols (new_query_index True ''p''))) =
   fst (lookup mem_source ''p'' ''func:a:f'' (new_resolver demo_symbols))"
proof -
  have "brings_no_future_id (new_memory_repo demo_ids)
      (put_all [(''project_id'', VStr ''p''), (''stable_id'', VStr ''func:a:f''), (''name'', VStr ''f'')] [])
      [(''content_hash'', VStr ''h''), (''rel_path'', VStr ''a'')]"
    by (rule no_id_brings_no_future_id) (simp_all add: has_key_def)
  from index_run.written [OF index_run.start mem_write.upsert [OF this]]
  have "index_run demo_ids ''p'' (Suc 0) (new_query_index True ''p'') demo_symbols" by (simp add: demo_symbols_def)
  moreover have "tidy demo_symbols" by code_simp
  ultimately show ?thesis
    using resolver_index_irrelevant [OF _ inj_demo_ids, of "''p''" "Suc 0" _ demo_symbols "''f''" "''func:a:f''"] by simp
qed

section \<open>Line ranges\<close>

abbreviation ended :: "string list \<Rightarrow> string" where
  "ended ls \<equiv> concat (map (\<lambda>l. l @ [CHR 0x0A]) ls)"

definition line_texts :: "string list \<Rightarrow> bool" where
  "line_texts ls \<longleftrightarrow> (\<forall>l \<in> set ls. CHR 0x0A \<notin> set l)"

lemma line_scan_skip:
  "CHR 0x0A \<notin> set l \<Longrightarrow> line \<noteq> a \<or> \<not> fresh \<Longrightarrow>
   line_scan a b (l @ s) i fresh line start = line_scan a b s (i + length l) (fresh \<and> l = []) line start"
  by (induction l arbitrary: i fresh) auto

text \<open>Before the first line of the range nothing is recorded; \<dots>\<close>

lemma line_scan_before:
  "line_texts pre \<Longrightarrow> line + int (length pre) = a \<Longrightarrow> a \<le> b \<Longrightarrow>
   line_scan a b (ended pre @ s) i True line start = line_scan a b s (i + length (ended pre)) True a start"
proof (induction pre arbitrary: i line)
  case (Cons l pre)
  then show ?case
    using line_scan_skip [of l line a True b "CHR 0x0A # ended pre @ s" i start] by (simp add: line_texts_def algebra_simps)
qed simp

text \<open>\<dots> at its start the offset is, if a byte follows; \<dots>\<close>

lemma line_scan_at: "t \<noteq> [] \<Longrightarrow> line_scan a b t i True a start = line_scan a b t i False a i"
  by (cases t) simp_all

text \<open>\<dots> and it ends before the line feed of its last line.\<close>

lemma line_scan_within:
  "line_texts mid \<Longrightarrow> CHR 0x0A \<notin> set l \<Longrightarrow> s = [] \<or> hd s = CHR 0x0A \<Longrightarrow> line + int (length mid) = b \<Longrightarrow>
   line \<noteq> a \<or> \<not> fresh \<Longrightarrow> a \<le> line \<Longrightarrow>
   line_scan a b (ended mid @ l @ s) i fresh line start = (start, i + length (ended mid) + length l)"
proof (induction mid arbitrary: i line fresh)
  case Nil
  then show ?case using line_scan_skip [of l line a fresh b s i start] by (cases s) auto
next
  case (Cons m mid)
  then show ?case
    using line_scan_skip [of m line a fresh b "CHR 0x0A # ended mid @ l @ s" i start] by (auto simp: line_texts_def algebra_simps)
qed

lemma join_ended: "ys \<noteq> [] \<Longrightarrow> join [c] (xs @ ys) = concat (map (\<lambda>l. l @ [c]) xs) @ join [c] ys"
proof (induction xs)
  case (Cons x xs)
  then show ?case by (cases "xs @ ys") auto
qed simp

lemma join_head:
  obtains s where "join [c] (l # post) = l @ s" "s = [] \<or> hd s = c" "s = [] \<longleftrightarrow> post = []"
  by (cases post) auto

lemma split_middle:
  assumes "1 \<le> a" "a \<le> b" "b \<le> length ls"
  obtains pre mid l post where "ls = pre @ mid @ l # post" "length pre = a - 1" "length mid = b - a"
    "take (b - a + 1) (drop (a - 1) ls) = mid @ [l]"
proof -
  let ?rest = "drop (a - 1) ls"
  have "b - a < length ?rest" using assms by simp
  from id_take_nth_drop [OF this]
  have "ls = take (a - 1) ls @ take (b - a) ?rest @ ?rest ! (b - a) # drop (Suc (b - a)) ?rest"
    by (metis append_take_drop_id)
  moreover have "take (b - a + 1) ?rest = take (b - a) ?rest @ [?rest ! (b - a)]"
    using take_Suc_conv_app_nth [OF \<open>b - a < length ?rest\<close>] by simp
  ultimately show ?thesis using that assms by simp
qed

text \<open>
  The byte range of the lines \<open>a\<close> to \<open>b\<close> is exactly the text of these lines, without the
  last line feed; but when the range is the empty line after the last line feed of a text, the whole
  text is returned in place of nothing.
\<close>

theorem line_span_exact:
  assumes "ls = split_byte (CHR 0x0A) content" "1 \<le> a" "a \<le> b" "b \<le> length ls"
  shows "case line_span content (int a) (int b) of (i, j) \<Rightarrow>
    take (j - i) (drop i content) =
      (if a = length ls \<and> last ls = [] then content else join [CHR 0x0A] (take (b - a + 1) (drop (a - 1) ls)))"
proof -
  obtain pre mid l post where ls: "ls = pre @ mid @ l # post" "length pre = a - 1" "length mid = b - a"
    "take (b - a + 1) (drop (a - 1) ls) = mid @ [l]"
    using split_middle [OF assms(2-4)] .
  obtain s where s: "join [CHR 0x0A] (l # post) = l @ s" "s = [] \<or> hd s = CHR 0x0A" "s = [] \<longleftrightarrow> post = []"
    by (rule join_head)
  have texts: "line_texts pre" "line_texts mid" "CHR 0x0A \<notin> set l"
    using split_byte_no_sep [of _ "CHR 0x0A" content] unfolding assms(1) [symmetric] ls(1) by (auto simp: line_texts_def)
  have "content = join [CHR 0x0A] ls" by (simp add: assms(1) join_split_byte)
  then have content: "content = ended pre @ ended mid @ l @ s"
    unfolding ls(1) using join_ended [of "mid @ l # post" "CHR 0x0A" pre] join_ended [of "l # post" "CHR 0x0A" mid] s(1) by simp
  have len: "1 + int (length pre) = int a" using ls(2) assms(2) by simp
  have span: "line_span content (int a) (int b) = line_scan (int a) (int b) (ended mid @ l @ s) (length (ended pre)) True (int a) 0"
    unfolding line_span_def content using line_scan_before [OF texts(1) len, of "int b" "ended mid @ l @ s" 0 0] assms(3) by simp
  have last: "a = length ls \<and> last ls = [] \<longleftrightarrow> ended mid @ l @ s = []"
    using ls(1-3) assms(2,3) s(3) by (auto simp: Cons_eq_append_conv)
  show ?thesis
  proof (cases "ended mid @ l @ s = []")
    case True
    moreover from True have "length content = length (ended pre)" using content by simp
    ultimately have "line_span content (int a) (int b) = (0, length content)" unfolding span by simp
    with True last show ?thesis by simp
  next
    case False
    have "int a + int (length mid) = int b" using ls(3) assms(3) by simp
    from line_scan_within [OF texts(2,3) s(2) this, of "int a" False]
    have "line_span content (int a) (int b) = (length (ended pre), length (ended pre) + length (ended mid) + length l)"
      unfolding span line_scan_at [OF False] by simp
    moreover have "join [CHR 0x0A] (mid @ [l]) = ended mid @ l" using join_ended [of "[l]" "CHR 0x0A" mid] by simp
    moreover have "\<not> (a = length ls \<and> last ls = [])" using False last by blast
    ultimately show ?thesis unfolding ls(4) by (simp only: prod.case if_False) (simp add: content)
  qed
qed

lemma line_span_exact_witness:
  "(case line_span ''a|b|c'' 1 1 of (i, j) \<Rightarrow> take (j - i) (drop i ''a|b|c'')) = ''a|b|c'' \<and>
   line_span (concat [''ab'', [CHR 0x0A], ''c'', [CHR 0x0A]]) 2 2 = (3, 4) \<and>
   line_span (concat [''ab'', [CHR 0x0A], ''c'', [CHR 0x0A]]) 3 3 = (0, 5)"
proof -
  have "''a|b|c'' = hd (split_byte (CHR 0x0A) ''a|b|c'')" by code_simp
  from line_span_exact [OF refl, of 1 1 "''a|b|c''"]
  have "(case line_span ''a|b|c'' 1 1 of (i, j) \<Rightarrow> take (j - i) (drop i ''a|b|c'')) = ''a|b|c''"
    by (auto split: prod.split)
  moreover have "line_span (concat [''ab'', [CHR 0x0A], ''c'', [CHR 0x0A]]) 2 2 = (3, 4)"
    "line_span (concat [''ab'', [CHR 0x0A], ''c'', [CHR 0x0A]]) 3 3 = (0, 5)" by code_simp+
  ultimately show ?thesis by simp
qed

end
