(* ===== verification/Tasks.thy ===== *)
theory Tasks
  imports References AntiLoop
begin

text \<open>
  \<open>internal/services/tasks.go\<close>: the working memory of a task, kept as a JSON text in a \<open>Task\<close> node
  of the graph, and the gates on its state and its hypotheses. The service reads references through a
  resolver without an index. \<open>encoding/json\<close> on a task is the pair \<open>te_marshal\<close>, \<open>te_unmarshal\<close>;
  nil and empty lists are one value.
\<close>

section \<open>States\<close>

definition task_transitions :: "(string \<times> string list) list" where
  "task_transitions =
     [(''UNKNOWN'', [''DISCOVERING'', ''BLOCKED'']),
      (''DISCOVERING'', [''ANALYZING'', ''HYPOTHESIS'', ''BLOCKED'', ''STALE'']),
      (''ANALYZING'', [''DISCOVERING'', ''HYPOTHESIS'', ''IMPLEMENTING'', ''BLOCKED'', ''STALE'']),
      (''HYPOTHESIS'', [''DISCOVERING'', ''ANALYZING'', ''IMPLEMENTING'', ''BLOCKED'', ''STALE'']),
      (''IMPLEMENTING'', [''ANALYZING'', ''VERIFYING'', ''BLOCKED'', ''STALE'']),
      (''VERIFYING'', [''IMPLEMENTING'', ''ANALYZING'', ''VALIDATED'', ''BLOCKED'', ''STALE'']),
      (''VALIDATED'', [''STALE'']),
      (''BLOCKED'', [''DISCOVERING'', ''ANALYZING'', ''HYPOTHESIS'', ''IMPLEMENTING'', ''VERIFYING'']),
      (''STALE'', [''DISCOVERING'', ''ANALYZING'', ''BLOCKED''])]"

definition hyp_transitions :: "(string \<times> string list) list" where
  "hyp_transitions =
     [(''UNKNOWN'', [''SUSPECTED'']),
      (''SUSPECTED'', [''SUPPORTED'', ''PARTIAL'', ''CONTRADICTED'']),
      (''SUPPORTED'', [''CONFIRMED'', ''PARTIAL'', ''CONTRADICTED'', ''SUSPECTED'']),
      (''PARTIAL'', [''SUPPORTED'', ''CONFIRMED'', ''CONTRADICTED'', ''SUSPECTED'']),
      (''CONFIRMED'', [''CONTRADICTED'']),
      (''CONTRADICTED'', [''SUSPECTED''])]"

definition targets :: "(string \<times> string list) list \<Rightarrow> string \<Rightarrow> string list" where
  "targets table s = (case map_of table s of None \<Rightarrow> [] | Some ts \<Rightarrow> ts)"

definition allowed :: "(string \<times> string list) list \<Rightarrow> string \<Rightarrow> string \<Rightarrow> bool" where
  "allowed table s t = (t \<in> set (targets table s))"

section \<open>Types\<close>

record task_fact =
  tf_text :: string
  tf_kind :: string
  tf_source :: string
  tf_at :: string
  tf_by :: string

record task_hypothesis =
  th_id :: string
  th_claim :: string
  th_subject :: string
  th_status :: string
  th_confidence :: f64
  th_for :: "string list"
  th_against :: "string list"

record tool_result =
  tr_tool :: string
  tr_summary :: string
  tr_at :: string
  tr_by :: string

record validation_entry =
  ve_name :: string
  ve_status :: string
  ve_detail :: string
  ve_at :: string

record transition =
  tn_from :: string
  tn_to :: string
  tn_at :: string
  tn_by :: string
  tn_reason :: string

record task_state =
  ts_id :: string
  ts_project :: string
  ts_goal :: string
  ts_mode :: string
  ts_state :: string
  ts_step :: string
  ts_plan :: "string list"
  ts_completed :: "string list"
  ts_pending :: "string list"
  ts_facts :: "task_fact list"
  ts_unknowns :: "string list"
  ts_constraints :: "string list"
  ts_references :: "string list"
  ts_hypotheses :: "task_hypothesis list"
  ts_evidence :: "string list"
  ts_results :: "tool_result list"
  ts_failures :: "string list"
  ts_validation :: "validation_entry list"
  ts_next :: string
  ts_created_by :: string
  ts_updated_by :: string
  ts_created_at :: string
  ts_updated_at :: string
  ts_revision :: string
  ts_version :: int
  ts_history :: "transition list"

record hypothesis_op =
  ho_id :: string
  ho_claim :: string
  ho_subject :: string
  ho_status :: string
  ho_confidence :: "f64 option"
  ho_for :: "string list"
  ho_against :: "string list"

record task_patch =
  tp_expected :: "int option"
  tp_state :: string
  tp_reason :: string
  tp_step :: "string option"
  tp_plan :: "string list"
  tp_complete :: "string list"
  tp_facts :: "task_fact list"
  tp_unknowns :: "string list"
  tp_resolve :: "string list"
  tp_constraints :: "string list"
  tp_references :: "string list"
  tp_evidence :: "string list"
  tp_results :: "tool_result list"
  tp_failures :: "string list"
  tp_clear :: bool
  tp_validation :: "validation_entry list"
  tp_hypotheses :: "hypothesis_op list"
  tp_next :: "string option"

definition empty_patch :: task_patch where
  "empty_patch = \<lparr>tp_expected = None, tp_state = [], tp_reason = [], tp_step = None, tp_plan = [], tp_complete = [],
     tp_facts = [], tp_unknowns = [], tp_resolve = [], tp_constraints = [], tp_references = [], tp_evidence = [],
     tp_results = [], tp_failures = [], tp_clear = False, tp_validation = [], tp_hypotheses = [], tp_next = None\<rparr>"

text \<open>
  What one call sees of its surroundings: files and git, the time the service stamps, the one the
  evidence service formats and the one the repository stamps, and JSON.
\<close>

record task_env =
  te_world :: world
  te_stamp :: string
  te_clock :: string
  te_now :: string
  te_marshal :: "task_state \<Rightarrow> string res"
  te_unmarshal :: "string \<Rightarrow> task_state res"

section \<open>Helpers\<close>

text \<open>A call that may fail, on the repository; the rest runs when it succeeds.\<close>

definition andthen :: "'a res \<times> 'r \<Rightarrow> ('a \<Rightarrow> 'r \<Rightarrow> 'b res \<times> 'r) \<Rightarrow> 'b res \<times> 'r" where
  "andthen m f = (case m of (Inl e, r) \<Rightarrow> (Inl e, r) | (Inr x, r) \<Rightarrow> f x r)"

text \<open>A resolver without an index is its repository.\<close>

definition reading :: "('r resolver \<Rightarrow> 'a \<times> 'r resolver) \<Rightarrow> 'r \<Rightarrow> 'a \<times> 'r" where
  "reading f r = apsnd rv_repo (f (new_resolver r))"

text \<open>The loop \<open>for _, x := range xs\<close> with an early return.\<close>

fun each :: "('a \<Rightarrow> 'b \<Rightarrow> 'r \<Rightarrow> 'b res \<times> 'r) \<Rightarrow> 'a list \<Rightarrow> 'b \<Rightarrow> 'r \<Rightarrow> 'b res \<times> 'r" where
  "each f [] b r = (Inr b, r)"
| "each f (x # xs) b r = andthen (f x b r) (each f xs)"

definition unique_strings :: "string list \<Rightarrow> string \<Rightarrow> string list" where
  "unique_strings xs skip = fold (\<lambda>s out. if s = skip \<or> s \<in> set out then out else out @ [s]) xs []"

text \<open>\<open>indexOf\<close>, None for -1, and the removal of the element found.\<close>

fun index_of :: "string list \<Rightarrow> string \<Rightarrow> nat option" where
  "index_of [] v = None"
| "index_of (x # xs) v = (if x = v then Some 0 else map_option Suc (index_of xs v))"

definition remove_at :: "nat \<Rightarrow> 'a list \<Rightarrow> 'a list" where
  "remove_at i xs = take i xs @ drop (i + 1) xs"

text \<open>The verb \<open>%q\<close> on ASCII text.\<close>

definition quote_char :: "char \<Rightarrow> string" where
  "quote_char c =
     (case map_of [(CHR 0x22, CHR 0x22), (CHR 0x5C, CHR 0x5C), (CHR 0x07, CHR ''a''), (CHR 0x08, CHR ''b''), (CHR 0x0C, CHR ''f''),
        (CHR 0x0A, CHR ''n''), (CHR 0x0D, CHR ''r''), (CHR 0x09, CHR ''t''), (CHR 0x0B, CHR ''v'')] c of
        Some e \<Rightarrow> [CHR 0x5C, e]
      | None \<Rightarrow> if CHR '' '' \<le> c \<and> c < CHR 0x7F then [c]
                else [CHR 0x5C, CHR ''x''] @ hex_bytes [of_char c])"

definition go_quoted :: "string \<Rightarrow> string" where
  "go_quoted s = CHR 0x22 # concat (map quote_char s) @ [CHR 0x22]"

definition failing :: "string \<Rightarrow> 'a res" where
  "failing s = Inl (ErrMsg s)"

section \<open>Storing a task\<close>

definition task_identity :: "string \<Rightarrow> string \<Rightarrow> props" where
  "task_identity project task = put_all [(''project_id'', VStr project), (''task_id'', VStr task)] []"

definition task_props :: "task_state \<Rightarrow> string \<Rightarrow> props" where
  "task_props ts blob =
     put_all [(''stable_id'', VStr (''task:'' @ ts_id ts)), (''goal'', VStr (ts_goal ts)), (''state'', VStr (ts_state ts)),
       (''mode'', VStr (ts_mode ts)), (''created_by'', VStr (ts_created_by ts)), (''updated_by'', VStr (ts_updated_by ts)),
       (''version'', VInt (ts_version ts)), (''updated_at'', VStr (ts_updated_at ts)), (''state_json'', VStr blob)] []"

definition task_node :: "'r source \<Rightarrow> string \<Rightarrow> string \<Rightarrow> 'r \<Rightarrow> node res \<times> 'r" where
  "task_node S project task r =
     (case reading (find_or_none S ''Task'' (task_identity project task)) r of
        (n # _, r) \<Rightarrow> (Inr n, r)
      | ([], r) \<Rightarrow> (failing (''task '' @ go_quoted task @ '' not found in project '' @ project), r))"

definition save_task :: "task_env \<Rightarrow> 'r source \<Rightarrow> task_state \<Rightarrow> 'r \<Rightarrow> task_state res \<times> 'r" where
  "save_task E S ts r =
     (case te_marshal E ts of
        Inl e \<Rightarrow> (Inl e, r)
      | Inr blob \<Rightarrow>
          andthen (op_upsert (src_ops S) (te_now E) ''Task'' (task_identity (ts_project ts) (ts_id ts)) (task_props ts blob) r)
            (\<lambda>_ r. (Inr ts, r)))"

definition corrupted :: "string \<Rightarrow> err \<Rightarrow> err" where
  "corrupted task e = ErrMsg (''task '' @ task @ '' is corrupted: '' @ (case e of ErrMsg s \<Rightarrow> s | _ \<Rightarrow> []))"

definition load_task :: "task_env \<Rightarrow> 'r source \<Rightarrow> string \<Rightarrow> string \<Rightarrow> 'r \<Rightarrow> task_state res \<times> 'r" where
  "load_task E S project task r =
     andthen (task_node S project task r)
       (\<lambda>n r. (map_sum (corrupted task) id (te_unmarshal E (str_prop n ''state_json'')), r))"


section \<open>Creating\<close>

definition valid_modes :: "string list" where
  "valid_modes = [[], ''explore'', ''implement'', ''reverse_engineer'', ''validate'', ''autonomous'']"

definition check_refs :: "task_env \<Rightarrow> 'r source \<Rightarrow> string \<Rightarrow> string list \<Rightarrow> 'r \<Rightarrow> unit res \<times> 'r" where
  "check_refs E S project refs =
     each (\<lambda>i _ r. case reading (resolve_ref S (te_world E) project i) r of
        (res, r) \<Rightarrow>
          (if rs_status res = ref_invalid
           then failing (ref_invalid @ '': '' @ i @
             (if rs_candidates res \<noteq> [] then ''; did you mean: '' @ join '', '' (rs_candidates res) else []))
           else Inr (), r)) refs ()"

definition new_task_id :: "string \<Rightarrow> string" where
  "new_task_id fresh = ''t-'' @ take 12 (filter (\<lambda>c. c \<noteq> CHR ''-'') fresh)"

definition create_task :: "task_env \<Rightarrow> 'r source \<Rightarrow> string \<Rightarrow> string \<Rightarrow> string \<Rightarrow> string \<Rightarrow> string \<Rightarrow> string list \<Rightarrow> string list \<Rightarrow>
  'r \<Rightarrow> task_state res \<times> 'r" where
  "create_task E S fresh project goal mode agent constraints refs r =
     (if trim_space goal = [] then (failing ''goal is required'', r)
      else if mode \<notin> set valid_modes
      then (failing ''mode must be one of explore, implement, reverse_engineer, validate, autonomous'', r)
      else case reading (find_or_none S ''Project'' [(''id'', VStr project)]) r of
        ([], r) \<Rightarrow> (failing ''project must be indexed first'', r)
      | (_ # _, r) \<Rightarrow>
          andthen (check_refs E S project refs r) (\<lambda>_ r.
            if length (filter (\<lambda>c. c \<noteq> CHR ''-'') fresh) < 12 then (Inl (Panic ''slice bounds out of range''), r)
            else case reading (project_root S project) r of
              (base, r) \<Rightarrow>
                save_task E S
                  \<lparr>ts_id = new_task_id fresh, ts_project = project, ts_goal = goal, ts_mode = mode, ts_state = ''UNKNOWN'',
                   ts_step = [], ts_plan = [], ts_completed = [], ts_pending = [], ts_facts = [], ts_unknowns = [],
                   ts_constraints = constraints, ts_references = unique_strings refs [], ts_hypotheses = [],
                   ts_evidence = [], ts_results = [], ts_failures = [], ts_validation = [], ts_next = [],
                   ts_created_by = agent, ts_updated_by = agent, ts_created_at = te_stamp E, ts_updated_at = te_stamp E,
                   ts_revision = w_head (te_world E) base, ts_version = 1,
                   ts_history = [\<lparr>tn_from = [], tn_to = ''UNKNOWN'', tn_at = te_stamp E, tn_by = agent, tn_reason = ''created''\<rparr>]\<rparr> r))"

text \<open>Tasks, newest first (those of one second in stored order); a negative limit is a slice bound out of range.\<close>

definition list_tasks :: "'r source \<Rightarrow> string \<Rightarrow> string \<Rightarrow> int \<Rightarrow> 'r \<Rightarrow> props list res \<times> 'r" where
  "list_tasks S project state limit r =
     (case reading (find_or_none S ''Task'' [(''project_id'', VStr project)]) r of
        (ns, r) \<Rightarrow>
          let newest = rev (sort_key (\<lambda>n. str_prop n ''updated_at'') (rev ns));
              rows = map (\<lambda>n. put_all (map (\<lambda>k. (k, VStr (str_prop n k)))
                       [''task_id'', ''goal'', ''state'', ''mode'', ''updated_by'', ''updated_at'']) [])
                (filter (\<lambda>n. state = [] \<or> str_prop n ''state'' = state) newest)
          in (if int (length rows) \<le> limit then Inr rows
              else if limit < 0 then Inl (Panic ''slice bounds out of range'')
              else Inr (take (nat limit) rows), r))"

section \<open>Provenance\<close>

definition evidence_exists :: "'r source \<Rightarrow> string \<Rightarrow> string \<Rightarrow> 'r \<Rightarrow> bool \<times> 'r" where
  "evidence_exists S project i r =
     (case op_get (src_ops S) i r of
        (Inr n, r) \<Rightarrow> (node_kind n = ''Evidence'' \<and> pget (node_props n) ''project_id'' = VStr project, r)
      | (Inl _, r) \<Rightarrow> (False, r))"

definition provenance_ok :: "task_env \<Rightarrow> 'r source \<Rightarrow> string \<Rightarrow> string \<Rightarrow> 'r \<Rightarrow> bool \<times> 'r" where
  "provenance_ok E S project source r =
     (if has_prefix source ''evidence:''
      then (case op_get (src_ops S) (trim_prefix source ''evidence:'') r of
              (Inr n, r) \<Rightarrow> (pget (node_props n) ''project_id'' = VStr project, r)
            | (Inl _, r) \<Rightarrow> (False, r))
      else if has_prefix source ''graph:'' \<or> has_prefix source ''tool:'' then (length ''tool:'' < length source, r)
      else if looks source
      then (case reading (resolve_ref S (te_world E) project source) r of (res, r) \<Rightarrow> (rs_status res \<noteq> ref_invalid, r))
      else (False, r))"

section \<open>The steps of an update\<close>

definition add_references :: "task_env \<Rightarrow> 'r source \<Rightarrow> string \<Rightarrow> task_patch \<Rightarrow> task_state \<Rightarrow> 'r \<Rightarrow> task_state res \<times> 'r" where
  "add_references E S project p ts r =
     andthen (check_refs E S project (tp_references p) r)
       (\<lambda>_ r. (Inr (ts\<lparr>ts_references := unique_strings (ts_references ts @ tp_references p) []\<rparr>), r))"

definition known_evidence :: "(string \<Rightarrow> string) \<Rightarrow> 'r source \<Rightarrow> string \<Rightarrow> string list \<Rightarrow> 'r \<Rightarrow> unit res \<times> 'r" where
  "known_evidence message S project is =
     each (\<lambda>i _ r. case evidence_exists S project i r of
        (ok, r) \<Rightarrow> (if ok then Inr () else failing (message i), r)) is ()"

definition add_evidence :: "'r source \<Rightarrow> string \<Rightarrow> task_patch \<Rightarrow> task_state \<Rightarrow> 'r \<Rightarrow> task_state res \<times> 'r" where
  "add_evidence S project p ts r =
     andthen (known_evidence (\<lambda>i. ''evidence '' @ go_quoted i @ '' does not exist in project '' @ project @
          '' (create it with record_evidence first)'') S project (tp_evidence p) r)
       (\<lambda>_ r. (Inr (ts\<lparr>ts_evidence := unique_strings (ts_evidence ts @ tp_evidence p) []\<rparr>), r))"

definition kind_of_fact :: "task_fact \<Rightarrow> string" where
  "kind_of_fact f = (if tf_kind f = [] then ''INFERENCE'' else tf_kind f)"

definition add_fact :: "task_env \<Rightarrow> 'r source \<Rightarrow> string \<Rightarrow> string \<Rightarrow> task_fact \<Rightarrow> task_state \<Rightarrow> 'r \<Rightarrow> task_state res \<times> 'r" where
  "add_fact E S project agent f ts r =
     (if trim_space (tf_text f) = [] then (failing ''fact text is required'', r)
      else
        let added = Inr (ts\<lparr>ts_facts := ts_facts ts @
              [f\<lparr>tf_kind := kind_of_fact f, tf_at := te_stamp E, tf_by := agent\<rparr>]\<rparr>)
        in if kind_of_fact f = ''FACT''
           then (case provenance_ok E S project (tf_source f) r of
                   (ok, r) \<Rightarrow> (if ok then added
                     else failing (''FACT '' @ go_quoted (tf_text f) @ '' needs checkable provenance (evidence:<id>, graph:<edge>, '' @
                       ''tool:<name>, or a resolvable stable ID); record it as INFERENCE or a hypothesis instead''), r))
           else if kind_of_fact f = ''OBSERVATION''
           then (if tf_source f = [] then failing (''OBSERVATION '' @ go_quoted (tf_text f) @ '' needs a source'') else added, r)
           else if kind_of_fact f = ''INFERENCE'' then (added, r)
           else (failing ''fact kind must be FACT, OBSERVATION or INFERENCE'', r))"

definition complete_step :: "string \<Rightarrow> task_state \<Rightarrow> 'r \<Rightarrow> task_state res \<times> 'r" where
  "complete_step step ts r =
     (case index_of (ts_pending ts) step of
        None \<Rightarrow> (failing (''cannot complete '' @ go_quoted step @ '': it is not a pending step''), r)
      | Some i \<Rightarrow> (Inr (ts\<lparr>ts_pending := remove_at i (ts_pending ts), ts_completed := ts_completed ts @ [step]\<rparr>), r))"

definition extend_plan :: "task_patch \<Rightarrow> task_state \<Rightarrow> task_state" where
  "extend_plan p ts = ts\<lparr>ts_plan := ts_plan ts @ tp_plan p, ts_pending := ts_pending ts @ tp_plan p\<rparr>"

definition resolve_unknown :: "string \<Rightarrow> task_state \<Rightarrow> 'r \<Rightarrow> task_state res \<times> 'r" where
  "resolve_unknown u ts r =
     (case index_of (ts_unknowns ts) u of
        None \<Rightarrow> (failing (''unknown '' @ go_quoted u @ '' is not open''), r)
      | Some i \<Rightarrow> (Inr (ts\<lparr>ts_unknowns := remove_at i (ts_unknowns ts)\<rparr>), r))"

definition add_unknowns :: "task_patch \<Rightarrow> task_state \<Rightarrow> task_state" where
  "add_unknowns p ts = ts\<lparr>ts_unknowns := unique_strings (ts_unknowns ts @ tp_unknowns p) []\<rparr>"

definition add_results :: "task_env \<Rightarrow> string \<Rightarrow> task_patch \<Rightarrow> task_state \<Rightarrow> task_state" where
  "add_results E agent p ts =
     ts\<lparr>ts_constraints := unique_strings (ts_constraints ts @ tp_constraints p) [],
        ts_results := ts_results ts @ map (\<lambda>t. t\<lparr>tr_at := te_stamp E, tr_by := agent\<rparr>) (tp_results p),
        ts_failures := (if tp_clear p then [] else ts_failures ts) @ tp_failures p\<rparr>"

definition add_validation :: "task_env \<Rightarrow> validation_entry \<Rightarrow> task_state \<Rightarrow> 'r \<Rightarrow> task_state res \<times> 'r" where
  "add_validation E e ts r =
     (if ve_status e \<noteq> ''passed'' \<and> ve_status e \<noteq> ''failed'' then (failing ''validation status must be passed or failed'', r)
      else (Inr (ts\<lparr>ts_validation := ts_validation ts @ [e\<lparr>ve_at := te_stamp E\<rparr>]\<rparr>), r))"

definition set_steps :: "task_patch \<Rightarrow> task_state \<Rightarrow> task_state" where
  "set_steps p ts =
     ts\<lparr>ts_step := (case tp_step p of None \<Rightarrow> ts_step ts | Some s \<Rightarrow> s),
        ts_next := (case tp_next p of None \<Rightarrow> ts_next ts | Some s \<Rightarrow> s)\<rparr>"

text \<open>The latest entry of each name; the names are sorted in the message.\<close>

definition latest_entries :: "validation_entry list \<Rightarrow> (string \<times> validation_entry) list" where
  "latest_entries es = fold (\<lambda>e m. put (ve_name e) e m) es []"

definition validation_gate :: "task_state \<Rightarrow> unit res" where
  "validation_gate ts =
     (if ts_validation ts = [] then failing ''cannot mark VALIDATED: no validation has been recorded''
      else
        let bad = filter (\<lambda>(name, e). ve_status e \<noteq> ''passed'') (latest_entries (ts_validation ts))
        in if bad \<noteq> [] then failing (''cannot mark VALIDATED: latest result failed for '' @ join '', '' (sort (map fst bad)))
           else Inr ())"

definition change_state :: "task_env \<Rightarrow> string \<Rightarrow> task_patch \<Rightarrow> task_state \<Rightarrow> task_state res" where
  "change_state E agent p ts =
     (if tp_state p = [] \<or> tp_state p = ts_state ts then Inr ts
      else if \<not> allowed task_transitions (ts_state ts) (tp_state p)
      then failing (''illegal task transition '' @ ts_state ts @ '' -> '' @ tp_state p @ '' (allowed: '' @
             join '', '' (targets task_transitions (ts_state ts)) @ '')'')
      else case (if tp_state p = ''VALIDATED'' then validation_gate ts else Inr ()) of
        Inl e \<Rightarrow> Inl e
      | Inr _ \<Rightarrow>
          Inr (ts\<lparr>ts_history := ts_history ts @ [\<lparr>tn_from = ts_state ts, tn_to = tp_state p, tn_at = te_stamp E, tn_by = agent,
                 tn_reason = tp_reason p\<rparr>], ts_state := tp_state p\<rparr>))"


section \<open>Hypotheses\<close>

definition bad_confidence :: "'a res" where
  "bad_confidence = failing ''confidence must be between 0 and 1''"

text \<open>
  The new hypothesis of an operation without an id. Its claim is also recorded in the graph, and when
  that works the id of the node there is the id of the hypothesis.
\<close>

definition graph_id :: "props res \<Rightarrow> string \<Rightarrow> string" where
  "graph_id res i = (case res of Inl _ \<Rightarrow> i | Inr n \<Rightarrow> map_str n ''id'')"

definition start_hypothesis :: "task_env \<Rightarrow> 'r source \<Rightarrow> string \<Rightarrow> hypothesis_op \<Rightarrow> task_state \<Rightarrow> 'r \<Rightarrow> task_state res \<times> 'r" where
  "start_hypothesis E S agent ho ts r =
     (let conf = (case ho_confidence ho of None \<Rightarrow> Fin (1 / 2) | Some c \<Rightarrow> c);
          i = ''hyp-'' @ itoa (int (length (ts_hypotheses ts)) + 1);
          start = (\<lambda>i. ts\<lparr>ts_hypotheses := ts_hypotheses ts @
            [\<lparr>th_id = i, th_claim = ho_claim ho, th_subject = ho_subject ho, th_status = ''SUSPECTED'',
              th_confidence = conf, th_for = [], th_against = []\<rparr>]\<rparr>)
      in if trim_space (ho_claim ho) = [] then (failing ''a new hypothesis needs a claim'', r)
         else if out_of_unit conf then (bad_confidence, r)
         else if ho_subject ho = [] then (Inr (start i), r)
         else case reading (resolve_ref S (te_world E) (ts_project ts) (ho_subject ho)) r of
           (res, r) \<Rightarrow>
             if rs_status res = ref_invalid \<and> looks (ho_subject ho)
             then (failing (ref_invalid @ '': '' @ ho_subject ho), r)
             else case reading (lookup S (ts_project ts) (ho_subject ho)) r of
               ((n, _), r) \<Rightarrow>
                 (case record_hypothesis (te_now E) (te_clock E) (src_ops S) (ts_project ts)
                         (case n of None \<Rightarrow> ho_subject ho | Some n \<Rightarrow> node_id n) (ho_claim ho) conf
                         (put_all [(''state'', VStr ''HYPOTHESIS''), (''analyst'', VStr agent)] []) r of
                    (res, r) \<Rightarrow> (Inr (start (graph_id res i)), r)))"

text \<open>The last hypothesis with an id.\<close>

definition find_hypothesis :: "string \<Rightarrow> task_hypothesis list \<Rightarrow> nat option" where
  "find_hypothesis i hs = (case filter (\<lambda>k. th_id (hs ! k) = i) [0..<length hs] of [] \<Rightarrow> None | ks \<Rightarrow> Some (last ks))"

definition weigh :: "hypothesis_op \<Rightarrow> task_hypothesis \<Rightarrow> task_hypothesis" where
  "weigh ho h = h\<lparr>th_for := unique_strings (th_for h @ ho_for ho) [], th_against := unique_strings (th_against h @ ho_against ho) []\<rparr>"

definition set_confidence :: "hypothesis_op \<Rightarrow> task_hypothesis \<Rightarrow> task_hypothesis res" where
  "set_confidence ho h =
     (case ho_confidence ho of
        None \<Rightarrow> Inr h
      | Some c \<Rightarrow> if out_of_unit c then bad_confidence else Inr (h\<lparr>th_confidence := c\<rparr>))"

text \<open>What a status asks of the evidence; None when it is there.\<close>

definition evidence_gate :: "string \<Rightarrow> task_hypothesis \<Rightarrow> string option" where
  "evidence_gate status h =
     (if status = ''SUPPORTED'' \<or> status = ''PARTIAL''
      then (if th_for h = [] then Some (th_id h @ '' needs at least one supporting evidence id before it can be '' @ status) else None)
      else if status = ''CONFIRMED''
      then (if length (th_for h) < 2
            then Some (th_id h @ '' needs at least two independent supporting evidence ids to be CONFIRMED (has '' @
              itoa (int (length (th_for h))) @ '')'')
            else if th_against h \<noteq> [] then Some (th_id h @ '' has contradicting evidence; resolve it before confirming'')
            else None)
      else if status = ''CONTRADICTED''
      then (if th_against h = [] then Some (th_id h @ '' needs contradicting evidence before it can be CONTRADICTED'') else None)
      else None)"

definition change_status :: "hypothesis_op \<Rightarrow> task_hypothesis \<Rightarrow> task_hypothesis res" where
  "change_status ho h =
     (if ho_status ho = [] \<or> ho_status ho = th_status h then Inr h
      else if \<not> allowed hyp_transitions (th_status h) (ho_status ho)
      then failing (''illegal hypothesis transition '' @ th_status h @ '' -> '' @ ho_status ho @ '' for '' @ th_id h @ '' (allowed: '' @
             join '', '' (targets hyp_transitions (th_status h)) @ '')'')
      else case evidence_gate (ho_status ho) h of
        Some s \<Rightarrow> failing s
      | None \<Rightarrow> Inr (h\<lparr>th_status := ho_status ho\<rparr>))"

definition move_hypothesis :: "hypothesis_op \<Rightarrow> nat \<Rightarrow> task_state \<Rightarrow> task_state res" where
  "move_hypothesis ho k ts =
     (case set_confidence ho (weigh ho (ts_hypotheses ts ! k)) of
        Inl e \<Rightarrow> Inl e
      | Inr h \<Rightarrow> map_sum id (\<lambda>h. ts\<lparr>ts_hypotheses := (ts_hypotheses ts)[k := h]\<rparr>) (change_status ho h))"

definition apply_hypothesis :: "task_env \<Rightarrow> 'r source \<Rightarrow> string \<Rightarrow> hypothesis_op \<Rightarrow> task_state \<Rightarrow> 'r \<Rightarrow> task_state res \<times> 'r" where
  "apply_hypothesis E S agent ho ts r =
     andthen (known_evidence (\<lambda>i. ''hypothesis evidence '' @ go_quoted i @ '' does not exist in project '' @ ts_project ts)
         S (ts_project ts) (ho_for ho @ ho_against ho) r) (\<lambda>_ r.
       if ho_id ho = []
       then andthen (start_hypothesis E S agent ho ts r)
              (\<lambda>ts r. (move_hypothesis ho (length (ts_hypotheses ts) - 1) ts, r))
       else (case find_hypothesis (ho_id ho) (ts_hypotheses ts) of
               None \<Rightarrow> (failing (''hypothesis '' @ go_quoted (ho_id ho) @ '' not found in task '' @ ts_id ts), r)
             | Some k \<Rightarrow> (move_hypothesis ho k ts, r)))"

section \<open>Updating\<close>

definition conflict :: "task_state \<Rightarrow> int \<Rightarrow> string" where
  "conflict ts v = ''CONFLICT: task is at version '' @ itoa (ts_version ts) @ '' (updated by '' @ ts_updated_by ts @
     ''), you edited version '' @ itoa v @ ''; re-read with get_task_state''"

text \<open>The changes of a patch, in the order of the code, up to the new stamps.\<close>

definition apply_patch :: "task_env \<Rightarrow> 'r source \<Rightarrow> string \<Rightarrow> string \<Rightarrow> task_patch \<Rightarrow> task_state \<Rightarrow> 'r \<Rightarrow> task_state res \<times> 'r" where
  "apply_patch E S project agent p ts r =
     andthen (add_references E S project p ts r) (\<lambda>ts r.
     andthen (add_evidence S project p ts r) (\<lambda>ts r.
     andthen (each (add_fact E S project agent) (tp_facts p) ts r) (\<lambda>ts r.
     andthen (each complete_step (tp_complete p) (extend_plan p ts) r) (\<lambda>ts r.
     andthen (each resolve_unknown (tp_resolve p) (add_unknowns p ts) r) (\<lambda>ts r.
     andthen (each (add_validation E) (tp_validation p) (add_results E agent p ts) r) (\<lambda>ts r.
     andthen (each (apply_hypothesis E S agent) (tp_hypotheses p) (set_steps p ts) r) (\<lambda>ts r.
     (change_state E agent p ts, r))))))))"

definition stamp_task :: "task_env \<Rightarrow> string \<Rightarrow> task_state \<Rightarrow> task_state" where
  "stamp_task E agent ts = ts\<lparr>ts_updated_by := agent, ts_updated_at := te_stamp E, ts_version := ts_version ts + 1\<rparr>"

definition update_task :: "task_env \<Rightarrow> 'r source \<Rightarrow> string \<Rightarrow> string \<Rightarrow> string \<Rightarrow> task_patch \<Rightarrow> 'r \<Rightarrow> task_state res \<times> 'r" where
  "update_task E S project task agent p r =
     andthen (load_task E S project task r) (\<lambda>ts r.
       case tp_expected p of
         Some v \<Rightarrow>
           if v \<noteq> ts_version ts then (failing (conflict ts v), r)
           else andthen (apply_patch E S project agent p ts r) (\<lambda>ts. save_task E S (stamp_task E agent ts))
       | None \<Rightarrow> andthen (apply_patch E S project agent p ts r) (\<lambda>ts. save_task E S (stamp_task E agent ts)))"

section \<open>Resuming\<close>

record reference_health =
  rh_id :: string
  rh_status :: string
  rh_reason :: string

record resumed =
  re_task :: task_state
  re_health :: "reference_health list"
  re_checklist :: "(string \<times> bool \<times> string) list"
  re_moved :: bool
  re_handoffs :: "transition list"
  re_warning :: bool

fun reference_healths :: "task_env \<Rightarrow> 'r source \<Rightarrow> string \<Rightarrow> string list \<Rightarrow> 'r \<Rightarrow> reference_health list \<times> 'r" where
  "reference_healths E S project [] r = ([], r)"
| "reference_healths E S project (i # is) r =
     (case reading (resolve_ref S (te_world E) project i) r of
        (res, r) \<Rightarrow> apfst (Cons \<lparr>rh_id = i, rh_status = rs_status res, rh_reason = rs_reason res\<rparr>)
                     (reference_healths E S project is r))"

definition hypotheses_have_evidence :: "task_state \<Rightarrow> bool" where
  "hypotheses_have_evidence ts \<longleftrightarrow>
     list_all (\<lambda>h. \<not> ((th_status h = ''SUPPORTED'' \<or> th_status h = ''CONFIRMED'') \<and> th_for h = [])) (ts_hypotheses ts)"

text \<open>The task is moved to \<open>STALE\<close>, or handed over; when the save of a handover fails it is still shown.\<close>

definition hand_over :: "task_env \<Rightarrow> string \<Rightarrow> task_state \<Rightarrow> task_state" where
  "hand_over E agent ts =
     ts\<lparr>ts_history := ts_history ts @ [\<lparr>tn_from = ts_state ts, tn_to = ts_state ts, tn_at = te_stamp E, tn_by = agent,
          tn_reason = ''resumed by '' @ agent\<rparr>],
        ts_updated_by := agent, ts_version := ts_version ts + 1\<rparr>"

definition on_resume :: "task_env \<Rightarrow> 'r source \<Rightarrow> string \<Rightarrow> string \<Rightarrow> string \<Rightarrow> nat \<Rightarrow> task_state \<Rightarrow> 'r \<Rightarrow> task_state \<times> 'r" where
  "on_resume E S project task agent bad ts r =
     (if 0 < bad \<and> ts_state ts \<noteq> ''STALE'' \<and> ts_state ts \<noteq> ''VALIDATED'' \<and> allowed task_transitions (ts_state ts) ''STALE''
      then (case update_task E S project task agent
                   (empty_patch\<lparr>tp_state := ''STALE'', tp_reason := nat_str bad @ '' reference(s) no longer valid on resume''\<rparr>) r of
              (Inr ts, r) \<Rightarrow> (ts, r)
            | (Inl _, r) \<Rightarrow> (ts, r))
      else if agent \<noteq> [] \<and> agent \<noteq> ts_updated_by ts
      then (hand_over E agent ts, snd (save_task E S (hand_over E agent ts) r))
      else (ts, r))"

definition yes_no_check :: "string \<Rightarrow> bool \<Rightarrow> string \<Rightarrow> string \<times> bool \<times> string" where
  "yes_no_check s ok detail = (s, ok, detail)"

definition resume_task :: "task_env \<Rightarrow> 'r source \<Rightarrow> string \<Rightarrow> string \<Rightarrow> string \<Rightarrow> 'r \<Rightarrow> resumed res \<times> 'r" where
  "resume_task E S project task agent r =
     andthen (load_task E S project task r) (\<lambda>ts r.
       case reference_healths E S project (ts_references ts) r of
         (health, r) \<Rightarrow>
           let bad = length (filter (\<lambda>h. rh_status h \<noteq> ref_valid) health)
           in case reading (project_root S project) r of
             (base, r) \<Rightarrow>
               let head = w_head (te_world E) base;
                   moved = (ts_revision ts \<noteq> [] \<and> head \<noteq> [] \<and> \<not> same_revision (ts_revision ts) head)
               in case on_resume E S project task agent bad ts r of
                 (ts, r) \<Rightarrow>
                   (Inr \<lparr>re_task = ts, re_health = health,
                      re_checklist =
                        [yes_no_check ''task state loaded'' True (ts_state ts),
                         yes_no_check ''all references valid'' (bad = 0)
                           (itoa (int (length health) - int bad) @ ''/'' @ nat_str (length health) @ '' valid''),
                         yes_no_check ''repository revision unchanged since task began'' (\<not> moved)
                           (short_sha (ts_revision ts) @ '' -> '' @ short_sha head),
                         yes_no_check ''no unresolved failures'' (ts_failures ts = []) (nat_str (length (ts_failures ts)) @ '' recorded''),
                         yes_no_check ''evidence recorded for hypotheses'' (hypotheses_have_evidence ts)
                           (nat_str (length (ts_hypotheses ts)) @ '' hypotheses'')],
                      re_moved = moved, re_handoffs = cap_rows (rev (ts_history ts)) 5, re_warning = (0 < bad)\<rparr>, r))"

end
