(* ===== verification/TaskProperties.thy ===== *)
theory TaskProperties
  imports Tasks
begin

text \<open>
  A task stays well formed: its history is a walk along the allowed transitions that ends in its
  state, its plan is what is pending and what is completed, and no hypothesis has a status its
  evidence does not carry.
\<close>

section \<open>Well-formed tasks\<close>

fun leads :: "string \<Rightarrow> transition list \<Rightarrow> string \<Rightarrow> bool" where
  "leads s [] t = (s = t)"
| "leads s (x # xs) t =
     (tn_from x = s \<and> (tn_to x = s \<or> allowed task_transitions s (tn_to x)) \<and> leads (tn_to x) xs t)"

definition walk :: "transition list \<Rightarrow> string \<Rightarrow> bool" where
  "walk h s = (case h of [] \<Rightarrow> False | x # xs \<Rightarrow> tn_from x = [] \<and> tn_to x = ''UNKNOWN'' \<and> leads ''UNKNOWN'' xs s)"

definition id_set :: "string list \<Rightarrow> bool" where
  "id_set is \<longleftrightarrow> distinct is \<and> [] \<notin> set is"

definition gated :: "task_hypothesis \<Rightarrow> bool" where
  "gated h \<longleftrightarrow> th_status h \<in> set (map fst hyp_transitions) \<and> id_set (th_for h) \<and> id_set (th_against h) \<and>
     \<not> out_of_unit (th_confidence h) \<and>
     (th_status h = ''SUPPORTED'' \<or> th_status h = ''PARTIAL'' \<longrightarrow> th_for h \<noteq> []) \<and>
     (th_status h = ''CONFIRMED'' \<longrightarrow> 2 \<le> length (th_for h)) \<and>
     (th_status h = ''CONTRADICTED'' \<longrightarrow> th_against h \<noteq> [])"

definition fact_ok :: "task_fact \<Rightarrow> bool" where
  "fact_ok f \<longleftrightarrow> trim_space (tf_text f) \<noteq> [] \<and> tf_kind f \<in> {''FACT'', ''OBSERVATION'', ''INFERENCE''} \<and>
     (tf_kind f = ''OBSERVATION'' \<longrightarrow> tf_source f \<noteq> [])"

definition task_ok :: "task_state \<Rightarrow> bool" where
  "task_ok ts \<longleftrightarrow> walk (ts_history ts) (ts_state ts) \<and> list_all gated (ts_hypotheses ts) \<and> list_all fact_ok (ts_facts ts) \<and>
     mset (ts_plan ts) = mset (ts_pending ts) + mset (ts_completed ts) \<and>
     id_set (ts_references ts) \<and> id_set (ts_evidence ts) \<and> id_set (ts_unknowns ts) \<and>
     list_all (\<lambda>e. ve_status e = ''passed'' \<or> ve_status e = ''failed'') (ts_validation ts)"

lemma leads_snoc: "leads s (xs @ [x]) t \<longleftrightarrow>
   leads s xs (tn_from x) \<and> tn_to x = t \<and> (t = tn_from x \<or> allowed task_transitions (tn_from x) t)"
  by (induction xs arbitrary: s) auto

lemma walk_snoc:
  assumes "walk h s" "tn_from y = s" "tn_to y = t" "t = s \<or> allowed task_transitions s t"
  shows "walk (h @ [y]) t"
  using assms by (cases h) (auto simp: walk_def leads_snoc)

lemma unique_strings_set: "id_set (unique_strings xs [])"
proof -
  have "id_set (fold (\<lambda>s out. if s = [] \<or> s \<in> set out then out else out @ [s]) xs out)" if "id_set out" for out :: "string list"
    using that
  proof (induction xs arbitrary: out)
    case (Cons x xs)
    have "id_set (out @ [x])" if "x \<noteq> []" "x \<notin> set out" using that Cons.prems by (auto simp: id_set_def)
    with Cons.IH [of "out @ [x]"] Cons.IH [of out] Cons.prems show ?case by simp
  qed simp
  from this [of "[]"] show ?thesis by (simp add: unique_strings_def id_set_def)
qed

lemma unique_strings_keeps: "id_set xs \<Longrightarrow> \<exists>zs. unique_strings (xs @ ys) [] = xs @ zs"
proof -
  let ?f = "\<lambda>s out. if s = [] \<or> s \<in> set out then out else out @ [s]"
  have fresh: "fold ?f xs out = out @ xs" if "id_set (out @ xs)" for out xs :: "string list"
    using that
  proof (induction xs arbitrary: out)
    case (Cons x xs)
    then have "x \<noteq> []" "x \<notin> set out" by (auto simp: id_set_def)
    with Cons.IH [of "out @ [x]"] Cons.prems show ?case by simp
  qed simp
  have more: "\<exists>zs. fold ?f ys out = out @ zs" for out ys :: "string list"
  proof (induction ys arbitrary: out)
    case (Cons y ys)
    from Cons.IH [of "out @ [y]"] Cons.IH [of out] show ?case by auto
  qed simp
  assume "id_set xs"
  then show ?thesis using fresh [of "[]" xs] more [of ys xs] by (simp add: unique_strings_def)
qed

lemma index_of_iff: "index_of xs v = Some i \<Longrightarrow> i < length xs \<and> xs ! i = v"
  by (induction xs arbitrary: i) (auto split: if_splits)

lemma mset_remove_at: "i < length xs \<Longrightarrow> add_mset (xs ! i) (mset (remove_at i xs)) = mset xs"
  using id_take_nth_drop [of i xs] by (metis Suc_eq_plus1 mset.simps(2) mset_append remove_at_def union_mset_add_mset_right)

lemma id_set_remove_at: "id_set xs \<Longrightarrow> id_set (remove_at i xs)"
  by (auto simp: id_set_def remove_at_def distinct_append dest: in_set_takeD in_set_dropD)
    (metis distinct_append append_take_drop_id disjoint_iff in_mono set_drop_subset_set_drop Suc_eq_plus1 le_SucI order_refl)

text \<open>Sequencing and loops.\<close>

lemma andthen_Inr: "andthen m f = (Inr y, r') \<longleftrightarrow> (\<exists>x r. m = (Inr x, r) \<and> f x r = (Inr y, r'))"
  by (cases m; cases "fst m") (auto simp: andthen_def)

lemma each_inv:
  assumes "each f xs b r = (Inr b', r')" "P b"
    and "\<And>x b r b' r'. x \<in> set xs \<Longrightarrow> f x b r = (Inr b', r') \<Longrightarrow> P b \<Longrightarrow> P b'"
  shows "P b'"
  using assms
proof (induction xs arbitrary: b r)
  case (Cons x xs)
  then obtain b1 r1 where "f x b r = (Inr b1, r1)" "each f xs b1 r1 = (Inr b', r')" by (auto simp: andthen_Inr)
  with Cons show ?case by (metis list.set_intros)
qed simp

section \<open>The steps of an update\<close>

text \<open>What every step before the change of state leaves alone.\<close>

definition kept :: "task_state \<Rightarrow> task_state \<Rightarrow> bool" where
  "kept ts0 ts \<longleftrightarrow> task_ok ts \<and> ts_history ts = ts_history ts0 \<and> ts_state ts = ts_state ts0 \<and>
     ts_version ts = ts_version ts0 \<and> ts_id ts = ts_id ts0 \<and> ts_project ts = ts_project ts0"

lemma task_ok_simps:
  "id_set refs \<Longrightarrow> task_ok ts \<Longrightarrow> task_ok (ts\<lparr>ts_references := refs\<rparr>)"
  "id_set refs \<Longrightarrow> task_ok ts \<Longrightarrow> task_ok (ts\<lparr>ts_evidence := refs\<rparr>)"
  "id_set refs \<Longrightarrow> task_ok ts \<Longrightarrow> task_ok (ts\<lparr>ts_unknowns := refs\<rparr>)"
  "fact_ok f \<Longrightarrow> task_ok ts \<Longrightarrow> task_ok (ts\<lparr>ts_facts := ts_facts ts @ [f]\<rparr>)"
  "list_all gated hs \<Longrightarrow> task_ok ts \<Longrightarrow> task_ok (ts\<lparr>ts_hypotheses := hs\<rparr>)"
  "ve_status e = ''passed'' \<or> ve_status e = ''failed'' \<Longrightarrow> task_ok ts \<Longrightarrow>
    task_ok (ts\<lparr>ts_validation := ts_validation ts @ [e]\<rparr>)"
  by (simp_all add: task_ok_def)

lemma kept_references: "add_references E S project p ts r = (Inr ts', r') \<Longrightarrow> kept ts0 ts \<Longrightarrow> kept ts0 ts'"
  by (auto simp: add_references_def andthen_Inr kept_def intro!: task_ok_simps unique_strings_set)

lemma kept_evidence: "add_evidence S project p ts r = (Inr ts', r') \<Longrightarrow> kept ts0 ts \<Longrightarrow> kept ts0 ts'"
  by (auto simp: add_evidence_def andthen_Inr kept_def intro!: task_ok_simps unique_strings_set)

lemma kept_fact: "add_fact E S project agent f ts r = (Inr ts', r') \<Longrightarrow> kept ts0 ts \<Longrightarrow> kept ts0 ts'"
  by (auto simp: add_fact_def failing_def kept_def kind_of_fact_def fact_ok_def Let_def
      intro!: task_ok_simps split: if_splits prod.splits)

lemma kept_complete:
  assumes "complete_step step ts r = (Inr ts', r')" "kept ts0 ts"
  shows "kept ts0 ts'"
proof -
  from assms(1) obtain i where i: "index_of (ts_pending ts) step = Some i"
    and ts': "ts' = ts\<lparr>ts_pending := remove_at i (ts_pending ts), ts_completed := ts_completed ts @ [step]\<rparr>"
    by (auto simp: complete_step_def failing_def split: option.splits)
  from index_of_iff [OF i] mset_remove_at [of i "ts_pending ts"]
  have "mset (ts_pending ts) = add_mset step (mset (remove_at i (ts_pending ts)))" by simp
  with assms(2) show ?thesis by (auto simp: ts' kept_def task_ok_def)
qed

lemma kept_plan: "kept ts0 ts \<Longrightarrow> kept ts0 (extend_plan p ts)"
  by (auto simp: extend_plan_def kept_def task_ok_def)

lemma kept_unknown: "resolve_unknown u ts r = (Inr ts', r') \<Longrightarrow> kept ts0 ts \<Longrightarrow> kept ts0 ts'"
  by (auto simp: resolve_unknown_def failing_def kept_def task_ok_def
      intro!: task_ok_simps id_set_remove_at split: option.splits)

lemma kept_unknowns: "kept ts0 ts \<Longrightarrow> kept ts0 (add_unknowns p ts)"
  by (auto simp: add_unknowns_def kept_def intro!: task_ok_simps unique_strings_set)

lemma kept_results: "kept ts0 ts \<Longrightarrow> kept ts0 (add_results E agent p ts)"
  by (auto simp: add_results_def kept_def task_ok_def)

lemma kept_validation: "add_validation E e ts r = (Inr ts', r') \<Longrightarrow> kept ts0 ts \<Longrightarrow> kept ts0 ts'"
  by (auto simp: add_validation_def failing_def kept_def intro!: task_ok_simps split: if_splits)

lemma kept_steps: "kept ts0 ts \<Longrightarrow> kept ts0 (set_steps p ts)"
  by (auto simp: set_steps_def kept_def task_ok_def)

section \<open>The gates on a hypothesis\<close>

lemma gated_weigh: "gated h \<Longrightarrow> gated (weigh ho h)"
proof -
  assume h: "gated h"
  then have "id_set (th_for h)" "id_set (th_against h)" by (simp_all add: gated_def)
  then obtain xs ys where xs: "unique_strings (th_for h @ ho_for ho) [] = th_for h @ xs"
    and ys: "unique_strings (th_against h @ ho_against ho) [] = th_against h @ ys"
    using unique_strings_keeps by meson
  have ids: "id_set (th_for h @ xs)" "id_set (th_against h @ ys)"
    using unique_strings_set [of "th_for h @ ho_for ho"] unique_strings_set [of "th_against h @ ho_against ho"]
    unfolding xs ys .
  have "weigh ho h = h\<lparr>th_for := th_for h @ xs, th_against := th_against h @ ys\<rparr>" by (simp add: weigh_def xs ys)
  with h ids show ?thesis unfolding gated_def by (simp only: task_hypothesis.simps) auto
qed

lemma gated_confidence:
  assumes "set_confidence ho h = Inr h'" "gated h"
  shows "gated h'"
proof (cases "ho_confidence ho")
  case (Some c)
  with assms(1) have "h' = h\<lparr>th_confidence := c\<rparr>" "\<not> out_of_unit c"
    by (simp_all add: set_confidence_def bad_confidence_def failing_def split: if_splits)
  with assms(2) show ?thesis by (simp add: gated_def)
qed (use assms in \<open>simp add: set_confidence_def\<close>)

lemma hyp_targets: "allowed hyp_transitions s t \<Longrightarrow> t \<in> set (map fst hyp_transitions)"
  by (auto simp: allowed_def targets_def hyp_transitions_def split: if_splits)

lemma evidence_gate_None:
  assumes "evidence_gate t h = None"
  shows "t = ''SUPPORTED'' \<or> t = ''PARTIAL'' \<Longrightarrow> th_for h \<noteq> []" "t = ''CONFIRMED'' \<Longrightarrow> 2 \<le> length (th_for h)"
    "t = ''CONTRADICTED'' \<Longrightarrow> th_against h \<noteq> []"
  using assms by (auto simp: evidence_gate_def split: if_splits)

lemma gated_status:
  assumes "change_status ho h = Inr h'" "gated h"
  shows "gated h'"
proof (cases "h' = h")
  case False
  with assms(1) have a: "allowed hyp_transitions (th_status h) (ho_status ho)" and e: "evidence_gate (ho_status ho) h = None"
    and h': "h' = h\<lparr>th_status := ho_status ho\<rparr>"
    by (auto simp: change_status_def failing_def split: if_splits option.splits)
  from assms(2) have "id_set (th_for h)" "id_set (th_against h)" "\<not> out_of_unit (th_confidence h)"
    by (simp_all add: gated_def)
  with hyp_targets [OF a] evidence_gate_None [OF e] show ?thesis unfolding h' gated_def by simp
qed (use assms(2) in simp)

lemma kept_move:
  assumes "move_hypothesis ho k ts = Inr ts'" "k < length (ts_hypotheses ts)" "kept ts0 ts"
  shows "kept ts0 ts'"
proof -
  from assms(1) obtain h h' where h: "set_confidence ho (weigh ho (ts_hypotheses ts ! k)) = Inr h" "change_status ho h = Inr h'"
    and ts': "ts' = ts\<lparr>ts_hypotheses := (ts_hypotheses ts)[k := h']\<rparr>"
    by (auto simp: move_hypothesis_def split: sum.splits) (metis (no_types, lifting) Inl_Inr_False map_sum.simps sum.exhaust sum.inject(2))
  have all: "list_all gated (ts_hypotheses ts)" using assms(3) by (simp add: kept_def task_ok_def)
  then have "gated (ts_hypotheses ts ! k)" using assms(2) by (simp add: list_all_length)
  then have "gated h'" by (intro gated_status [OF h(2)] gated_confidence [OF h(1)] gated_weigh)
  with all have "list_all gated ((ts_hypotheses ts)[k := h'])"
    by (auto simp: list_all_iff dest!: set_update_subset_insert [THEN subsetD])
  with assms(3) show ?thesis by (auto simp: ts' kept_def intro: task_ok_simps)
qed

lemma find_hypothesis_bound:
  assumes "find_hypothesis i hs = Some k"
  shows "k < length hs"
proof -
  let ?ks = "filter (\<lambda>k. th_id (hs ! k) = i) [0..<length hs]"
  from assms have "?ks \<noteq> []" "k = last ?ks" by (auto simp: find_hypothesis_def split: list.splits)
  then have "k \<in> set ?ks" using last_in_set by blast
  then show ?thesis by simp
qed

lemma start_hypothesis_shape:
  assumes "start_hypothesis E S agent ho ts r = (Inr ts', r')"
  shows "\<exists>h. ts' = ts\<lparr>ts_hypotheses := ts_hypotheses ts @ [h]\<rparr> \<and> gated h"
proof -
  have new: "gated \<lparr>th_id = i, th_claim = c, th_subject = s, th_status = ''SUSPECTED'', th_confidence = x, th_for = [], th_against = []\<rparr>"
    if "\<not> out_of_unit x" for i c s x
    using that by (simp add: gated_def id_set_def hyp_transitions_def)
  show ?thesis
    using assms by (auto simp: start_hypothesis_def failing_def bad_confidence_def Let_def intro: new
        split: if_splits prod.splits)
qed

lemma kept_hypothesis:
  assumes "apply_hypothesis E S agent ho ts r = (Inr ts', r')" "kept ts0 ts"
  shows "kept ts0 ts'"
proof -
  from assms(1) obtain r1 where r1: "(if ho_id ho = []
       then andthen (start_hypothesis E S agent ho ts r1)
              (\<lambda>ts r. (move_hypothesis ho (length (ts_hypotheses ts) - 1) ts, r))
       else (case find_hypothesis (ho_id ho) (ts_hypotheses ts) of
               None \<Rightarrow> (failing (''hypothesis '' @ go_quoted (ho_id ho) @ '' not found in task '' @ ts_id ts), r1)
             | Some k \<Rightarrow> (move_hypothesis ho k ts, r1))) = (Inr ts', r')"
    unfolding apply_hypothesis_def andthen_Inr by blast
  show ?thesis
  proof (cases "ho_id ho = []")
    case True
    with r1 obtain ts1 r2 where new: "start_hypothesis E S agent ho ts r1 = (Inr ts1, r2)"
      and move: "move_hypothesis ho (length (ts_hypotheses ts1) - 1) ts1 = Inr ts'" by (auto simp: andthen_Inr)
    from start_hypothesis_shape [OF new] obtain h where h: "ts1 = ts\<lparr>ts_hypotheses := ts_hypotheses ts @ [h]\<rparr>" "gated h" by blast
    have "list_all gated (ts_hypotheses ts @ [h])" using assms(2) h(2) by (simp add: kept_def task_ok_def)
    then have "kept ts0 ts1" using assms(2) by (auto simp: h(1) kept_def intro: task_ok_simps)
    have "length (ts_hypotheses ts1) - 1 < length (ts_hypotheses ts1)" by (simp add: h(1))
    from kept_move [OF move this \<open>kept ts0 ts1\<close>] show ?thesis .
  next
    case False
    with r1 obtain k where k: "find_hypothesis (ho_id ho) (ts_hypotheses ts) = Some k" "move_hypothesis ho k ts = Inr ts'"
      by (auto simp: failing_def split: option.splits)
    show ?thesis by (rule kept_move [OF k(2) find_hypothesis_bound [OF k(1)] assms(2)])
  qed
qed

section \<open>An update as a whole\<close>

lemma kept_each:
  assumes "each f xs b r = (Inr b', r')" "kept ts0 b"
    and "\<And>x b r b' r'. f x b r = (Inr b', r') \<Longrightarrow> kept ts0 b \<Longrightarrow> kept ts0 b'"
  shows "kept ts0 b'"
  using assms(1,2) by (rule each_inv [where P = "kept ts0"]) (rule assms(3))

lemma apply_patch_steps:
  assumes "apply_patch E S project agent p ts r = (Inr ts', r')" "task_ok ts"
  obtains tu where "kept ts tu" "change_state E agent p tu = Inr ts'"
proof -
  have "kept ts ts" using assms(2) by (simp add: kept_def)
  from assms(1) obtain t1 r1 t2 r2 t3 r3 t4 r4 t5 r5 t6 r6 t7 r7 where
    s: "add_references E S project p ts r = (Inr t1, r1)" "add_evidence S project p t1 r1 = (Inr t2, r2)"
      "each (add_fact E S project agent) (tp_facts p) t2 r2 = (Inr t3, r3)"
      "each complete_step (tp_complete p) (extend_plan p t3) r3 = (Inr t4, r4)"
      "each resolve_unknown (tp_resolve p) (add_unknowns p t4) r4 = (Inr t5, r5)"
      "each (add_validation E) (tp_validation p) (add_results E agent p t5) r5 = (Inr t6, r6)"
      "each (apply_hypothesis E S agent) (tp_hypotheses p) (set_steps p t6) r6 = (Inr t7, r7)"
    and c: "change_state E agent p t7 = Inr ts'"
    unfolding apply_patch_def andthen_Inr by (elim exE conjE) (rule that, assumption+, simp)
  have "kept ts t1" by (rule kept_references [OF s(1) \<open>kept ts ts\<close>])
  then have "kept ts t2" by (rule kept_evidence [OF s(2)])
  then have "kept ts t3" by (rule kept_each [OF s(3)]) (rule kept_fact)
  then have "kept ts (extend_plan p t3)" by (rule kept_plan)
  then have "kept ts t4" by (rule kept_each [OF s(4)]) (rule kept_complete)
  then have "kept ts (add_unknowns p t4)" by (rule kept_unknowns)
  then have "kept ts t5" by (rule kept_each [OF s(5)]) (rule kept_unknown)
  then have "kept ts (add_results E agent p t5)" by (rule kept_results)
  then have "kept ts t6" by (rule kept_each [OF s(6)]) (rule kept_validation)
  then have "kept ts (set_steps p t6)" by (rule kept_steps)
  then have "kept ts t7" by (rule kept_each [OF s(7)]) (rule kept_hypothesis)
  with c show thesis by (intro that)
qed

text \<open>The latest result of every validation that was run.\<close>

definition all_passed :: "validation_entry list \<Rightarrow> bool" where
  "all_passed es \<longleftrightarrow> es \<noteq> [] \<and>
     (\<forall>e \<in> set es. ve_status (last (filter (\<lambda>e'. ve_name e' = ve_name e) es)) = ''passed'')"

lemma map_of_latest: "map_of (latest_entries es) name =
   (case filter (\<lambda>e. ve_name e = name) es of [] \<Rightarrow> None | xs \<Rightarrow> Some (last xs))"
proof (induction es rule: rev_induct)
  case (snoc e es)
  have "latest_entries (es @ [e]) = put (ve_name e) e (latest_entries es)" by (simp add: latest_entries_def)
  with snoc show ?case by (auto split: list.splits)
qed (simp add: latest_entries_def)

lemma validation_gate_passed:
  assumes "validation_gate ts = Inr u"
  shows "all_passed (ts_validation ts)"
proof -
  let ?es = "ts_validation ts"
  from assms have run: "?es \<noteq> []" and none: "filter (\<lambda>(name, e). ve_status e \<noteq> ''passed'') (latest_entries ?es) = []"
    by (auto simp: validation_gate_def failing_def Let_def split: if_splits)
  have "ve_status (last (filter (\<lambda>e'. ve_name e' = ve_name e) ?es)) = ''passed''" if "e \<in> set ?es" for e
  proof -
    let ?xs = "filter (\<lambda>e'. ve_name e' = ve_name e) ?es"
    have "e \<in> set ?xs" using that by simp
    then obtain x xs where "?xs = x # xs" by (cases ?xs) auto
    then have "map_of (latest_entries ?es) (ve_name e) = Some (last ?xs)" by (simp add: map_of_latest)
    then have "(ve_name e, last ?xs) \<in> set (latest_entries ?es)" by (rule map_of_SomeD)
    with none show ?thesis by (auto simp: filter_empty_conv)
  qed
  with run show ?thesis by (simp add: all_passed_def)
qed

text \<open>What an update does to the state, and to the history.\<close>

definition task_moved :: "task_env \<Rightarrow> string \<Rightarrow> task_patch \<Rightarrow> task_state \<Rightarrow> task_state \<Rightarrow> bool" where
  "task_moved E agent p ts ts' \<longleftrightarrow>
     (if tp_state p = [] \<or> tp_state p = ts_state ts
      then ts_state ts' = ts_state ts \<and> ts_history ts' = ts_history ts
      else allowed task_transitions (ts_state ts) (tp_state p) \<and> ts_state ts' = tp_state p \<and>
        ts_history ts' = ts_history ts @ [\<lparr>tn_from = ts_state ts, tn_to = tp_state p, tn_at = te_stamp E, tn_by = agent,
          tn_reason = tp_reason p\<rparr>] \<and>
        (tp_state p = ''VALIDATED'' \<longrightarrow> all_passed (ts_validation ts')))"

lemma change_state_moved:
  assumes "change_state E agent p tu = Inr ts'" "kept ts tu"
  shows "task_ok ts' \<and> task_moved E agent p ts ts' \<and> ts_version ts' = ts_version ts \<and> ts_id ts' = ts_id ts \<and> ts_project ts' = ts_project ts"
proof -
  from assms(2) have k: "task_ok tu" "ts_history tu = ts_history ts" "ts_state tu = ts_state ts"
    "ts_version tu = ts_version ts" "ts_id tu = ts_id ts" "ts_project tu = ts_project ts" by (simp_all add: kept_def)
  show ?thesis
  proof (cases "tp_state p = [] \<or> tp_state p = ts_state ts")
    case True
    with assms(1) k have "ts' = tu" by (auto simp: change_state_def)
    with True k show ?thesis by (simp add: task_moved_def)
  next
    case False
    let ?t = "\<lparr>tn_from = ts_state ts, tn_to = tp_state p, tn_at = te_stamp E, tn_by = agent, tn_reason = tp_reason p\<rparr>"
    from False assms(1) k have a: "allowed task_transitions (ts_state ts) (tp_state p)"
      and ts': "ts' = tu\<lparr>ts_history := ts_history ts @ [?t], ts_state := tp_state p\<rparr>"
      and v: "tp_state p = ''VALIDATED'' \<longrightarrow> is_ok (validation_gate tu)"
      by (auto simp: change_state_def failing_def is_ok_def split: if_splits sum.splits)
    have "walk (ts_history ts) (ts_state ts)" using k by (simp add: task_ok_def)
    from walk_snoc [OF this, of ?t "tp_state p"] a have "walk (ts_history ts') (ts_state ts')" by (simp add: ts')
    with k(1) have "task_ok ts'" by (simp add: ts' task_ok_def)
    moreover have "tp_state p = ''VALIDATED'' \<longrightarrow> all_passed (ts_validation ts')"
      using v validation_gate_passed [of tu] by (auto simp: ts' is_ok_def split: sum.splits)
    ultimately show ?thesis using False a k(4-6) by (simp add: task_moved_def ts')
  qed
qed

lemma save_task_Inr: "save_task E S ts r = (Inr ts', r') \<Longrightarrow> ts' = ts"
  by (auto simp: save_task_def andthen_Inr split: sum.splits)

lemma update_task_Inr:
  assumes "load_task E S project task r = (Inr ts, r1)" "task_ok ts" "update_task E S project task agent p r = (Inr ts', r')"
  shows "task_ok ts' \<and> task_moved E agent p ts ts' \<and> ts_version ts' = ts_version ts + 1 \<and> ts_updated_by ts' = agent \<and>
    (tp_expected p = None \<or> tp_expected p = Some (ts_version ts))"
proof -
  from assms(1,3) have "andthen (apply_patch E S project agent p ts r1) (\<lambda>ts. save_task E S (stamp_task E agent ts)) = (Inr ts', r')"
    and e: "tp_expected p = None \<or> tp_expected p = Some (ts_version ts)"
    by (auto simp: update_task_def andthen_def failing_def split: option.splits if_splits)
  then obtain tv r2 where patch: "apply_patch E S project agent p ts r1 = (Inr tv, r2)"
    and "save_task E S (stamp_task E agent tv) r2 = (Inr ts', r')" by (auto simp: andthen_Inr)
  then have ts': "ts' = stamp_task E agent tv" by (intro save_task_Inr)
  obtain tu where "kept ts tu" "change_state E agent p tu = Inr tv" by (rule apply_patch_steps [OF patch assms(2)])
  note change = change_state_moved [OF this(2,1)]
  have "task_ok ts' = task_ok tv" "task_moved E agent p ts ts' = task_moved E agent p ts tv" "ts_version ts' = ts_version tv + 1"
    "ts_updated_by ts' = agent"
    by (simp_all add: ts' stamp_task_def task_ok_def task_moved_def)
  with change e show ?thesis by simp
qed

section \<open>Tasks of the service\<close>

text \<open>
  What becomes of a task: it is created, updated from the version that was loaded (by a caller, or
  by a resume that moves it to \<open>STALE\<close>), and handed over by a resume; each call has its own clock,
  files and repository.
\<close>

inductive task_run :: "'r source \<Rightarrow> task_state \<Rightarrow> bool" for S :: "'r source" where
  created: "create_task E S fresh project goal mode agent constraints refs r = (Inr ts, r') \<Longrightarrow> task_run S ts"
| updated: "task_run S ts \<Longrightarrow> load_task E S project task r = (Inr ts, r1) \<Longrightarrow>
    update_task E S project task agent p r = (Inr ts', r') \<Longrightarrow> task_run S ts'"
| handed: "task_run S ts \<Longrightarrow> task_run S (hand_over E agent ts)"

lemma task_ok_created:
  assumes "create_task E S fresh project goal mode agent constraints refs r = (Inr ts, r')"
  shows "task_ok ts"
proof -
  have "ts_state ts = ''UNKNOWN'' \<and> ts_plan ts = [] \<and> ts_pending ts = [] \<and> ts_completed ts = [] \<and> ts_facts ts = [] \<and>
      ts_unknowns ts = [] \<and> ts_hypotheses ts = [] \<and> ts_evidence ts = [] \<and> ts_validation ts = [] \<and>
      ts_references ts = unique_strings refs [] \<and>
      ts_history ts = [\<lparr>tn_from = [], tn_to = ''UNKNOWN'', tn_at = te_stamp E, tn_by = agent, tn_reason = ''created''\<rparr>]"
    using assms by (auto simp: create_task_def failing_def andthen_Inr split: if_splits prod.splits list.splits
        dest!: save_task_Inr)
  then show ?thesis by (simp add: task_ok_def walk_def unique_strings_set) (simp add: id_set_def)
qed

lemma task_ok_handed:
  assumes "task_ok ts"
  shows "task_ok (hand_over E agent ts)"
proof -
  have "walk (ts_history ts) (ts_state ts)" using assms by (simp add: task_ok_def)
  then have "walk (ts_history (hand_over E agent ts)) (ts_state ts)"
    unfolding hand_over_def by (simp add: walk_snoc)
  with assms show ?thesis by (simp add: task_ok_def hand_over_def)
qed

lemma task_run_ok: "task_run S ts \<Longrightarrow> task_ok ts"
proof (induction rule: task_run.induct)
  case (updated ts E project task r r1 agent p ts' r')
  from update_task_Inr [OF updated.hyps(2) updated.IH updated.hyps(3)] show ?case by blast
qed (blast intro: task_ok_created task_ok_handed)+

text \<open>
  Claim C40. Updating a task of the service. A task that was created by it, and updated and handed
  over any number of times, is well formed: its history leads along allowed transitions from its
  creation to its state, its plan is what is pending and what is completed, every \<open>OBSERVATION\<close> has a
  source, and no hypothesis has a status its evidence does not carry. An update that expects another
  version fails with a conflict and writes nothing. One that succeeds gives a well-formed task of the
  next version; its state is as before with the same history, or it moved along one allowed
  transition, which the history records, and to \<open>VALIDATED\<close> only when the latest result of every
  validation that was run has passed.
\<close>

theorem task_update_sound:
  assumes "task_run S ts" "load_task E S project task r = (Inr ts, r1)"
  shows "task_ok ts \<and>
    (case update_task E S project task agent p r of
       (Inl _, _) \<Rightarrow> True
     | (Inr ts', _) \<Rightarrow> task_ok ts' \<and> task_moved E agent p ts ts' \<and> ts_version ts' = ts_version ts + 1 \<and> ts_updated_by ts' = agent) \<and>
    (tp_expected p \<noteq> None \<and> tp_expected p \<noteq> Some (ts_version ts) \<longrightarrow>
       update_task E S project task agent p r = (Inl (ErrMsg (conflict ts (the (tp_expected p)))), r1))"
proof -
  have ok: "task_ok ts" using assms(1) by (rule task_run_ok)
  have "update_task E S project task agent p r = (Inl (ErrMsg (conflict ts (the (tp_expected p)))), r1)"
    if "tp_expected p \<noteq> None \<and> tp_expected p \<noteq> Some (ts_version ts)"
    using that assms(2) by (auto simp: update_task_def andthen_def failing_def)
  moreover have "task_ok ts' \<and> task_moved E agent p ts ts' \<and> ts_version ts' = ts_version ts + 1 \<and> ts_updated_by ts' = agent"
    if "update_task E S project task agent p r = (Inr ts', r')" for ts' r'
    using update_task_Inr [OF assms(2) ok that] by blast
  ultimately show ?thesis using ok by (auto split: prod.split sum.split)
qed

definition task_demo_env :: "task_state res \<Rightarrow> task_env" where
  "task_demo_env stored = \<lparr>te_world = \<lparr>w_read = (\<lambda>_. None), w_head = (\<lambda>_. ''abcdef0''), w_diff = (\<lambda>_ _ _. NoDiff),
       w_relocate = (\<lambda>_ _. None)\<rparr>,
     te_stamp = ''t'', te_clock = ''c'', te_now = ''n'', te_marshal = (\<lambda>_. Inr ''json''), te_unmarshal = (\<lambda>_. stored)\<rparr>"

definition project_repo :: mem_repo where
  "project_repo = snd (upsert_node ''t'' ''Project'' [(''id'', VStr ''p'')] [] (new_memory_repo demo_ids))"

lemma task_update_sound_witness:
  "case create_task (task_demo_env (failing [])) mem_source ''0123456789ab'' ''p'' ''goal'' [] ''a'' [] [] project_repo of
     (Inr ts, r) \<Rightarrow>
       (case update_task (task_demo_env (Inr ts)) mem_source ''p'' ''t-0123456789ab'' ''b''
               (empty_patch\<lparr>tp_expected := Some 1, tp_state := ''DISCOVERING'', tp_plan := [''read'', ''write''],
                  tp_complete := [''read'']\<rparr>) r of
          (Inr ts', _) \<Rightarrow> task_ok ts' \<and> ts_state ts' = ''DISCOVERING'' \<and> ts_version ts' = 2 \<and> length (ts_history ts') = 2
        | _ \<Rightarrow> False) \<and>
       \<not> is_ok (fst (update_task (task_demo_env (Inr ts)) mem_source ''p'' ''t-0123456789ab'' ''b''
         (empty_patch\<lparr>tp_expected := Some 7\<rparr>) r))
   | _ \<Rightarrow> False"
proof -
  let ?created = "create_task (task_demo_env (failing [])) mem_source ''0123456789ab'' ''p'' ''goal'' [] ''a'' [] [] project_repo"
  let ?p = "empty_patch\<lparr>tp_expected := Some 7\<rparr>"
  let ?q = "empty_patch\<lparr>tp_expected := Some 1, tp_state := ''DISCOVERING'', tp_plan := [''read'', ''write''],
    tp_complete := [''read'']\<rparr>"
  obtain res r where c: "?created = (res, r)" by fastforce
  have "map_sum id (\<lambda>ts. (ts_version ts, ts_state ts, length (ts_history ts))) (fst ?created) = Inr (1, ''UNKNOWN'', 1)"
    and n: "is_ok (fst (task_node mem_source ''p'' ''t-0123456789ab'' (snd ?created)))"
    and u: "case ?created of (Inr ts, r) \<Rightarrow>
        is_ok (fst (update_task (task_demo_env (Inr ts)) mem_source ''p'' ''t-0123456789ab'' ''b'' ?q r)) | _ \<Rightarrow> True"
    by code_simp+
  with c obtain ts where ts: "?created = (Inr ts, r)" "ts_version ts = 1" "ts_state ts = ''UNKNOWN''" "length (ts_history ts) = 1"
    by (cases res) auto
  obtain r1 where load: "load_task (task_demo_env (Inr ts)) mem_source ''p'' ''t-0123456789ab'' r = (Inr ts, r1)"
    using n ts(1) by (cases "task_node mem_source ''p'' ''t-0123456789ab'' r")
      (auto simp: load_task_def andthen_def task_demo_env_def is_ok_def split: sum.splits)
  note sound = task_update_sound [OF task_run.created [OF ts(1)] load, where agent = "''b''"]
  have p: "tp_expected ?p = Some 7" and q: "tp_state ?q = ''DISCOVERING''" by simp_all
  from u ts(1) obtain ts' r' where
    u': "update_task (task_demo_env (Inr ts)) mem_source ''p'' ''t-0123456789ab'' ''b'' ?q r = (Inr ts', r')"
    by (cases "update_task (task_demo_env (Inr ts)) mem_source ''p'' ''t-0123456789ab'' ''b'' ?q r")
      (auto simp: is_ok_def split: sum.splits)
  from sound [of ?q] have "task_ok ts' \<and> task_moved (task_demo_env (Inr ts)) ''b'' ?q ts ts' \<and> ts_version ts' = 2"
    by (simp add: u' ts(2))
  then have "task_ok ts' \<and> ts_state ts' = ''DISCOVERING'' \<and> ts_version ts' = 2 \<and> length (ts_history ts') = 2"
    by (simp add: task_moved_def q ts(3,4))
  moreover from sound [of ?p] p ts(2)
  have "\<not> is_ok (fst (update_task (task_demo_env (Inr ts)) mem_source ''p'' ''t-0123456789ab'' ''b'' ?p r))"
    by (simp add: is_ok_def)
  ultimately show ?thesis by (simp add: ts(1) u')
qed

end
