(* ===== verification/Spec2Isabelle.thy ===== *)
theory Spec2Isabelle
  imports QueryIndex CacheProperties PrivacyProperties RuntimeProperties ParserProperties SearchProperties Slice EventEngine LoopRecords ReferenceProperties TaskProperties
begin

text \<open>
  A model of the core of codeRAG (codergag), a local server that keeps a knowledge graph of a
  source tree and answers questions of coding assistants from it.

  \<^bold>\<open>The program.\<close> Indexers and services (\<open>internal/services\<close>) write nodes and edges into a graph
  repository (\<open>internal/graph\<close>): in memory, or on a file shared with other processes through a
  merge of journals. Query services read it through an index of tables. Answers of tools are
  kept in a cache (\<open>internal/cache\<close>) whose entries are nodes of the same graph. Everything that
  leaves the machine goes through the privacy firewall (\<open>internal/privacy\<close>). Nodes carry stable
  ids (\<open>internal/ids\<close>).

  \<^bold>\<open>The theories\<close>, from the bottom up.
  \<^item> \<open>Prelude\<close>: results (\<open>Inl\<close> an error, \<open>Inr\<close> a value), stores (Go maps as association lists),
    dynamic values, sorting and grouping. \<open>GoStrings\<close>, \<open>GoFormat\<close>, \<open>GoPath\<close>, \<open>GoRegexp\<close>,
    \<open>GoFloat\<close> and \<open>GoSha256\<close> hold the parts of Go's library the program uses: string functions,
    formatting, paths, a backtracking matcher with leftmost-first submatches that is proved
    equivalent to a declarative matching relation, rounded 64-bit floating point, SHA-256.
  \<^item> \<open>Ids\<close>: \<open>internal/ids\<close>; builders, parsers, normalisation of log lines.
  \<^item> \<open>GraphModel\<close> and \<open>GraphInterface\<close>: \<open>internal/models\<close> and \<open>internal/graph/repository.go\<close>;
    the interface is the locale \<open>graph_repo\<close>, whose laws say what a lookup finds after each
    operation. \<open>MemoryGraph\<close> is \<open>memory.go\<close> and interprets it.
  \<^item> \<open>GraphCache\<close>, \<open>GraphState\<close>, \<open>GraphQuery\<close>, \<open>PersistentGraph\<close>: \<open>persistent.go\<close>; the read cache,
    proved to refine a bounded list in order of use; states, journals, merging and migrations;
    the query language; and the repository itself over a world that holds the graph file.
  \<^item> \<open>QueryIndex\<close>: \<open>query_index.go\<close>; its tables answer as scans of the snapshot do.
  \<^item> \<open>SemanticCache\<close>, \<open>ResultCache\<close>, \<open>CacheProperties\<close>: \<open>internal/cache\<close>; the client's lemmas
    are proved from the interface of the repository.
  \<^item> \<open>Pseudonyms\<close>, \<open>Privacy\<close>, \<open>PrivacyProperties\<close>: \<open>internal/privacy\<close>; the table of pseudonyms is
    a bijection, and what the redactor and the firewall remove, keep and let out.
  \<^item> \<open>RuntimeQueue\<close>, \<open>RuntimeParser\<close>, \<open>LogTemplates\<close>, \<open>RuntimeObserver\<close>: \<open>internal/runtime\<close> and
    \<open>internal/services/runtime.go\<close>; captured output goes through a ring of events (locale
    \<open>bounded_buffer\<close>, interpreted on it), is parsed line by line and becomes an observation node
    with graded links to code. \<open>ParserProperties\<close> and \<open>RuntimeProperties\<close> hold what is proved of
    them. A \<open>time_env\<close> is the clock and its two formats, a \<open>code_index\<close> the interface the
    services set, \<open>written\<close> what a write through a returned node does to the repository.
  \<^item> \<open>Search\<close>, \<open>SearchProperties\<close>: \<open>internal/search\<close> and \<open>internal/services/ranking.go\<close>; the
    interface \<open>search.Ranker\<close> is the locale \<open>ranker\<close>, interpreted on BM25, the vector ranker and
    their fusion, and the rows a search answers with are described in it once.
  \<^item> \<open>EventEngine\<close>: \<open>internal/services/events.go\<close>; a step relation in which the emitters, the
    dispatcher, the goroutines of the pool and a stop interleave, each move a function of its own.
  \<^item> \<open>AntiLoop\<close>, \<open>AntiLoopProperties\<close>, \<open>LoopRecords\<close>: \<open>internal/services/evidence.go\<close> and
    \<open>anti_loop.go\<close> over the dictionary of a repository; what a check reports of the hypotheses it
    reads, and what it cannot see of claims recorded through the in-memory repository.
  \<^item> \<open>EditDistance\<close>, \<open>References\<close>, \<open>ReferenceProperties\<close>: \<open>internal/services/refs.go\<close>; where a stable id
    points now, over a \<open>world\<close> of files, git and \<open>relocateSymbol\<close>; what a VALID answer means, and that
    an index does not change what is found. \<open>editDistance\<close> is the least number of edits.
  \<^item> \<open>Tasks\<close>, \<open>TaskProperties\<close>: \<open>internal/services/tasks.go\<close>; the working memory of a task as a node of
    the graph, its states and the gates on them. A \<open>task_env\<close> is what one call sees: the world, the
    clocks, and JSON as a pair of functions.
  \<^item> \<open>Slice\<close>: \<open>internal/services/slice.go\<close> on 64-bit words.

  \<^bold>\<open>State and its parameters.\<close> An operation with effects takes the state it changes and returns
  it. The clock, the supply of random ids and the files other processes change are arguments. A
  Go map is an association list whose order stands for the order a range loop visits it in;
  where the code sorts, the result does not depend on it. A mutex is part of the state where an
  operation can wait for itself. Panics and deadlocks are errors of their own.

  \<^bold>\<open>Bounds.\<close> The matcher's loop is bounded by the length of the remaining text, since a round
  that consumes nothing ends the loop; replacing and splitting are bounded by the length of the
  text. Every other recursion is structural or on a measure.

  \<^bold>\<open>Assumptions.\<close> Text is ASCII. Counters (\<open>int\<close> in the code) do not reach \<open>2 ^ 63\<close>.
  \<open>sort.Slice\<close> keeps the order of equal elements. There is one floating-point zero.

  \<^bold>\<open>Not modelled.\<close> The SQL and MongoDB repositories hand statements to database drivers. The
  indexers call tree-sitter. Git, web, LLM, daemon, update and adapter code drives processes
  and connections. The command line and the JSON-RPC server dispatch to the services.
\<close>

end
